(* ===== verification/Prelude.thy ===== *)
theory Prelude
  imports Main
begin

text \<open>
  Shared ground of the development.

  \<^item> C++ failures that the sources do not catch at the place where they arise
    (\<open>std::out_of_range\<close>, dereferencing a null pointer, ...) are values of type
    \<open>fault\<close>; a computation that may fail has a sum type with the fault on the left.
  \<^item> The fixed-width integer conversions of the target (32-bit \<open>int\<close>, 64-bit
    \<open>size_t\<close>) are written out on \<open>int\<close>.
  \<^item> \<open>std::string\<close> is a list of bytes (\<open>string\<close>), with the members the
    sources call: \<open>find\<close>, \<open>rfind\<close>, \<open>substr\<close>, \<open>c_str\<close>, \<open>operator[]\<close>.
    \<open>npos\<close> is \<open>None\<close>.
\<close>

named_theorems str_simps "facts on std::string operations"
named_theorems wrap_simps "facts on fixed-width conversions"

section \<open>Uncaught failures\<close>

datatype fault =
    OutOfRange      \<comment> \<open>std::out_of_range thrown by substr, erase or at\<close>
  | NullDeref       \<comment> \<open>a null or uninitialised pointer is dereferenced\<close>
  | BadAccess       \<comment> \<open>front() or begin() dereferenced on an empty container\<close>
  | BadShift        \<comment> \<open>1 << -1\<close>
  | LogicError      \<comment> \<open>std::logic_error, e.g. std::string(NULL)\<close>
  | OtherException  \<comment> \<open>any other std::exception\<close>

definition and_then :: "'e + 'a \<Rightarrow> ('a \<Rightarrow> 'e + 'b) \<Rightarrow> 'e + 'b" where
  "and_then x f = (case x of Inl e \<Rightarrow> Inl e | Inr y \<Rightarrow> f y)"

lemma and_then_simps [simp]:
  "and_then (Inl e) f = Inl e"
  "and_then (Inr y) f = f y"
  by (simp_all add: and_then_def)

lemma and_then_eq_Inr:
  "and_then x f = Inr z \<longleftrightarrow> (\<exists>y. x = Inr y \<and> f y = Inr z)"
  by (cases x) auto

lemma and_then_eq_Inl:
  "and_then x f = Inl e \<longleftrightarrow> x = Inl e \<or> (\<exists>y. x = Inr y \<and> f y = Inl e)"
  by (cases x) auto

definition deref :: "'a option \<Rightarrow> fault + 'a" where
  "deref p = (case p of None \<Rightarrow> Inl NullDeref | Some x \<Rightarrow> Inr x)"

lemma deref_simps [simp]: "deref (Some x) = Inr x" "deref None = Inl NullDeref"
  by (simp_all add: deref_def)

text \<open>A triple for computations that may fault: what faults and what results are possible.\<close>

definition yields :: "('e \<Rightarrow> bool) \<Rightarrow> ('a \<Rightarrow> bool) \<Rightarrow> 'e + 'a \<Rightarrow> bool" where
  "yields E P x = (case x of Inl e \<Rightarrow> E e | Inr y \<Rightarrow> P y)"

lemma yields_bind:
  "yields E P x \<Longrightarrow> (\<And>y. P y \<Longrightarrow> yields E Q (f y)) \<Longrightarrow> yields E Q (and_then x f)"
  by (cases x) (simp_all add: yields_def)

lemma yieldsI:
  "(\<And>e. x = Inl e \<Longrightarrow> E e) \<Longrightarrow> (\<And>y. x = Inr y \<Longrightarrow> P y) \<Longrightarrow> yields E P x"
  by (cases x) (simp_all add: yields_def)

text \<open>What a computation gives if it does not fault.\<close>

definition gives :: "('a \<Rightarrow> bool) \<Rightarrow> 'e + 'a \<Rightarrow> bool" where
  "gives P x = yields (\<lambda>_. True) P x"

lemma gives_simps [simp]: "gives P (Inl e)" "gives P (Inr y) \<longleftrightarrow> P y"
  by (simp_all add: gives_def yields_def)

lemma givesD: "gives P x \<Longrightarrow> x = Inr y \<Longrightarrow> P y"
  by simp

lemma gives_bind:
  "gives P x \<Longrightarrow> (\<And>y. P y \<Longrightarrow> gives Q (f y)) \<Longrightarrow> gives Q (and_then x f)"
  unfolding gives_def by (rule yields_bind)

lemma gives_if: "(b \<Longrightarrow> gives P x) \<Longrightarrow> (\<not> b \<Longrightarrow> gives P y) \<Longrightarrow> gives P (if b then x else y)"
  by simp

lemma gives_any: "gives (\<lambda>_. True) x"
  by (cases x) simp_all

section \<open>Fixed-width conversions\<close>

definition i32 :: "int \<Rightarrow> int" where
  "i32 x = (x + 2 ^ 31) mod 2 ^ 32 - 2 ^ 31"

definition u64 :: "int \<Rightarrow> int" where
  "u64 x = x mod 2 ^ 64"

definition in_i32 :: "int \<Rightarrow> bool" where
  "in_i32 x \<longleftrightarrow> - (2 ^ 31) \<le> x \<and> x < 2 ^ 31"

lemma i32_id [wrap_simps]: "in_i32 x \<Longrightarrow> i32 x = x"
  by (simp add: i32_def in_i32_def)

lemma i32_idem [simp]: "i32 (i32 x) = i32 x"
  by (simp add: i32_def)

lemma in_i32_i32 [simp]: "in_i32 (i32 x)"
proof -
  have "0 \<le> (x + 2 ^ 31) mod 2 ^ 32" "(x + 2 ^ 31) mod 2 ^ 32 < (2 ^ 32 :: int)"
    by simp_all
  then show ?thesis by (simp add: i32_def in_i32_def)
qed

lemma i32_nonneg [wrap_simps]: "0 \<le> x \<Longrightarrow> x < 2 ^ 31 \<Longrightarrow> i32 x = x"
  by (simp add: i32_id in_i32_def)

lemma i32_add_i32 [simp]: "i32 (i32 x + y) = i32 (x + y)"
proof -
  have "i32 x + y + 2 ^ 31 = (x + 2 ^ 31) mod 2 ^ 32 + y"
    by (simp add: i32_def)
  then have "(i32 x + y + 2 ^ 31) mod 2 ^ 32 = ((x + 2 ^ 31) mod 2 ^ 32 + y) mod (2 ^ 32 :: int)"
    by (rule arg_cong)
  also have "\<dots> = (x + 2 ^ 31 + y) mod 2 ^ 32"
    by (rule mod_add_left_eq)
  also have "x + 2 ^ 31 + y = x + y + 2 ^ 31"
    by simp
  finally show ?thesis
    by (simp only: i32_def [of "i32 x + y"] i32_def [of "x + y"])
qed

lemma u64_nonneg [wrap_simps]: "0 \<le> x \<Longrightarrow> x < 2 ^ 64 \<Longrightarrow> u64 x = x"
  by (simp add: u64_def)

section \<open>std::string\<close>

definition CRLF :: string where
  "CRLF = [CHR 0x0D, CHR 0x0A]"

lemma length_CRLF [simp]: "length CRLF = 2"
  by (simp add: CRLF_def)

definition NUL :: char where
  "NUL = CHR 0x00"

text \<open>The C string seen through \<open>c_str()\<close>: everything before the first NUL byte.\<close>

definition c_str :: "string \<Rightarrow> string" where
  "c_str s = takeWhile (\<lambda>c. c \<noteq> NUL) s"

lemma c_str_id [str_simps]: "NUL \<notin> set s \<Longrightarrow> c_str s = s"
  by (auto simp: c_str_def takeWhile_eq_all_conv)

text \<open>\<open>s[i]\<close>, defined for \<open>i <= size()\<close>: the byte at \<open>size()\<close> is NUL.\<close>

definition char_at :: "string \<Rightarrow> nat \<Rightarrow> char" where
  "char_at s i = (if i < length s then s ! i else NUL)"

fun starts_with :: "string \<Rightarrow> string \<Rightarrow> bool" where
  "starts_with [] s = True"
| "starts_with (p # ps) [] = False"
| "starts_with (p # ps) (c # cs) = (p = c \<and> starts_with ps cs)"

lemma starts_with_iff: "starts_with p s \<longleftrightarrow> (\<exists>t. s = p @ t)"
  by (induction p s rule: starts_with.induct) auto

lemma starts_with_append [simp]: "starts_with p (p @ s)"
  by (auto simp: starts_with_iff)

lemma starts_with_length: "starts_with p s \<Longrightarrow> length p \<le> length s"
  by (auto simp: starts_with_iff)

text \<open>\<open>s.find(needle)\<close> and \<open>s.find(needle, pos)\<close>.\<close>

fun find_sub :: "string \<Rightarrow> string \<Rightarrow> nat option" where
  "find_sub n [] = (if n = [] then Some 0 else None)"
| "find_sub n (c # cs) =
     (if starts_with n (c # cs) then Some 0 else map_option Suc (find_sub n cs))"

definition find_from :: "string \<Rightarrow> string \<Rightarrow> nat \<Rightarrow> nat option" where
  "find_from n s pos =
     (if pos \<le> length s then map_option ((+) pos) (find_sub n (drop pos s)) else None)"

text \<open>\<open>s.rfind(needle)\<close>.\<close>

fun rfind_sub :: "string \<Rightarrow> string \<Rightarrow> nat option" where
  "rfind_sub n [] = (if n = [] then Some 0 else None)"
| "rfind_sub n (c # cs) =
     (case rfind_sub n cs of
        Some i \<Rightarrow> Some (Suc i)
      | None \<Rightarrow> if starts_with n (c # cs) then Some 0 else None)"

text \<open>\<open>s.substr(pos)\<close> throws when \<open>pos > size()\<close>.\<close>

definition substr_from :: "string \<Rightarrow> nat \<Rightarrow> fault + string" where
  "substr_from s pos = (if pos \<le> length s then Inr (drop pos s) else Inl OutOfRange)"

lemma find_sub_Some:
  "find_sub n s = Some i \<Longrightarrow> \<exists>a b. s = a @ n @ b \<and> length a = i"
proof (induction n s arbitrary: i rule: find_sub.induct)
  case (1 n)
  then show ?case by (auto split: if_splits)
next
  case (2 n c cs)
  show ?case
  proof (cases "starts_with n (c # cs)")
    case True
    with "2.prems" show ?thesis by (auto simp: starts_with_iff)
  next
    case False
    with "2.prems" obtain j where j: "find_sub n cs = Some j" and i: "i = Suc j"
      by auto
    from "2.IH" [OF False j] obtain a b where "cs = a @ n @ b" "length a = j"
      by blast
    then have "c # cs = (c # a) @ n @ b \<and> length (c # a) = i"
      by (simp add: i)
    then show ?thesis by blast
  qed
qed

lemma find_sub_bound: "find_sub n s = Some i \<Longrightarrow> i + length n \<le> length s"
  by (auto dest: find_sub_Some)

lemma find_sub_None: "find_sub n s = None \<longleftrightarrow> (\<nexists>a b. s = a @ n @ b)"
proof (induction n s rule: find_sub.induct)
  case (1 n)
  then show ?case by auto
next
  case (2 n c cs)
  show ?case
  proof (cases "starts_with n (c # cs)")
    case True
    then have "\<exists>a b. c # cs = a @ n @ b"
      by (metis append_Nil starts_with_iff)
    with True show ?thesis by simp
  next
    case False
    then have "(\<exists>a b. c # cs = a @ n @ b) \<longleftrightarrow> (\<exists>a b. cs = a @ n @ b)"
      by (metis append_Cons append_Nil list.sel(3) neq_Nil_conv starts_with_iff)
    with False "2.IH" show ?thesis by simp
  qed
qed

text \<open>The found position is the first one.\<close>

lemma find_sub_first:
  "find_sub n s = Some i \<Longrightarrow> s = a @ n @ b \<Longrightarrow> i \<le> length a"
proof (induction n s arbitrary: i a rule: find_sub.induct)
  case (1 n)
  then show ?case by (auto split: if_splits)
next
  case (2 n c cs)
  show ?case
  proof (cases "starts_with n (c # cs)")
    case True
    with "2.prems"(1) have "i = 0" by simp
    then show ?thesis by simp
  next
    case False
    with "2.prems"(1) obtain j where j: "find_sub n cs = Some j" and i: "i = Suc j"
      by auto
    from False "2.prems"(2) obtain x xs where a: "a = x # xs"
      by (cases a) (auto simp: starts_with_iff)
    with "2.prems"(2) have "cs = xs @ n @ b" by simp
    from "2.IH" [OF False j this] show ?thesis by (simp add: i a)
  qed
qed

text \<open>What is found stays found when more bytes follow.\<close>

lemma find_sub_append: "find_sub n s = Some i \<Longrightarrow> find_sub n (s @ t) = Some i"
proof (induction n s arbitrary: i rule: find_sub.induct)
  case (1 n)
  then show ?case by (cases t) (auto split: if_splits)
next
  case (2 n c cs)
  show ?case
  proof (cases "starts_with n (c # cs)")
    case True
    then have "starts_with n ((c # cs) @ t)" by (metis append.assoc starts_with_iff)
    with True "2.prems" show ?thesis by simp
  next
    case False
    with "2.prems" obtain j where j: "find_sub n cs = Some j" and i: "i = Suc j" by auto
    have "\<not> starts_with n (c # cs @ t)"
    proof
      assume "starts_with n (c # cs @ t)"
      then have "take (length n) ((c # cs) @ t) = n" by (auto simp: starts_with_iff)
      moreover have "length n \<le> length (c # cs)" using find_sub_bound [OF j] by simp
      ultimately have "c # cs = n @ drop (length n) (c # cs)"
        by (metis append_take_drop_id append_eq_append_conv_if take_append diff_is_0_eq
            append_Nil2 take_0)
      with False show False by (metis starts_with_iff)
    qed
    with "2.IH" [OF False j] show ?thesis by (simp add: i)
  qed
qed

text \<open>A needle whose first byte does not occur before it is found where it stands.\<close>

lemma find_sub_here:
  "c \<notin> set l \<Longrightarrow> find_sub (c # n) (l @ c # n @ t) = Some (length l)"
proof (induction l)
  case Nil
  have "starts_with n (n @ t)" by simp
  then show ?case by simp
qed auto

lemma rfind_sub_Some:
  "rfind_sub n s = Some i \<Longrightarrow> \<exists>a b. s = a @ n @ b \<and> length a = i"
proof (induction n s arbitrary: i rule: rfind_sub.induct)
  case (1 n)
  then show ?case by (auto split: if_splits)
next
  case (2 n c cs)
  show ?case
  proof (cases "rfind_sub n cs")
    case None
    with "2.prems" show ?thesis
      by (auto simp: starts_with_iff split: if_splits)
  next
    case (Some j)
    with "2.IH" [OF Some] obtain a b where "cs = a @ n @ b" "length a = j" by blast
    with Some "2.prems" have "c # cs = (c # a) @ n @ b \<and> length (c # a) = i" by simp
    then show ?thesis by blast
  qed
qed

lemma rfind_sub_bound: "rfind_sub n s = Some i \<Longrightarrow> i + length n \<le> length s"
  by (auto dest: rfind_sub_Some)

lemma takeWhile_all [simp]: "\<forall>c \<in> set s. P c \<Longrightarrow> takeWhile P s = s"
  by (simp add: takeWhile_eq_all_conv)

section \<open>ASCII classes (C locale)\<close>

definition char_code :: "char \<Rightarrow> nat" where
  "char_code c = of_char c"

definition isalpha :: "char \<Rightarrow> bool" where
  "isalpha c = (let n = char_code c in (65 \<le> n \<and> n \<le> 90) \<or> (97 \<le> n \<and> n \<le> 122))"

definition isspace :: "char \<Rightarrow> bool" where
  "isspace c = (let n = char_code c in n = 32 \<or> (9 \<le> n \<and> n \<le> 13))"

text \<open>The space and horizontal tab the request parser skips.\<close>

definition isblank :: "char \<Rightarrow> bool" where
  "isblank c = (c = CHR 0x20 \<or> c = CHR 0x09)"

end
