(* ===== verification/Std_Map.thy ===== *)
theory Std_Map
  imports Prelude
begin

text \<open>
  \<open>std::map\<close> as an association list kept ordered by the comparator, with the members the
  sources use: \<open>find\<close>, \<open>operator[]\<close> (assignment), \<open>erase\<close>, \<open>insert\<close>.
  As in the library, two keys are the same when neither is less than the other, and
  assigning to a present key keeps the spelling the key was first inserted with.

  The interface the clients need is the locale \<open>strict_weak\<close>: a comparator that is a
  strict weak order. Its lemmas (lookup after assignment, after erasure, after insertion;
  preservation of the order) are proved once and interpreted for \<open>std::less\<close> on strings,
  for \<open>i_less\<close>, the case-insensitive comparator of includes/Request.hpp, and for \<open>int\<close>.
\<close>

section \<open>The container\<close>

type_synonym ('k, 'v) std_map = "('k \<times> 'v) list"

definition same_key :: "('k \<Rightarrow> 'k \<Rightarrow> bool) \<Rightarrow> 'k \<Rightarrow> 'k \<Rightarrow> bool" where
  "same_key lt x y \<longleftrightarrow> \<not> lt x y \<and> \<not> lt y x"

fun map_find :: "('k \<Rightarrow> 'k \<Rightarrow> bool) \<Rightarrow> 'k \<Rightarrow> ('k, 'v) std_map \<Rightarrow> 'v option" where
  "map_find lt k [] = None"
| "map_find lt k ((k', v) # m) =
     (if lt k' k then map_find lt k m else if lt k k' then None else Some v)"

text \<open>\<open>m[k] = v\<close>\<close>

fun map_set :: "('k \<Rightarrow> 'k \<Rightarrow> bool) \<Rightarrow> 'k \<Rightarrow> 'v \<Rightarrow> ('k, 'v) std_map \<Rightarrow> ('k, 'v) std_map" where
  "map_set lt k v [] = [(k, v)]"
| "map_set lt k v ((k', v') # m) =
     (if lt k' k then (k', v') # map_set lt k v m
      else if lt k k' then (k, v) # (k', v') # m
      else (k', v) # m)"

text \<open>\<open>m.insert(make_pair(k, v))\<close>: a present key keeps its value.\<close>

fun map_insert :: "('k \<Rightarrow> 'k \<Rightarrow> bool) \<Rightarrow> 'k \<Rightarrow> 'v \<Rightarrow> ('k, 'v) std_map \<Rightarrow> ('k, 'v) std_map" where
  "map_insert lt k v [] = [(k, v)]"
| "map_insert lt k v ((k', v') # m) =
     (if lt k' k then (k', v') # map_insert lt k v m
      else if lt k k' then (k, v) # (k', v') # m
      else (k', v') # m)"

fun map_erase :: "('k \<Rightarrow> 'k \<Rightarrow> bool) \<Rightarrow> 'k \<Rightarrow> ('k, 'v) std_map \<Rightarrow> ('k, 'v) std_map" where
  "map_erase lt k [] = []"
| "map_erase lt k ((k', v') # m) =
     (if lt k' k then (k', v') # map_erase lt k m
      else if lt k k' then (k', v') # m
      else m)"

text \<open>Reading through \<open>m[k]\<close>: an absent key yields the default value.\<close>

definition map_at :: "('k \<Rightarrow> 'k \<Rightarrow> bool) \<Rightarrow> 'v \<Rightarrow> 'k \<Rightarrow> ('k, 'v) std_map \<Rightarrow> 'v" where
  "map_at lt d k m = (case map_find lt k m of None \<Rightarrow> d | Some v \<Rightarrow> v)"

definition map_ordered :: "('k \<Rightarrow> 'k \<Rightarrow> bool) \<Rightarrow> ('k, 'v) std_map \<Rightarrow> bool" where
  "map_ordered lt m = sorted_wrt (\<lambda>x y. lt (fst x) (fst y)) m"

text \<open>Where an entry is taken out, and where a new one goes.\<close>

lemma map_erase_split:
  "map_find lt k m = Some v \<Longrightarrow> \<exists>xs k' ys. m = xs @ (k', v) # ys \<and> map_erase lt k m = xs @ ys"
proof (induction lt k m rule: map_find.induct)
  case (2 lt k k' v' m)
  show ?case
  proof (cases "lt k' k")
    case True
    with 2 obtain xs k2 ys where "m = xs @ (k2, v) # ys" "map_erase lt k m = xs @ ys" by auto
    with True show ?thesis by (intro exI [of _ "(k', v') # xs"]) auto
  next
    case False
    with 2(2) show ?thesis by (intro exI [of _ "[]"]) (auto split: if_splits)
  qed
qed simp

lemma map_set_split:
  "map_find lt k m = None \<Longrightarrow> \<exists>xs ys. m = xs @ ys \<and> map_set lt k v m = xs @ (k, v) # ys"
proof (induction lt k m rule: map_find.induct)
  case (2 lt k k' v' m)
  show ?case
  proof (cases "lt k' k")
    case True
    with 2 obtain xs ys where "m = xs @ ys" "map_set lt k v m = xs @ (k, v) # ys" by auto
    with True show ?thesis by (intro exI [of _ "(k', v') # xs"] exI [of _ ys]) auto
  next
    case False
    with 2(2) show ?thesis by (intro exI [of _ "[]"] exI [of _ "(k', v') # m"]) (auto split: if_splits)
  qed
qed simp

lemma map_erase_set:
  "map_find lt k m = None \<Longrightarrow> \<not> lt k k \<Longrightarrow> map_erase lt k (map_set lt k v m) = m"
  by (induction lt k m rule: map_find.induct) (auto split: if_splits)

lemma map_ordered_Nil [simp]: "map_ordered lt []"
  by (simp add: map_ordered_def)

lemma map_ordered_Cons:
  "map_ordered lt (p # m) \<longleftrightarrow> (\<forall>q \<in> set m. lt (fst p) (fst q)) \<and> map_ordered lt m"
  by (simp add: map_ordered_def)

section \<open>Strict weak orders\<close>

locale strict_weak =
  fixes lt :: "'k \<Rightarrow> 'k \<Rightarrow> bool"
  assumes irrefl: "\<not> lt x x"
    and trans: "lt x y \<Longrightarrow> lt y z \<Longrightarrow> lt x z"
    and incomp_trans: "same_key lt x y \<Longrightarrow> same_key lt y z \<Longrightarrow> same_key lt x z"
begin

lemma asym: "lt x y \<Longrightarrow> \<not> lt y x"
  using irrefl trans by blast

lemma same_refl: "same_key lt x x"
  by (simp add: same_key_def irrefl)

lemma same_sym: "same_key lt x y \<Longrightarrow> same_key lt y x"
  by (auto simp: same_key_def)

lemma less_same_left: "same_key lt x y \<Longrightarrow> lt x z = lt y z"
  by (metis (full_types) same_key_def incomp_trans trans irrefl)

lemma less_same_right: "same_key lt x y \<Longrightarrow> lt z x = lt z y"
  by (metis (full_types) same_key_def incomp_trans trans irrefl)

lemma find_same: "same_key lt k k' \<Longrightarrow> map_find lt k m = map_find lt k' m"
  by (induction m) (auto simp: less_same_left less_same_right)

lemma keys_set: "fst ` set (map_set lt k v m) \<subseteq> insert k (fst ` set m)"
  by (induction lt k v m rule: map_set.induct) auto

lemma keys_insert: "fst ` set (map_insert lt k v m) \<subseteq> insert k (fst ` set m)"
  by (induction lt k v m rule: map_insert.induct) auto

lemma keys_erase: "set (map_erase lt k m) \<subseteq> set m"
  by (induction lt k m rule: map_erase.induct) auto

lemma ordered_set: "map_ordered lt m \<Longrightarrow> map_ordered lt (map_set lt k v m)"
proof (induction m)
  case Nil
  then show ?case by (simp add: map_ordered_Cons)
next
  case (Cons p m)
  obtain k' v' where p: "p = (k', v')" by (cases p)
  from Cons have "map_ordered lt (map_set lt k v m)" by (simp add: map_ordered_Cons)
  moreover have "lt k' (fst q)" if "lt k' k" "q \<in> set (map_set lt k v m)" for q
    using that keys_set [of k v m] Cons.prems by (force simp: map_ordered_Cons p)
  ultimately show ?case
    using Cons.prems by (auto simp: map_ordered_Cons p intro: trans)
qed

lemma ordered_insert: "map_ordered lt m \<Longrightarrow> map_ordered lt (map_insert lt k v m)"
proof (induction m)
  case Nil
  then show ?case by (simp add: map_ordered_Cons)
next
  case (Cons p m)
  obtain k' v' where p: "p = (k', v')" by (cases p)
  from Cons have "map_ordered lt (map_insert lt k v m)" by (simp add: map_ordered_Cons)
  moreover have "lt k' (fst q)" if "lt k' k" "q \<in> set (map_insert lt k v m)" for q
    using that keys_insert [of k v m] Cons.prems by (force simp: map_ordered_Cons p)
  ultimately show ?case
    using Cons.prems by (auto simp: map_ordered_Cons p intro: trans)
qed

lemma ordered_erase: "map_ordered lt m \<Longrightarrow> map_ordered lt (map_erase lt k m)"
proof (induction m)
  case (Cons p m)
  then show ?case
    using keys_erase [of k m] by (cases p) (auto simp: map_ordered_Cons)
qed simp

lemma find_below: "\<forall>q \<in> set m. lt k (fst q) \<Longrightarrow> map_find lt k m = None"
  by (induction m) (auto dest: asym)

lemma find_set:
  assumes "map_ordered lt m"
  shows "map_find lt k' (map_set lt k v m) =
     (if same_key lt k k' then Some v else map_find lt k' m)"
  using assms
proof (induction m)
  case Nil
  then show ?case by (auto simp: same_key_def)
next
  case (Cons p m)
  obtain a b where p: "p = (a, b)" by (cases p)
  show ?case
    using Cons
    by (auto simp: p map_ordered_Cons same_key_def dest: trans asym)
      (metis same_key_def less_same_left less_same_right trans irrefl)+
qed

lemma find_erase:
  assumes "map_ordered lt m"
  shows "map_find lt k' (map_erase lt k m) =
     (if same_key lt k k' then None else map_find lt k' m)"
  using assms
proof (induction m)
  case Nil
  then show ?case by simp
next
  case (Cons p m)
  obtain a b where p: "p = (a, b)" by (cases p)
  have below: "map_find lt k' m = None" if "same_key lt a k'"
    using that Cons.prems by (intro find_below) (auto simp: p map_ordered_Cons less_same_left)
  have IH: "map_find lt k' (map_erase lt k m) =
      (if same_key lt k k' then None else map_find lt k' m)"
    using Cons by (simp add: map_ordered_Cons)
  consider "lt a k" | "lt k a" | "same_key lt a k"
    by (auto simp: same_key_def)
  then show ?case
  proof cases
    case 1
    then have "\<not> lt k' a" if "same_key lt k k'"
      using that less_same_right [of k k' a] asym by blast
    moreover have "lt a k'" if "same_key lt k k'"
      using that less_same_right [of k k' a] 1 by blast
    ultimately show ?thesis using 1 IH by (auto simp: p)
  next
    case 2
    then have "map_find lt k' (p # m) = None" if "same_key lt k k'"
      using that Cons.prems less_same_left [of k k'] trans [of k a]
      by (intro find_below) (auto simp: p map_ordered_Cons)
    then show ?thesis using 2 asym [of k a] by (auto simp: p)
  next
    case 3
    then have "same_key lt k k' \<longleftrightarrow> same_key lt a k'"
      using incomp_trans same_sym by blast
    moreover have "map_find lt k' m = None" if "lt k' a"
      using that Cons.prems trans [of k' a] by (intro find_below) (auto simp: p map_ordered_Cons)
    ultimately show ?thesis using 3 below by (auto simp: p same_key_def)
  qed
qed

lemma mem_find:
  "map_ordered lt m \<Longrightarrow> (k, v) \<in> set m \<Longrightarrow> map_find lt k m = Some v"
  by (induction m) (auto simp: map_ordered_Cons irrefl)

lemma insert_present: "map_find lt k m = Some w \<Longrightarrow> map_insert lt k v m = m"
  by (induction lt k m rule: map_find.induct) (auto split: if_splits)

lemma find_insert:
  assumes "map_ordered lt m"
  shows "map_find lt k' (map_insert lt k v m) =
     (if same_key lt k k' \<and> map_find lt k m = None then Some v else map_find lt k' m)"
proof (cases "map_find lt k m")
  case None
  then have "map_insert lt k v m = map_set lt k v m"
    by (induction lt k m rule: map_find.induct) (auto split: if_splits)
  with None show ?thesis by (simp add: find_set [OF assms])
next
  case (Some w)
  from insert_present [OF Some] Some show ?thesis by simp
qed

text \<open>Inserting what is there changes nothing.\<close>

lemma insert_all_present:
  "map_ordered lt m \<Longrightarrow> set xs \<subseteq> set m \<Longrightarrow> fold (\<lambda>(k, v) m. map_insert lt k v m) xs m = m"
proof (induction xs)
  case (Cons x xs)
  obtain k v where x: "x = (k, v)" by (cases x)
  have "map_find lt k m = Some v" using Cons.prems by (intro mem_find) (simp_all add: x)
  then have "map_insert lt k v m = m" by (rule insert_present)
  with Cons show ?case by (simp add: x)
qed simp

lemma set_present:
  "map_find lt k m = Some v \<Longrightarrow> map_set lt k v m = m"
  by (induction lt k m rule: map_find.induct) (auto split: if_splits)

lemma find_mem:
  "map_find lt k m = Some v \<Longrightarrow> \<exists>k'. same_key lt k' k \<and> (k', v) \<in> set m"
  by (induction lt k m rule: map_find.induct) (auto simp: same_key_def split: if_splits)

lemmas map_laws = find_set find_erase find_insert ordered_set ordered_insert ordered_erase

end

section \<open>std::less on strings\<close>

fun str_less :: "string \<Rightarrow> string \<Rightarrow> bool" where
  "str_less s [] = False"
| "str_less [] (b # bs) = True"
| "str_less (a # as) (b # bs) =
     (char_code a < char_code b \<or> (a = b \<and> str_less as bs))"

lemma char_code_inj: "char_code a = char_code b \<longleftrightarrow> a = b"
  by (simp add: char_code_def)

lemma str_less_irrefl: "\<not> str_less s s"
  by (induction s) auto

lemma str_less_trans: "str_less a b \<Longrightarrow> str_less b c \<Longrightarrow> str_less a c"
proof (induction a b arbitrary: c rule: str_less.induct)
  case (2 b bs)
  then show ?case by (cases c) auto
next
  case (3 a as b bs)
  then show ?case by (cases c) auto
qed simp

lemma str_less_total: "\<not> str_less a b \<Longrightarrow> \<not> str_less b a \<Longrightarrow> a = b"
proof (induction a b rule: str_less.induct)
  case (1 s)
  then show ?case by (cases s) auto
next
  case (3 a as b bs)
  then show ?case
    by (metis char_code_inj linorder_neqE_nat str_less.simps(3))
qed simp

lemma same_key_str: "same_key str_less a b \<longleftrightarrow> a = b"
  by (auto simp: same_key_def str_less_irrefl dest: str_less_total)

interpretation str_map: strict_weak str_less
  by unfold_locales (auto simp: str_less_irrefl same_key_str intro: str_less_trans)

interpretation int_map: strict_weak "(<) :: int \<Rightarrow> int \<Rightarrow> bool"
  by unfold_locales (auto simp: same_key_def)

section \<open>i_less: header names without case\<close>

definition lowercase :: "char \<Rightarrow> char" where
  "lowercase c = (if 65 \<le> char_code c \<and> char_code c \<le> 90
                  then char_of (char_code c + 32) else c)"

text \<open>
  \<open>i_less::stricmp\<close> walks two NUL-terminated strings; the arguments are the bytes before
  the terminator, so the end of a list is the terminator.
\<close>

fun stricmp :: "string \<Rightarrow> string \<Rightarrow> int" where
  "stricmp [] [] = 0"
| "stricmp [] (b # bs) = - int (char_code (lowercase b))"
| "stricmp (a # as) [] = int (char_code (lowercase a))"
| "stricmp (a # as) (b # bs) =
     (if lowercase a = lowercase b then stricmp as bs
      else int (char_code (lowercase a)) - int (char_code (lowercase b)))"

definition i_less :: "string \<Rightarrow> string \<Rightarrow> bool" where
  "i_less lhs rhs = (stricmp (c_str lhs) (c_str rhs) < 0)"

text \<open>What the comparator compares: the lower-cased bytes before the first NUL.\<close>

definition ikey :: "string \<Rightarrow> string" where
  "ikey s = map lowercase (c_str s)"

lemma char_code_lt: "char_code c < 256"
  by (simp add: char_code_def)

lemma char_code_pos: "c \<noteq> NUL \<Longrightarrow> 0 < char_code c"
proof (rule ccontr)
  assume "c \<noteq> NUL" "\<not> 0 < char_code c"
  then have "char_code c = char_code NUL"
    by (simp add: char_code_def NUL_def)
  with \<open>c \<noteq> NUL\<close> show False by (simp add: char_code_inj)
qed

lemma lowercase_NUL [simp]: "lowercase c = NUL \<longleftrightarrow> c = NUL"
proof
  assume l: "lowercase c = NUL"
  show "c = NUL"
  proof (cases "65 \<le> char_code c \<and> char_code c \<le> 90")
    case True
    with l have "char_code (char_of (char_code c + 32) :: char) = 0"
      by (simp add: lowercase_def char_code_def NUL_def)
    with True show ?thesis by (simp add: char_code_def)
  next
    case False
    with l show ?thesis by (simp add: lowercase_def)
  qed
qed (simp add: lowercase_def NUL_def char_code_def)

lemma stricmp_less:
  "NUL \<notin> set a \<Longrightarrow> NUL \<notin> set b \<Longrightarrow>
   stricmp a b < 0 \<longleftrightarrow> str_less (map lowercase a) (map lowercase b)"
proof (induction a b rule: stricmp.induct)
  case (2 b bs)
  then show ?case by (auto intro!: char_code_pos)
qed (auto simp: char_code_inj)

lemma NUL_c_str [simp]: "NUL \<notin> set (c_str s)"
  by (auto simp: c_str_def dest: set_takeWhileD)

lemma i_less_ikey: "i_less a b \<longleftrightarrow> str_less (ikey a) (ikey b)"
  by (simp add: i_less_def ikey_def stricmp_less)

lemma same_key_i_less: "same_key i_less a b \<longleftrightarrow> ikey a = ikey b"
  by (simp add: same_key_def i_less_ikey same_key_str [unfolded same_key_def])

interpretation hdr_map: strict_weak i_less
  by unfold_locales
    (auto simp: i_less_ikey str_less_irrefl same_key_i_less intro: str_less_trans)

type_synonym header_map = "(string, string) std_map"

lemmas hdr_laws [simp] = hdr_map.ordered_set hdr_map.ordered_erase hdr_map.ordered_insert

text \<open>Lookup is by caseless name, and a header set under one spelling is found under any.\<close>

lemma find_header_set:
  "map_ordered i_less m \<Longrightarrow>
   map_find i_less k' (map_set i_less k v m) =
     (if ikey k = ikey k' then Some v else map_find i_less k' m)"
  by (simp add: hdr_map.find_set same_key_i_less)

lemma find_header_erase:
  "map_ordered i_less m \<Longrightarrow>
   map_find i_less k' (map_erase i_less k m) =
     (if ikey k = ikey k' then None else map_find i_less k' m)"
  by (simp add: hdr_map.find_erase same_key_i_less)

end
