(* ===== verification/Types.thy ===== *)
theory Types
  imports Std_Map
begin

text \<open>
  The data of includes/Request.hpp, of the configuration records of includes/Host.hpp and of
  the status macros of includes/Response.hpp, with their constructors' initial values, and
  the output file stream a request body is written to.

  Anonymous C++ enums become datatypes. One of them is used as an \<open>int\<close> across two
  enumerations: \<open>_final_status\<close> is initialised with \<open>ONGOING\<close>, which is the value of
  \<open>HOST\<close>. (\<open>PTERM\<close> is the source's \<open>TERM\<close>, a keyword of the logic.) Its comparison \<open>> TRAILER\<close> is the order of the constructors.
\<close>

section \<open>Enumerations and macros\<close>

datatype http_method = GET | POST | PUT | DELETE | HEAD

datatype parse_status = PTERM | ONGOING | RLINE | NEW

datatype final_status = HEADER | HOST | BODY | TRAILER | CONT | COMPLETE | ERROR

datatype req_type = REQ_TYPE_NO_MATCH | REQ_TYPE_CGI | REQ_TYPE_STATIC | REQ_TYPE_DIR

datatype cgi_res =
    CGI_RES_ERROR | CGI_RES_NONE | CGI_RES_DOC | CGI_RES_LOCAL_REDIRECT | CGI_RES_CLIENT_REDIRECT

fun final_rank :: "final_status \<Rightarrow> nat" where
  "final_rank HEADER = 0"
| "final_rank HOST = 1"
| "final_rank BODY = 2"
| "final_rank TRAILER = 3"
| "final_rank CONT = 4"
| "final_rank COMPLETE = 5"
| "final_rank ERROR = 6"

lemma final_rank_inj: "final_rank x = final_rank y \<longleftrightarrow> x = y"
  by (cases x; cases y) simp_all

instantiation final_status :: linorder
begin

definition less_eq_final_status :: "final_status \<Rightarrow> final_status \<Rightarrow> bool" where
  "less_eq_final_status x y = (final_rank x \<le> final_rank y)"

definition less_final_status :: "final_status \<Rightarrow> final_status \<Rightarrow> bool" where
  "less_final_status x y = (final_rank x < final_rank y)"

instance
  by standard
    (auto simp: less_eq_final_status_def less_final_status_def final_rank_inj)

end

definition BUFFER_SIZE :: nat where "BUFFER_SIZE = 4000"
definition HEADER_MAX_BUFFER :: nat where "HEADER_MAX_BUFFER = 4"

definition RES_CONTINUE :: int where "RES_CONTINUE = 100"
definition RES_OK :: int where "RES_OK = 200"
definition RES_CREATED :: int where "RES_CREATED = 201"
definition RES_NO_CONTENT :: int where "RES_NO_CONTENT = 204"
definition RES_MULTIPLE_CHOICE :: int where "RES_MULTIPLE_CHOICE = 300"
definition RES_MOVED_PERMANENTLY :: int where "RES_MOVED_PERMANENTLY = 301"
definition RES_FOUND :: int where "RES_FOUND = 302"
definition RES_SEE_OTHER :: int where "RES_SEE_OTHER = 303"
definition RES_TEMPORARY_REDIRECT :: int where "RES_TEMPORARY_REDIRECT = 307"
definition RES_PERMANENT_REDIRECT :: int where "RES_PERMANENT_REDIRECT = 308"
definition RES_BAD_REQUEST :: int where "RES_BAD_REQUEST = 400"
definition RES_FORBIDDEN :: int where "RES_FORBIDDEN = 403"
definition RES_NOT_FOUND :: int where "RES_NOT_FOUND = 404"
definition RES_METHOD_NOT_ALLOWED :: int where "RES_METHOD_NOT_ALLOWED = 405"
definition RES_REQUEST_ENTITY_TOO_LARGE :: int where "RES_REQUEST_ENTITY_TOO_LARGE = 413"
definition RES_UNSUPPORTED_MEDIA_TYPE :: int where "RES_UNSUPPORTED_MEDIA_TYPE = 415"
definition RES_EXPECTATION_FAILED :: int where "RES_EXPECTATION_FAILED = 417"
definition RES_INTERNAL_ERROR :: int where "RES_INTERNAL_ERROR = 500"
definition RES_NOT_IMPLEMENTED :: int where "RES_NOT_IMPLEMENTED = 501"
definition RES_SERVICE_UNAVAILABLE :: int where "RES_SERVICE_UNAVAILABLE = 503"
definition RES_HTTP_VERSION_NOT_SUPPORTED :: int where "RES_HTTP_VERSION_NOT_SUPPORTED = 505"

lemmas res_defs = RES_CONTINUE_def RES_OK_def RES_CREATED_def RES_NO_CONTENT_def
  RES_MULTIPLE_CHOICE_def RES_MOVED_PERMANENTLY_def RES_FOUND_def RES_SEE_OTHER_def
  RES_TEMPORARY_REDIRECT_def RES_PERMANENT_REDIRECT_def RES_BAD_REQUEST_def
  RES_FORBIDDEN_def RES_NOT_FOUND_def RES_METHOD_NOT_ALLOWED_def
  RES_REQUEST_ENTITY_TOO_LARGE_def RES_UNSUPPORTED_MEDIA_TYPE_def
  RES_EXPECTATION_FAILED_def RES_INTERNAL_ERROR_def RES_NOT_IMPLEMENTED_def
  RES_SERVICE_UNAVAILABLE_def RES_HTTP_VERSION_NOT_SUPPORTED_def

text \<open>The index of a method in \<open>METHOD_STR\<close>, and the bit tests \<open>methods & (1 << method)\<close>.\<close>

fun method_index :: "http_method \<Rightarrow> nat" where
  "method_index GET = 0"
| "method_index POST = 1"
| "method_index PUT = 2"
| "method_index DELETE = 3"
| "method_index HEAD = 4"

fun METHOD_STR :: "http_method \<Rightarrow> string" where
  "METHOD_STR GET = ''GET''"
| "METHOD_STR POST = ''POST''"
| "METHOD_STR PUT = ''PUT''"
| "METHOD_STR DELETE = ''DELETE''"
| "METHOD_STR HEAD = ''HEAD''"

definition all_methods :: "http_method list" where
  "all_methods = [GET, POST, PUT, DELETE, HEAD]"

definition method_allowed :: "int \<Rightarrow> http_method \<Rightarrow> bool" where
  "method_allowed methods m = bit methods (method_index m)"

text \<open>\<open>getMethodIndex\<close>: \<open>None\<close> stands for -1.\<close>

definition getMethodIndex :: "string \<Rightarrow> http_method option" where
  "getMethodIndex method = List.find (\<lambda>m. METHOD_STR m = method) all_methods"

section \<open>Configuration records\<close>

record Location =
  l_root :: string
  l_methods :: int
  l_dir_listing :: bool
  l_default_uri :: string
  l_upload :: bool
  l_upload_root :: string
  l_redir :: int
  l_addr_redir :: "string list"

text \<open>\<open>DFT_VALUE_METHOD\<close> is \<open>(1 << GET) | (1 << HEAD)\<close>.\<close>

definition new_Location :: Location where
  "new_Location =
     \<lparr> l_root = [], l_methods = 17, l_dir_listing = False, l_default_uri = [],
       l_upload = False, l_upload_root = [], l_redir = 0, l_addr_redir = [] \<rparr>"

record CGIConfig =
  c_exec :: string
  c_root :: string
  c_methods :: int
  c_extension :: string

text \<open>The constructor initialises \<open>methods\<close> with \<open>GET\<close>, that is 0, not with \<open>1 << GET\<close>.\<close>

definition new_CGIConfig :: CGIConfig where
  "new_CGIConfig = \<lparr> c_exec = [], c_root = [], c_methods = 0, c_extension = [] \<rparr>"

section \<open>Requests\<close>

record URI =
  u_filename :: string
  u_path :: string
  u_root :: string
  u_pathInfo :: string
  u_extension :: string
  u_query :: string

definition new_URI :: URI where
  "new_URI = \<lparr> u_filename = [], u_path = [], u_root = [], u_pathInfo = [],
               u_extension = [], u_query = [] \<rparr>"

text \<open>
  Pointers to configuration records, which no request changes, are options over their
  values. \<open>redirList\<close> is not initialised by the constructor; reading it before it is set is
  modelled as a fault through \<open>None\<close>.
\<close>

record ResHints =
  h_parsedUri :: URI
  h_path :: string
  h_extension :: string
  h_scriptPath :: string
  h_bodyFileName :: string
  h_alreadyExist :: bool
  h_unlink :: bool
  h_hasBody :: bool
  h_verboseError :: string
  h_status :: int
  h_type :: req_type
  h_cgiRedir :: cgi_res
  h_index :: int
  h_method :: "http_method option"
  h_locationRules :: "Location option"
  h_cgiRules :: "CGIConfig option"
  h_redirList :: "string list option"
  h_headers :: header_map
  h_cookies :: "string list"

definition new_ResHints :: ResHints where
  "new_ResHints =
     \<lparr> h_parsedUri = new_URI, h_path = [], h_extension = [], h_scriptPath = [],
       h_bodyFileName = [], h_alreadyExist = False, h_unlink = False, h_hasBody = False,
       h_verboseError = [], h_status = 0, h_type = REQ_TYPE_NO_MATCH,
       h_cgiRedir = CGI_RES_NONE, h_index = 0, h_method = None, h_locationRules = None,
       h_cgiRules = None, h_redirList = None, h_headers = [], h_cookies = [] \<rparr>"

record Request =
  r_headers :: header_map
  r_formated_headers :: string
  r_uri :: string
  r_status :: parse_status
  r_header_size :: int
  r_line :: string
  r_hostname :: string
  r_body_max_size :: int
  r_len :: int
  r_content_length :: int
  r_chunked :: bool
  r_b_status :: parse_status
  r_chunked_body_size :: int
  r_chunked_status :: bool
  r_trailer_status :: parse_status
  r_trailer_size :: int
  r_final_status :: final_status
  r_type :: req_type
  r_method :: "http_method option"
  r_hints :: ResHints

definition new_Request :: Request where
  "new_Request =
     \<lparr> r_headers = [], r_formated_headers = [], r_uri = [], r_status = NEW,
       r_header_size = 0, r_line = [], r_hostname = [], r_body_max_size = 0, r_len = 0,
       r_content_length = -1, r_chunked = False, r_b_status = NEW,
       r_chunked_body_size = 0, r_chunked_status = False, r_trailer_status = PTERM,
       r_trailer_size = 0, r_final_status = HOST, r_type = REQ_TYPE_NO_MATCH,
       r_method = None, r_hints = new_ResHints \<rparr>"

abbreviation upd_hints :: "(ResHints \<Rightarrow> ResHints) \<Rightarrow> Request \<Rightarrow> Request" where
  "upd_hints f rq \<equiv> rq\<lparr>r_hints := f (r_hints rq)\<rparr>"

abbreviation set_status :: "int \<Rightarrow> Request \<Rightarrow> Request" where
  "set_status st rq \<equiv> upd_hints (\<lambda>h. h\<lparr>h_status := st\<rparr>) rq"

abbreviation set_uri_parts :: "URI \<Rightarrow> Request \<Rightarrow> Request" where
  "set_uri_parts u rq \<equiv> upd_hints (\<lambda>h. h\<lparr>h_parsedUri := u\<rparr>) rq"

abbreviation puri :: "Request \<Rightarrow> URI" where
  "puri rq \<equiv> h_parsedUri (r_hints rq)"

section \<open>Header access and errors\<close>

text \<open>An absent header reads as the empty string.\<close>

definition getHeader :: "Request \<Rightarrow> string \<Rightarrow> string" where
  "getHeader rq key = map_at i_less [] key (r_headers rq)"

definition checkHeader :: "Request \<Rightarrow> string \<Rightarrow> bool" where
  "checkHeader rq key = (map_find i_less key (r_headers rq) \<noteq> None)"

definition removeHeader :: "string \<Rightarrow> Request \<Rightarrow> Request" where
  "removeHeader key rq = rq\<lparr>r_headers := map_erase i_less key (r_headers rq)\<rparr>"

definition fillError :: "int \<Rightarrow> string \<Rightarrow> Request \<Rightarrow> int \<times> Request" where
  "fillError err verbose rq =
     (err, rq\<lparr>r_hints := (r_hints rq)\<lparr>h_status := err, h_verboseError := verbose\<rparr>,
              r_line := [], r_final_status := ERROR\<rparr>)"

definition getError :: "Request \<Rightarrow> int" where
  "getError rq = h_status (r_hints rq)"

text \<open>After \<open>_fillError\<close> the stored status is the returned one.\<close>

lemma fillError_getError: "fillError err v rq = (e, rq') \<Longrightarrow> getError rq' = e \<and> e = err"
  by (auto simp: fillError_def getError_def)

section \<open>Output file stream\<close>

text \<open>
  The part of \<open>std::ofstream\<close> the body parser uses, behind a pointer that may be null:
  a write on a closed stream has no effect.
\<close>

record ofstream =
  os_open :: bool
  os_data :: string

definition stream_write :: "string \<Rightarrow> ofstream option \<Rightarrow> ofstream option" where
  "stream_write s fs =
     map_option (\<lambda>f. if os_open f then f\<lparr>os_data := os_data f @ s\<rparr> else f) fs"

definition stream_close :: "ofstream option \<Rightarrow> ofstream option" where
  "stream_close fs = map_option (\<lambda>f. f\<lparr>os_open := False\<rparr>) fs"

end
