(* ===== verification/Format.thy ===== *)
theory Format
  imports Std_Map
begin

text \<open>
  srcs/format.cpp: reading and printing integers, caseless string equality, temporary file
  names. The wildcard matcher of the same file is in theory Wildcard.

  \<open>strtol\<close> is the standard library's, on the bytes of a C string; its result is the
  unbounded value with a flag for \<open>ERANGE\<close>, in which case the value is clamped to the
  64-bit range. The clock of \<open>generate_name\<close> is a parameter.
\<close>

section \<open>Integers\<close>

definition to_upper :: "char \<Rightarrow> char" where
  "to_upper c = (if 97 \<le> char_code c \<and> char_code c \<le> 122
                 then char_of (char_code c - 32) else c)"

definition deci :: string where
  "deci = ''0123456789''"

definition hexa :: string where
  "hexa = ''0123456789ABCDEF''"

definition digit_val :: "char \<Rightarrow> nat" where
  "digit_val c = (let n = char_code c in
     if 48 \<le> n \<and> n \<le> 57 then n - 48
     else if 65 \<le> n \<and> n \<le> 90 then n - 55
     else if 97 \<le> n \<and> n \<le> 122 then n - 87 else 36)"

definition digits_val :: "nat \<Rightarrow> string \<Rightarrow> nat" where
  "digits_val base ds = foldl (\<lambda>a c. a * base + digit_val c) 0 ds"

definition LONG_MAX :: int where "LONG_MAX = 2 ^ 63 - 1"
definition LONG_MIN :: int where "LONG_MIN = - (2 ^ 63)"

text \<open>
  \<open>strtol(p, NULL, base)\<close>: leading white space, an optional sign, the longest run of
  digits of the base. The caller has excluded the letter X, so a \<open>0x\<close> prefix cannot
  occur.
\<close>

definition strtol :: "string \<Rightarrow> nat \<Rightarrow> int \<times> bool" where
  "strtol p base =
     (let s = dropWhile isspace p;
          neg = (char_at s 0 = CHR ''-'');
          t = (if char_at s 0 = CHR ''-'' \<or> char_at s 0 = CHR ''+'' then tl s else s);
          ds = takeWhile (\<lambda>c. digit_val c < base) t;
          v = (if neg then - int (digits_val base ds) else int (digits_val base ds))
      in if LONG_MAX < v then (LONG_MAX, True)
         else if v < LONG_MIN then (LONG_MIN, True)
         else (v, False))"

text \<open>
  \<open>getInt(str, base, res)\<close>: the status (0 for success) and the new value of the reference
  parameter \<open>res\<close>, which is also written, truncated to \<open>int\<close>, when
  \<open>strtol\<close> reports \<open>ERANGE\<close>.
\<close>

definition getInt :: "string \<Rightarrow> nat \<Rightarrow> int \<Rightarrow> int \<times> int" where
  "getInt str0 base res =
     (let str = map to_upper str0;
          sbase = (if base = 10 then deci else if base = 16 then hexa else []);
          i0 = length (takeWhile isblank str);
          idx = (if char_at str i0 = CHR ''+'' \<or> char_at str i0 = CHR ''-''
                 then i0 + 1 else i0)
      in if idx = length str then (1, res)
         else if \<not> list_all (\<lambda>c. c \<in> set sbase) (drop idx str) then (1, res)
         else (case strtol (c_str str) base of (v, erange) \<Rightarrow>
                 (if erange then 1 else 0, i32 v)))"

text \<open>Printing through \<open>std::ostringstream\<close>.\<close>

definition digit_char :: "nat \<Rightarrow> char" where
  "digit_char d = (if d < 10 then char_of (48 + d) else char_of (87 + d))"

function digits :: "nat \<Rightarrow> nat \<Rightarrow> string" where
  "digits base n =
     (if base < 2 \<or> n < base then [digit_char n]
      else digits base (n div base) @ [digit_char (n mod base)])"
  by pat_completeness auto
termination
  by (relation "measure (\<lambda>(base, n). n)") (auto intro: div_less_dividend)

declare digits.simps [simp del]

definition itostr :: "int \<Rightarrow> string" where
  "itostr n = (if n < 0 then CHR ''-'' # digits 10 (nat (- n)) else digits 10 (nat n))"

text \<open>\<open>std::hex\<close> prints the 32-bit pattern of an \<open>int\<close>.\<close>

definition IntToString :: "int \<Rightarrow> nat \<Rightarrow> string" where
  "IntToString x base = (if base = 16 then digits 16 (nat (x mod 2 ^ 32)) else itostr x)"

section \<open>Caseless equality, file names\<close>

definition tolower :: "char \<Rightarrow> char" where
  "tolower c = lowercase c"

definition ichar_equals :: "char \<Rightarrow> char \<Rightarrow> bool" where
  "ichar_equals a b = (tolower a = tolower b)"

definition nocase_string_eq :: "string \<Rightarrow> string \<Rightarrow> bool" where
  "nocase_string_eq a b = (length a = length b \<and> list_all2 ichar_equals a b)"

text \<open>\<open>now\<close> stands for the microseconds \<open>gettimeofday\<close> reports.\<close>

definition generate_name :: "int \<Rightarrow> string option \<Rightarrow> string" where
  "generate_name now hostname =
     ''./tmp/'' @ (case hostname of None \<Rightarrow> [] | Some h \<Rightarrow> h) @ ''_'' @ itostr now"

section \<open>Reading back what is printed\<close>

lemma deci_facts:
  assumes "c \<in> set deci"
  shows "to_upper c = c" "\<not> isblank c" "\<not> isspace c" "c \<noteq> CHR ''+''" "c \<noteq> CHR ''-''"
    "c \<noteq> NUL" "digit_val c < 10"
  using assms
  by (auto simp: deci_def to_upper_def isblank_def isspace_def NUL_def digit_val_def
      char_code_def)

lemma char_at_0 [simp]: "char_at (c # cs) 0 = c"
  by (simp add: char_at_def)

lemma getInt_digits:
  assumes ds: "set ds \<subseteq> set deci" and ne: "ds \<noteq> []"
  shows "getInt ds 10 r =
    (if LONG_MAX < int (digits_val 10 ds) then (1, i32 LONG_MAX)
     else (0, i32 (int (digits_val 10 ds))))"
proof -
  obtain d ds' where dd: "ds = d # ds'" using ne by (cases ds) auto
  have "d \<in> set deci" using ds by (simp add: dd)
  note d = deci_facts [OF this]
  have up: "map to_upper ds = ds"
    using ds by (intro map_idI) (auto dest: deci_facts)
  have cs: "c_str ds = ds"
    using ds by (intro c_str_id) (auto dest: deci_facts)
  have tw: "takeWhile (\<lambda>c. digit_val c < 10) ds = ds"
    using ds by (auto simp: takeWhile_eq_all_conv dest: deci_facts)
  have la: "list_all (\<lambda>c. c \<in> set deci) ds"
    using ds by (auto simp: list_all_iff)
  have "strtol ds 10 =
      (if LONG_MAX < int (digits_val 10 ds) then (LONG_MAX, True)
       else (int (digits_val 10 ds), False))"
    using d tw unfolding dd by (simp add: strtol_def Let_def LONG_MIN_def)
  moreover have "takeWhile isblank ds = []" and "char_at ds 0 = d"
    using d by (simp_all add: dd)
  ultimately show ?thesis
    using d la ne by (simp add: getInt_def up cs)
qed

lemma getInt_neg_digits:
  assumes ds: "set ds \<subseteq> set deci" and ne: "ds \<noteq> []"
    and range: "int (digits_val 10 ds) \<le> 2 ^ 63"
  shows "getInt (CHR ''-'' # ds) 10 r = (0, i32 (- int (digits_val 10 ds)))"
proof -
  let ?s = "CHR ''-'' # ds"
  have up: "map to_upper ?s = ?s"
    using ds by (auto simp: to_upper_def char_code_def intro!: map_idI dest: deci_facts)
  have "NUL \<notin> set ds"
    using ds deci_facts by blast
  then have cs: "c_str ?s = ?s"
    by (intro c_str_id) (simp add: NUL_def)
  have tw: "takeWhile (\<lambda>c. digit_val c < 10) ds = ds"
    using ds by (auto simp: takeWhile_eq_all_conv dest: deci_facts)
  have la: "list_all (\<lambda>c. c \<in> set deci) ds"
    using ds by (auto simp: list_all_iff)
  have "strtol ?s 10 = (- int (digits_val 10 ds), False)"
    using range tw
    by (simp add: strtol_def Let_def LONG_MIN_def LONG_MAX_def isspace_def char_code_def)
  then show ?thesis
    using la ne up cs by (simp add: getInt_def Let_def isblank_def)
qed

lemma hexa_facts:
  assumes "c \<in> set hexa"
  shows "to_upper c = c" "\<not> isblank c" "\<not> isspace c" "c \<noteq> CHR ''+''" "c \<noteq> CHR ''-''"
    "c \<noteq> NUL" "digit_val c < 16"
  using assms
  by (auto simp: hexa_def to_upper_def isblank_def isspace_def NUL_def digit_val_def
      char_code_def)

text \<open>Two hexadecimal digits, as in a percent-encoded byte.\<close>

lemma getInt_hex_pair:
  assumes a: "a \<in> set hexa" and b: "b \<in> set hexa"
  shows "getInt [a, b] 16 r = (0, int (digit_val a * 16 + digit_val b))"
proof -
  note fa = hexa_facts [OF a] and fb = hexa_facts [OF b]
  have lt: "digit_val a * 16 + digit_val b < 2 ^ 31"
    using fa(7) fb(7) by simp
  have "strtol [a, b] 16 = (int (digit_val a * 16 + digit_val b), False)"
    using fa fb lt by (simp add: strtol_def Let_def digits_val_def LONG_MAX_def LONG_MIN_def)
  moreover have "c_str [a, b] = [a, b]"
    using fa fb by (simp add: c_str_def)
  moreover have "i32 (int (digit_val a * 16 + digit_val b)) = int (digit_val a * 16 + digit_val b)"
    using lt by (intro i32_nonneg) simp_all
  ultimately show ?thesis
    using fa fb a b by (simp add: getInt_def Let_def)
qed

lemma digit_val_hexa: "k < 16 \<Longrightarrow> hexa ! k \<in> set hexa \<and> digit_val (hexa ! k) = k"
proof -
  have "\<forall>k \<in> {0..<16}. hexa ! k \<in> set hexa \<and> digit_val (hexa ! k) = k"
    by (simp add: atLeastLessThan_nat_numeral hexa_def digit_val_def char_code_def)
  then show "k < 16 \<Longrightarrow> hexa ! k \<in> set hexa \<and> digit_val (hexa ! k) = k" by simp
qed

lemma lt_10_cases:
  "(d :: nat) < 10 \<longleftrightarrow>
     d = 0 \<or> d = 1 \<or> d = 2 \<or> d = 3 \<or> d = 4 \<or> d = 5 \<or> d = 6 \<or> d = 7 \<or> d = 8 \<or> d = 9"
  by arith

lemma digit_char_deci: "d < 10 \<Longrightarrow> digit_char d \<in> set deci"
  unfolding lt_10_cases
  by (elim disjE) (simp_all add: digit_char_def deci_def char_of_def bit_iff_odd)

lemma digit_val_digit_char: "d < 10 \<Longrightarrow> digit_val (digit_char d) = d"
  by (auto simp: digit_char_def digit_val_def char_code_def Let_def)

lemma digits_deci: "set (digits 10 n) \<subseteq> set deci"
proof (induction "10 :: nat" n rule: digits.induct)
  case (1 n)
  then show ?case
    by (subst digits.simps) (auto simp: digit_char_deci)
qed

lemma digits_ne [simp]: "digits base n \<noteq> []"
  by (subst digits.simps) simp

lemma digits_val_snoc: "digits_val b (ds @ [c]) = digits_val b ds * b + digit_val c"
  by (simp add: digits_val_def)

lemma digits_val_digits: "digits_val 10 (digits 10 n) = n"
proof (induction "10 :: nat" n rule: digits.induct)
  case (1 n)
  show ?case
  proof (cases "n < 10")
    case True
    then show ?thesis
      by (subst digits.simps) (simp add: digits_val_def digit_val_digit_char)
  next
    case False
    with 1 have "digits_val 10 (digits 10 (n div 10)) = n div 10" by simp
    with False show ?thesis
      by (subst digits.simps) (simp add: digits_val_snoc digit_val_digit_char)
  qed
qed

text \<open>
  \<open>getInt\<close> on a decimal numeral: every value below \<open>2^63\<close> is accepted, and
  what is stored is the value truncated to 32 bits (so 4294967297 is read as 1); from
  \<open>2^63\<close> on the call fails, after overwriting the result with -1.
\<close>

theorem getInt_decimal:
  "getInt (itostr (int n)) 10 r =
     (if n < 2 ^ 63 then (0, i32 (int n)) else (1, -1))"
proof -
  have "getInt (digits 10 n) 10 r =
      (if LONG_MAX < int n then (1, i32 LONG_MAX) else (0, i32 (int n)))"
    by (simp add: getInt_digits digits_deci digits_val_digits)
  moreover have "LONG_MAX < int n \<longleftrightarrow> \<not> n < 2 ^ 63"
    by (simp add: LONG_MAX_def not_less zle_diff1_eq [symmetric] del: zle_diff1_eq)
  moreover have "i32 LONG_MAX = -1"
    by (simp add: i32_def LONG_MAX_def)
  ultimately show ?thesis by (simp add: itostr_def)
qed

text \<open>
  Printing an \<open>int\<close> and reading it back is the identity on the whole 32-bit range,
  negative values included.
\<close>

theorem getInt_IntToString:
  assumes "in_i32 x"
  shows "getInt (IntToString x 10) 10 r = (0, x)"
proof (cases "x < 0")
  case True
  with assms have "int (digits_val 10 (digits 10 (nat (- x)))) \<le> 2 ^ 63"
    by (simp add: digits_val_digits in_i32_def)
  then have "getInt (CHR ''-'' # digits 10 (nat (- x))) 10 r = (0, i32 x)"
    using True by (simp add: getInt_neg_digits digits_deci digits_val_digits)
  with True assms show ?thesis
    by (simp add: IntToString_def itostr_def i32_id)
next
  case False
  have "\<not> LONG_MAX < x"
    using assms by (simp add: in_i32_def LONG_MAX_def)
  then have "getInt (digits 10 (nat x)) 10 r = (0, i32 x)"
    using False by (simp add: getInt_digits digits_deci digits_val_digits)
  with False assms show ?thesis
    by (simp add: IntToString_def itostr_def i32_id)
qed

theorem getInt_IntToString_witness:
  "getInt (IntToString (-2147483648) 10) 10 7 = (0, -2147483648)"
  by (rule getInt_IntToString) (simp add: in_i32_def)

section \<open>Hexadecimal numerals\<close>

lemma lt_16_cases:
  "(d :: nat) < 16 \<longleftrightarrow> d < 10 \<or> d = 10 \<or> d = 11 \<or> d = 12 \<or> d = 13 \<or> d = 14 \<or> d = 15"
  by arith

lemma upper_digit: "d < 16 \<Longrightarrow> to_upper (digit_char d) = hexa ! d"
  unfolding lt_16_cases lt_10_cases
  by (elim disjE)
    (simp_all add: digit_char_def hexa_def to_upper_def char_code_def char_of_def bit_iff_odd)

lemma digits_hexa: "set (map to_upper (digits 16 n)) \<subseteq> set hexa"
proof (induction "16 :: nat" n rule: digits.induct)
  case (1 n)
  have "to_upper (digit_char d) \<in> set hexa" if "d < 16" for d
    using that by (simp add: upper_digit digit_val_hexa)
  with 1 show ?case by (subst digits.simps) auto
qed

lemma hex_digits_val: "digits_val 16 (map to_upper (digits 16 n)) = n"
proof (induction "16 :: nat" n rule: digits.induct)
  case (1 n)
  have d: "digit_val (to_upper (digit_char d)) = d" if "d < 16" for d
    using that by (simp add: upper_digit digit_val_hexa)
  show ?case
  proof (cases "n < 16")
    case True
    then show ?thesis by (subst digits.simps) (simp add: digits_val_def d)
  next
    case False
    with 1 have "digits_val 16 (map to_upper (digits 16 (n div 16))) = n div 16" by simp
    with False show ?thesis by (subst digits.simps) (simp add: digits_val_snoc d)
  qed
qed

lemma getInt_hexa:
  assumes "set (map to_upper s) \<subseteq> set hexa" and "s \<noteq> []"
    and "digits_val 16 (map to_upper s) < 2 ^ 31"
  shows "getInt s 16 r = (0, int (digits_val 16 (map to_upper s)))"
proof -
  let ?t = "map to_upper s"
  obtain d t where dd: "?t = d # t" using assms(2) by (cases ?t) auto
  have "d \<in> set hexa" using assms(1) by (simp add: dd)
  note d = hexa_facts [OF this]
  have cs: "c_str ?t = ?t"
    using assms(1) by (intro c_str_id) (auto dest: hexa_facts)
  have tw: "takeWhile (\<lambda>c. digit_val c < 16) ?t = ?t"
    using assms(1) by (auto simp: takeWhile_eq_all_conv dest: hexa_facts)
  have la: "list_all (\<lambda>c. c \<in> set hexa) ?t"
    using assms(1) by (auto simp: list_all_iff)
  have "strtol ?t 16 = (int (digits_val 16 ?t), False)"
    using d tw assms(3) unfolding dd by (simp add: strtol_def Let_def LONG_MIN_def LONG_MAX_def)
  moreover have "takeWhile isblank ?t = []" and "char_at ?t 0 = d"
    using d by (simp_all add: dd)
  moreover have "i32 (int (digits_val 16 ?t)) = int (digits_val 16 ?t)"
    using assms(3) by (intro i32_nonneg) simp_all
  ultimately show ?thesis
    using d la assms(2) cs by (simp add: getInt_def)
qed

lemma getInt_chunk_size: "n < 2 ^ 31 \<Longrightarrow> getInt (digits 16 n) 16 r = (0, int n)"
  using getInt_hexa [of "digits 16 n" r] digits_hexa [of n] by (simp add: hex_digits_val)

end
