(* ===== verification/Feed.thy ===== *)
theory Feed
  imports Prelude
begin

text \<open>
  The contract of an incremental parser, as the client uses one: bytes arrive in pieces, each
  call gets what has arrived and either asks for more (status 0, everything consumed),
  finishes (a negative status, with the bytes it did not use) or fails (a positive status).
  A \<open>resumable\<close> parser does not depend on how the input was cut: stopping and resuming is
  the same as having had all bytes at once. The contract is interpreted for the header lines
  and for bodies of a given length.
\<close>

text \<open>Feeding pieces one after the other until the parser stops.\<close>

fun feed_all :: "('s \<Rightarrow> string \<Rightarrow> int \<times> 's \<times> string) \<Rightarrow> 's \<Rightarrow> string list \<Rightarrow> int \<times> 's \<times> string" where
  "feed_all feed s [] = (0, s, [])"
| "feed_all feed s (c # cs) =
     (case feed s c of (res, s', rest) \<Rightarrow>
        if res = 0 then feed_all feed s' cs else (res, s', rest @ concat cs))"

locale resumable =
  fixes feed :: "'s \<Rightarrow> string \<Rightarrow> int \<times> 's \<times> string"
    and ok :: "'s \<Rightarrow> bool"
  assumes keep: "ok s \<Longrightarrow> feed s a = (0, s', rest) \<Longrightarrow> ok s' \<and> rest = []"
    and resume: "ok s \<Longrightarrow> feed s a = (0, s', rest) \<Longrightarrow> b \<noteq> [] \<Longrightarrow> feed s (a @ b) = feed s' b"
    and finish: "ok s \<Longrightarrow> feed s a = (res, s', rest) \<Longrightarrow> res < 0 \<Longrightarrow>
      feed s (a @ b) = (res, s', rest @ b)"
begin

lemma feed_two:
  assumes "ok s" and "feed s a = (0, s', rest)" and "feed s' b = (res, s'', rest')" and "b \<noteq> []"
  shows "feed s (a @ b) = (res, s'', rest')"
  using resume [OF assms(1,2,4)] assms(3) by simp

text \<open>Pieces that are never rejected give what the concatenation gives.\<close>

lemma feed_all_concat:
  "ok s \<Longrightarrow> feed_all feed s (c # cs) = (res, s', rest) \<Longrightarrow> res \<le> 0 \<Longrightarrow> [] \<notin> set (c # cs) \<Longrightarrow>
   feed s (c @ concat cs) = (res, s', rest)"
proof (induction cs arbitrary: s c)
  case Nil
  obtain r t u where f: "feed s c = (r, t, u)" by (cases "feed s c") auto
  with Nil keep [of s c] show ?case by (auto split: if_splits)
next
  case (Cons d ds)
  obtain r t u where f: "feed s c = (r, t, u)" by (cases "feed s c") auto
  show ?case
  proof (cases "r = 0")
    case True
    with f keep Cons.prems(1) have "ok t" by blast
    moreover from Cons.prems(2) f True have "feed_all feed t (d # ds) = (res, s', rest)" by simp
    ultimately have "feed t (d @ concat ds) = (res, s', rest)" using Cons by simp
    moreover have "d @ concat ds \<noteq> []" using Cons.prems(4) by auto
    ultimately show ?thesis
      using f True feed_two [OF Cons.prems(1)] by fastforce
  next
    case False
    with Cons.prems f have "res = r" "s' = t" "rest = u @ concat (d # ds)" "r < 0" by auto
    with f finish [OF Cons.prems(1)] show ?thesis by simp
  qed
qed

end

text \<open>A parser that moreover rejects nothing.\<close>

locale resumable_total = resumable +
  assumes accepts: "ok s \<Longrightarrow> feed s a = (res, s', rest) \<Longrightarrow> res \<le> 0"
begin

lemma feed_all_accepts:
  "ok s \<Longrightarrow> feed_all feed s cs = (res, s', rest) \<Longrightarrow> res \<le> 0"
proof (induction cs arbitrary: s)
  case (Cons d ds)
  obtain r t u where f: "feed s d = (r, t, u)" by (cases "feed s d") auto
  with Cons keep [of s d t u] accepts [OF Cons.prems(1) f] show ?case
    by (auto split: if_splits)
qed simp

lemma feed_all_eq:
  assumes "ok s" and "cs \<noteq> []" and "[] \<notin> set cs"
  shows "feed_all feed s cs = feed s (concat cs)"
proof -
  obtain d ds where cs: "cs = d # ds" using assms(2) by (cases cs) auto
  obtain r t u where f: "feed_all feed s cs = (r, t, u)" by (cases "feed_all feed s cs") auto
  from feed_all_concat [OF assms(1) f [unfolded cs] feed_all_accepts [OF assms(1) f]] assms(3) f
  show ?thesis by (simp add: cs)
qed

end

end
