(* ===== verification/Request_Parser.thy ===== *)
theory Request_Parser
  imports Types Format Feed
begin

text \<open>
  The request line and header parser of srcs/Request.cpp: \<open>getLine\<close>, \<open>trimSpace\<close>,
  \<open>parseRequestLine\<close>, \<open>parseHeaders\<close>, the size checks and the printing of headers.
  The parser is fed the client's buffer; it returns its status, the updated request and what
  it left in the buffer. Statuses: 0 for "more input needed", -1 for "headers complete", a
  positive HTTP status for an error. A fault is an exception no caller catches before
  \<open>main\<close>, which then shuts the server down.
\<close>

section \<open>Lines\<close>

definition getLine :: "Request \<Rightarrow> string \<Rightarrow> int \<times> Request \<times> string" where
  "getLine rq buffer0 =
     (let buffer = r_line rq @ buffer0 in
      case find_sub CRLF buffer of
        None \<Rightarrow> (1, rq\<lparr>r_line := buffer\<rparr>, [])
      | Some idx \<Rightarrow> (0, rq\<lparr>r_line := take idx buffer\<rparr>, drop (idx + 2) buffer))"

definition trimSpace :: "Request \<Rightarrow> Request" where
  "trimSpace rq = rq\<lparr>r_line := dropWhile isblank (r_line rq)\<rparr>"

text \<open>The number of bytes up to the next space or tab, and of leading spaces and tabs.\<close>

definition nextSpace :: "string \<Rightarrow> nat \<Rightarrow> nat" where
  "nextSpace str idx = idx + length (takeWhile (\<lambda>c. \<not> isblank c) (drop idx str))"

definition skipSpaces :: "string \<Rightarrow> nat \<Rightarrow> nat" where
  "skipSpaces str idx = idx + length (takeWhile isblank (drop idx str))"

section \<open>Request line\<close>

definition checkVersion :: "string \<Rightarrow> int" where
  "checkVersion str =
     (if length str < 8 \<or> find_sub ''HTTP/'' str \<noteq> Some 0 then 1
      else if drop 5 str \<noteq> ''1.1'' \<and> drop 5 str \<noteq> ''1.0'' then 505
      else 0)"

text \<open>The line without its name, and the name; 1 when there is no colon.\<close>

definition getHeaderName :: "string \<Rightarrow> int \<times> string \<times> string" where
  "getHeaderName line =
     (case find_sub '':'' line of
        None \<Rightarrow> (1, line, [])
      | Some idx \<Rightarrow> (0, drop (idx + 1) line, take idx line))"

definition parseRequestLine :: "Request \<Rightarrow> fault + int \<times> Request" where
  "parseRequestLine rq =
     (let line = r_line rq; idx = nextSpace line 0 in
      case getMethodIndex (take idx line) of
        None \<Rightarrow> Inr (fillError RES_NOT_IMPLEMENTED ''Method Not Implemented'' (rq\<lparr>r_method := None\<rparr>))
      | Some m \<Rightarrow>
          (let idx' = skipSpaces line idx;
               r_idx = nextSpace line idx';
               rq' = rq\<lparr>r_method := Some m, r_uri := take (r_idx - idx') (drop idx' line)\<rparr>
           in and_then (substr_from line (r_idx + 1)) (\<lambda>version.
                Inr (if checkVersion version \<noteq> 0
                     then fillError RES_HTTP_VERSION_NOT_SUPPORTED
                            ''HTTP version not implemented'' rq'
                     else (0, rq')))))"

section \<open>Size checks\<close>

definition checkSizes :: "Request \<Rightarrow> int \<times> Request" where
  "checkSizes rq =
     (if r_status rq = ONGOING \<or> r_status rq = NEW then
        (if int (HEADER_MAX_BUFFER * BUFFER_SIZE) < r_header_size rq
            \<or> BUFFER_SIZE < length (r_line rq)
         then fillError 431 ''Request header too large'' rq
         else (0, rq))
      else if r_status rq = PTERM \<and> r_b_status rq = ONGOING then
        (if r_chunked rq \<and> r_body_max_size rq < r_chunked_body_size rq
         then fillError 413 ''Request entity too large'' rq
         else (0, rq))
      else if r_trailer_status rq = ONGOING then
        (if int BUFFER_SIZE < r_trailer_size rq
         then fillError 400 ''Trailer header too large'' rq
         else (0, rq))
      else (0, rq))"

section \<open>Headers\<close>

text \<open>A header seen twice has its values joined with a comma.\<close>

definition add_header :: "string \<Rightarrow> string \<Rightarrow> header_map \<Rightarrow> header_map" where
  "add_header name val m =
     (if map_at i_less [] name m \<noteq> []
      then map_set i_less name (map_at i_less [] name m @ '', '' @ val) m
      else map_set i_less name val m)"

text \<open>One complete, non-empty header line (it is in \<open>r_line\<close>).\<close>

definition header_line :: "Request \<Rightarrow> int \<times> Request" where
  "header_line rq =
     (case getHeaderName (dropWhile isblank (r_line rq)) of (err, line, name) \<Rightarrow>
        if err \<noteq> 0 then fillError 400 ''Invalid header line'' (rq\<lparr>r_line := line\<rparr>)
        else if BUFFER_SIZE < length line
        then fillError 431 (''The '' @ name @ '' header was too large'') (rq\<lparr>r_line := line\<rparr>)
        else (0, rq\<lparr>r_headers := add_header name (dropWhile isblank line) (r_headers rq),
                    r_line := []\<rparr>))"

text \<open>The header loop of \<open>parseHeaders\<close>.\<close>

function header_lines :: "Request \<Rightarrow> string \<Rightarrow> int \<times> Request \<times> string" where
  "header_lines rq buffer =
     (if buffer = [] then
        (case checkSizes rq of (res, rq') \<Rightarrow> (res, rq', []))
      else
        (case getLine rq buffer of (res, rq1, buffer1) \<Rightarrow>
           if res \<noteq> 0 then (case checkSizes rq1 of (res, rq2) \<Rightarrow> (res, rq2, buffer1))
           else if r_line rq1 = [] then
             (-1, rq1\<lparr>r_status := PTERM, r_final_status := HOST, r_line := []\<rparr>, buffer1)
           else
             (case header_line rq1 of (res, rq2) \<Rightarrow>
                if res \<noteq> 0 then (res, rq2, buffer1) else header_lines rq2 buffer1)))"
  by pat_completeness auto
termination
  by (relation "measure (\<lambda>(rq, buffer). length (r_line rq) + length buffer)")
    (auto simp: getLine_def Let_def header_line_def fillError_def
      split: option.splits prod.splits if_splits dest!: find_sub_bound)

declare header_lines.simps [simp del]

text \<open>
  \<open>parseHeaders\<close>. At the end of the loop the source subtracts the size of the buffer, which
  is empty there, from the header size.
\<close>

definition parseHeaders :: "Request \<Rightarrow> string \<Rightarrow> fault + int \<times> Request \<times> string" where
  "parseHeaders rq buffer =
     (if r_status rq = PTERM then Inr (0, rq, buffer)
      else
        (let rq0 = rq\<lparr>r_header_size := i32 (r_header_size rq + int (length buffer))\<rparr>;
             buffer0 = (if r_status rq = NEW then dropWhile (\<lambda>c. \<not> isalpha c) buffer else buffer);
             rq1 = (if r_status rq = NEW \<and> buffer0 \<noteq> []
                    then rq0\<lparr>r_status := RLINE, r_header_size := i32 (int (length buffer0))\<rparr>
                    else rq0)
         in if r_status rq = NEW \<and> buffer0 = [] then
              (case checkSizes rq1 of (res, rq2) \<Rightarrow> Inr (res, rq2, []))
            else if r_status rq1 = RLINE then
              (case getLine rq1 buffer0 of (res, rq2, buffer1) \<Rightarrow>
                 if res \<noteq> 0 then
                   (case checkSizes rq2 of (res, rq3) \<Rightarrow> Inr (res, rq3, buffer1))
                 else if BUFFER_SIZE < length (r_line rq2) then
                   (case fillError 414 ''Request uri too long'' rq2 of (res, rq3) \<Rightarrow>
                      Inr (res, rq3, buffer1))
                 else
                   and_then (parseRequestLine rq2) (\<lambda>(res, rq3).
                     Inr (if res \<noteq> 0 then (getError rq3, rq3, buffer1)
                          else header_lines (rq3\<lparr>r_line := [], r_status := ONGOING\<rparr>) buffer1)))
            else Inr (header_lines rq1 buffer0)))"

section \<open>Printing headers\<close>

text \<open>\<open>formatHeaders\<close>: in the order of the map.\<close>

definition format_header :: "string \<times> string \<Rightarrow> string" where
  "format_header h = fst h @ '': '' @ snd h @ CRLF"

definition formatHeaders :: "Request \<Rightarrow> Request" where
  "formatHeaders rq =
     rq\<lparr>r_formated_headers :=
          r_formated_headers rq @ concat (map format_header (r_headers rq)) @ CRLF\<rparr>"

lemma header_lines_step:
  "buffer \<noteq> [] \<Longrightarrow> getLine rq buffer = (0, rq1, buffer1) \<Longrightarrow> r_line rq1 \<noteq> [] \<Longrightarrow>
   header_line rq1 = (0, rq2) \<Longrightarrow> header_lines rq buffer = header_lines rq2 buffer1"
  by (simp add: header_lines.simps [of rq buffer])

section \<open>Independence of the cut\<close>

lemma fillError_nonzero: "fst (fillError err v rq) = err"
  by (simp add: fillError_def)

lemma checkSizes_cases:
  "checkSizes rq = (0, rq) \<or> (\<exists>e rq'. checkSizes rq = (e, rq') \<and> 0 < e)"
  by (auto simp: checkSizes_def fillError_def)

lemma checkSizes_nonneg: "checkSizes rq = (res, rq') \<Longrightarrow> 0 \<le> res \<and> (res = 0 \<longrightarrow> rq' = rq)"
  using checkSizes_cases [of rq] by auto

lemma header_line_nonneg: "header_line rq = (res, rq') \<Longrightarrow> 0 \<le> res"
  by (auto simp: header_line_def fillError_def split: prod.splits if_splits)

text \<open>A line that is complete stays the same line; an incomplete one is resumed.\<close>

lemma getLine_more:
  assumes "getLine rq a = (0, rq1, rest)"
  shows "getLine rq (a @ b) = (0, rq1, rest @ b)"
proof -
  obtain i where i: "find_sub CRLF (r_line rq @ a) = Some i"
    using assms by (auto simp: getLine_def Let_def split: option.splits)
  have le: "i + 2 \<le> length (r_line rq @ a)" using find_sub_bound [OF i] by simp
  then have "drop (i + 2) ((r_line rq @ a) @ b) = drop (i + 2) (r_line rq @ a) @ b"
    and "take i ((r_line rq @ a) @ b) = take i (r_line rq @ a)"
    by simp_all
  moreover have "find_sub CRLF ((r_line rq @ a) @ b) = Some i"
    using i by (rule find_sub_append)
  ultimately show ?thesis using assms i le by (simp add: getLine_def Let_def)
qed

lemma getLine_resume:
  "getLine rq a = (res, rq1, rest) \<Longrightarrow> res \<noteq> 0 \<Longrightarrow> rest = [] \<and> getLine rq (a @ b) = getLine rq1 b"
  by (auto simp: getLine_def Let_def split: option.splits)

lemma getLine_status: "getLine rq a = (res, rq1, rest) \<Longrightarrow> res = 0 \<or> res = 1"
  by (auto simp: getLine_def Let_def split: option.splits)

lemma header_lines_pause:
  "header_lines rq a = (0, rq', rest) \<Longrightarrow>
   rest = [] \<and> (b \<noteq> [] \<longrightarrow> header_lines rq (a @ b) = header_lines rq' b)"
proof (induction rq a arbitrary: rq' rest rule: header_lines.induct)
  case (1 rq a)
  show ?case
  proof (cases "a = []")
    case True
    have "checkSizes rq = (0, rq') \<and> rest = []"
      using "1.prems"(1) True by (subst (asm) header_lines.simps) (auto split: prod.splits)
    then show ?thesis using True checkSizes_nonneg by fastforce
  next
    case False
    obtain res rq1 a1 where gl: "getLine rq a = (res, rq1, a1)" by (cases "getLine rq a") auto
    show ?thesis
    proof (cases "res = 0")
      case True
      then have more: "getLine rq (a @ b) = (0, rq1, a1 @ b)" using gl getLine_more by simp
      have ne: "r_line rq1 \<noteq> []"
        using "1.prems" False gl True by (subst (asm) header_lines.simps) auto
      obtain e rq2 where hl: "header_line rq1 = (e, rq2)" by (cases "header_line rq1")
      have e: "e = 0" and rec: "header_lines rq2 a1 = (0, rq', rest)"
        using "1.prems" False gl True ne hl
        by (subst (asm) header_lines.simps; simp split: if_splits)+
      from "1.IH" [OF False gl [symmetric] refl _ ne hl [symmetric]] e rec True
      have "rest = [] \<and> (b \<noteq> [] \<longrightarrow> header_lines rq2 (a1 @ b) = header_lines rq' b)"
        by simp
      then show ?thesis
        using more False hl e ne by (simp add: header_lines.simps [of rq "a @ b"])
    next
      case nz: False
      then have rest: "a1 = []" and res: "getLine rq (a @ b) = getLine rq1 b"
        using getLine_resume [OF gl] by simp_all
      have "checkSizes rq1 = (0, rq1)" "rq' = rq1" "rest = []"
        using "1.prems" False gl nz rest checkSizes_nonneg
        by (subst (asm) header_lines.simps; fastforce split: prod.splits)+
      then show ?thesis
        using res False
        by (simp add: header_lines.simps [of rq "a @ b"] header_lines.simps [of rq1 b])
    qed
  qed
qed

lemma header_lines_finish:
  "header_lines rq a = (res, rq', rest) \<Longrightarrow> res < 0 \<Longrightarrow>
   header_lines rq (a @ b) = (res, rq', rest @ b)"
proof (induction rq a arbitrary: rq' rest rule: header_lines.induct)
  case (1 rq a)
  show ?case
  proof (cases "a = []")
    case True
    have "checkSizes rq = (res, rq') \<and> rest = []"
      using "1.prems"(1) True by (subst (asm) header_lines.simps) (auto split: prod.splits)
    then show ?thesis using True checkSizes_nonneg "1.prems"(2) by fastforce
  next
    case False
    obtain gr rq1 a1 where gl: "getLine rq a = (gr, rq1, a1)" by (cases "getLine rq a") auto
    have gr: "gr = 0"
      using "1.prems" False gl checkSizes_nonneg
      by (subst (asm) header_lines.simps) (fastforce split: prod.splits if_splits)
    then have more: "getLine rq (a @ b) = (0, rq1, a1 @ b)" using gl getLine_more by simp
    show ?thesis
    proof (cases "r_line rq1 = []")
      case True
      with "1.prems" False gl gr more show ?thesis
        by (simp add: header_lines.simps [of rq a] header_lines.simps [of rq "a @ b"])
    next
      case ne: False
      obtain e rq2 where hl: "header_line rq1 = (e, rq2)" by (cases "header_line rq1")
      have e: "e = 0" and rec: "header_lines rq2 a1 = (res, rq', rest)"
        using "1.prems" False gl gr ne hl header_line_nonneg [OF hl]
        by (subst (asm) header_lines.simps; simp split: if_splits)+
      from "1.IH" [OF False gl [symmetric] refl _ ne hl [symmetric]] e rec gr "1.prems"(2)
      have "header_lines rq2 (a1 @ b) = (res, rq', rest @ b)" by simp
      then show ?thesis
        using more False hl e ne by (simp add: header_lines.simps [of rq "a @ b"])
    qed
  qed
qed

interpretation hdr_feed: resumable header_lines "\<lambda>_. True"
proof unfold_locales
  show "True \<and> rest = []" if "header_lines s a = (0, s', rest)" for s a s' rest
    using header_lines_pause [OF that] by blast
  show "header_lines s (a @ b) = header_lines s' b"
    if "header_lines s a = (0, s', rest)" "b \<noteq> []" for s a s' rest b
    using header_lines_pause [OF that(1)] that(2) by blast
qed (rule header_lines_finish)

text \<open>
  However the network cuts the header block into pieces, if no piece is rejected then
  the outcome (finished or waiting for more), the parsed request and the unread bytes are
  those of parsing the whole block at once.
\<close>

theorem header_lines_any_cut:
  assumes "feed_all header_lines rq (c # cs) = (res, rq', rest)" and "res \<le> 0"
    and "[] \<notin> set (c # cs)"
  shows "header_lines rq (concat (c # cs)) = (res, rq', rest)"
  using hdr_feed.feed_all_concat [OF TrueI assms] by simp

theorem header_lines_any_cut_witness:
  "header_lines (new_Request\<lparr>r_status := ONGOING\<rparr>)
     (concat [''Ho'', ''st: a'' @ [CHR 0x0D], [CHR 0x0A] @ CRLF @ ''x'']) =
   (-1, new_Request\<lparr>r_status := PTERM, r_headers := [(''Host'', ''a'')]\<rparr>, ''x'')"
proof -
  have "feed_all header_lines (new_Request\<lparr>r_status := ONGOING\<rparr>)
     [''Ho'', ''st: a'' @ [CHR 0x0D], [CHR 0x0A] @ CRLF @ ''x''] =
   (-1, new_Request\<lparr>r_status := PTERM, r_headers := [(''Host'', ''a'')]\<rparr>, ''x'')"
    by code_simp
  from header_lines_any_cut [OF this] show ?thesis by simp
qed

section \<open>Reading what is printed\<close>

definition request_line :: "http_method \<Rightarrow> string \<Rightarrow> string" where
  "request_line m uri = METHOD_STR m @ '' '' @ uri @ '' HTTP/1.1''"

definition uri_ok :: "string \<Rightarrow> bool" where
  "uri_ok uri \<longleftrightarrow> uri \<noteq> [] \<and> list_all (\<lambda>c. \<not> isblank c \<and> c \<noteq> CHR 0x0D) uri \<and> length uri < 3900"

text \<open>A name and a value the grammar of the parser allows.\<close>

definition header_ok :: "string \<times> string \<Rightarrow> bool" where
  "header_ok h \<longleftrightarrow>
     (case h of (n, v) \<Rightarrow>
        CHR '':'' \<notin> set n \<and> CHR 0x0D \<notin> set n \<and> CHR 0x0D \<notin> set v \<and> length v < BUFFER_SIZE \<and>
        dropWhile isblank n = n \<and> dropWhile isblank v = v \<and> v \<noteq> [])"

lemma getLine_here:
  assumes "r_line rq = []" and "CHR 0x0D \<notin> set l"
  shows "getLine rq (l @ CRLF @ t) = (0, rq\<lparr>r_line := l\<rparr>, t)"
proof -
  have "find_sub CRLF (l @ CRLF @ t) = Some (length l)"
    using find_sub_here [OF assms(2), of "[CHR 0x0A]" t] by (simp add: CRLF_def)
  with assms(1) show ?thesis by (simp add: getLine_def Let_def)
qed

lemma dropWhile_first: "dropWhile P n = n \<Longrightarrow> \<not> P c \<Longrightarrow> dropWhile P (n @ c # t) = n @ c # t"
proof (cases n)
  case (Cons a list)
  assume "dropWhile P n = n" "\<not> P c"
  then have "\<not> P a" using length_dropWhile_le [of P list] by (auto simp: Cons)
  then show ?thesis by (simp add: Cons)
qed simp

lemma header_line_ok:
  assumes "header_ok (n, v)"
  shows "header_line (rq\<lparr>r_line := n @ '': '' @ v\<rparr>) =
         (0, rq\<lparr>r_headers := add_header n v (r_headers rq), r_line := []\<rparr>)"
proof -
  have f: "find_sub '':'' (n @ '': '' @ v) = Some (length n)"
    using assms find_sub_here [of "CHR '':''" n "[]" "CHR '' '' # v"]
    by (simp add: header_ok_def)
  have d: "dropWhile isblank (n @ '': '' @ v) = n @ '': '' @ v"
    using assms dropWhile_first [of isblank n "CHR '':''" "CHR '' '' # v"]
    by (simp add: header_ok_def isblank_def)
  show ?thesis
    using assms
    by (simp add: header_line_def getHeaderName_def f [simplified] d [simplified] header_ok_def isblank_def)
qed

lemma header_lines_formatted:
  "r_line rq = [] \<Longrightarrow> list_all header_ok hs \<Longrightarrow>
   header_lines rq (concat (map format_header hs) @ CRLF @ rest) =
     (-1, rq\<lparr>r_headers := fold (\<lambda>(n, v). add_header n v) hs (r_headers rq),
             r_status := PTERM, r_final_status := HOST\<rparr>, rest)"
proof (induction hs arbitrary: rq)
  case Nil
  then have "getLine rq (CRLF @ rest) = (0, rq, rest)"
    using getLine_here [of rq "[]" rest] by simp
  with Nil show ?case
    by (simp add: header_lines.simps [of rq "CRLF @ rest"]) (simp add: CRLF_def)
next
  case (Cons h hs)
  obtain n v where h: "h = (n, v)" by (cases h)
  let ?t = "concat (map format_header hs) @ CRLF @ rest"
  have "CHR 0x0D \<notin> set (n @ '': '' @ v)"
    using Cons.prems by (auto simp: h header_ok_def)
  from getLine_here [OF Cons.prems(1) this, of ?t]
  have gl: "getLine rq (concat (map format_header (h # hs)) @ CRLF @ rest) =
      (0, rq\<lparr>r_line := n @ '': '' @ v\<rparr>, ?t)"
    by (simp add: h format_header_def)
  have ok: "header_ok (n, v)" using Cons.prems by (simp add: h)
  have "header_lines rq (concat (map format_header (h # hs)) @ CRLF @ rest) =
      header_lines (rq\<lparr>r_headers := add_header n v (r_headers rq), r_line := []\<rparr>) ?t"
    by (rule header_lines_step [OF _ gl _ header_line_ok [OF ok]]) (simp_all add: CRLF_def)
  with Cons show ?case by (simp add: h)
qed

text \<open>The header block of an ordered map, read back, is the map.\<close>

lemma fold_add_header:
  "map_ordered i_less (m @ hs) \<Longrightarrow> list_all header_ok hs \<Longrightarrow>
   fold (\<lambda>(n, v). add_header n v) hs m = m @ hs"
proof (induction hs arbitrary: m)
  case (Cons h hs)
  obtain n v where h: "h = (n, v)" by (cases h)
  have below: "\<forall>q \<in> set m. i_less (fst q) n"
    using Cons.prems(1) by (auto simp: h map_ordered_def sorted_wrt_append)
  then have "map_find i_less n m = None" by (induction m) auto
  moreover from below have "map_set i_less n v m = m @ [(n, v)]" by (induction m) auto
  ultimately have "add_header n v m = m @ [h]"
    by (simp add: h add_header_def map_at_def)
  moreover have "fold (\<lambda>(n, v). add_header n v) hs (m @ [h]) = (m @ [h]) @ hs"
    using Cons.prems by (intro Cons.IH) simp_all
  ultimately show ?case by (simp add: h)
qed simp

section \<open>The request line\<close>

lemma getMethodIndex_STR: "getMethodIndex (METHOD_STR m) = Some m"
  by (cases m) (simp_all add: getMethodIndex_def all_methods_def)

lemma METHOD_STR_plain:
  "\<forall>c \<in> set (METHOD_STR m). \<not> isblank c" "CHR 0x0D \<notin> set (METHOD_STR m)"
  "dropWhile (\<lambda>c. \<not> isalpha c) (METHOD_STR m @ t) = METHOD_STR m @ t"
  "length (METHOD_STR m) \<le> 6" "METHOD_STR m \<noteq> []"
  by (cases m; simp add: isblank_def isalpha_def char_code_def)+

lemma takeWhile_stop: "\<forall>c \<in> set a. P c \<Longrightarrow> \<not> P x \<Longrightarrow> takeWhile P (a @ x # b) = a"
  by (induction a) auto

lemma parseRequestLine_ok:
  assumes "r_line rq = request_line m uri" and "uri_ok uri"
  shows "parseRequestLine rq = Inr (0, rq\<lparr>r_method := Some m, r_uri := uri\<rparr>)"
proof -
  obtain c cs where uri: "uri = c # cs" and c: "\<not> isblank c"
    using assms(2) by (cases uri) (auto simp: uri_ok_def)
  have bl: "isblank (CHR '' '')" by (simp add: isblank_def)
  let ?l = "METHOD_STR m @ '' '' @ uri @ '' HTTP/1.1''"
  let ?n = "length (METHOD_STR m)"
  have i1: "nextSpace ?l 0 = ?n"
    using takeWhile_stop [of "METHOD_STR m" "\<lambda>c. \<not> isblank c" "CHR '' ''"] METHOD_STR_plain(1)
    by (simp add: nextSpace_def bl)
  have i2: "skipSpaces ?l ?n = ?n + 1"
    by (simp add: skipSpaces_def bl uri c)
  have "takeWhile (\<lambda>c. \<not> isblank c) (uri @ '' HTTP/1.1'') = uri"
    using assms(2) by (intro takeWhile_stop [of _ _ _ "''HTTP/1.1''", simplified])
      (auto simp: uri_ok_def list_all_iff bl)
  then have i3: "nextSpace ?l (?n + 1) = ?n + 1 + length uri"
    by (simp add: nextSpace_def)
  show ?thesis
    using assms(1) i1 i2 i3
    by (simp add: parseRequestLine_def request_line_def Let_def getMethodIndex_STR
        substr_from_def checkVersion_def)
qed

lemma parseHeaders_new:
  assumes "buffer \<noteq> []" and "dropWhile (\<lambda>c. \<not> isalpha c) buffer = buffer"
    and "getLine (new_Request\<lparr>r_status := RLINE, r_header_size := i32 (int (length buffer))\<rparr>) buffer =
         (0, rq2, rest)"
    and "length (r_line rq2) \<le> BUFFER_SIZE" and "parseRequestLine rq2 = Inr (0, rq3)"
  shows "parseHeaders new_Request buffer =
         Inr (header_lines (rq3\<lparr>r_line := [], r_status := ONGOING\<rparr>) rest)"
  using assms by (simp add: parseHeaders_def new_Request_def Let_def)

text \<open>The request a fresh parser makes of a printed head; only the count of its bytes is left open.\<close>

lemma parseHeaders_printed:
  assumes "map_ordered i_less hs" and "list_all header_ok hs" and "uri_ok uri"
  shows "\<exists>n. parseHeaders new_Request
       (request_line m uri @ CRLF @ concat (map format_header hs) @ CRLF @ rest) =
     Inr (-1, new_Request\<lparr>r_headers := hs, r_uri := uri, r_status := PTERM, r_header_size := n,
                r_final_status := HOST, r_method := Some m\<rparr>, rest)"
proof -
  let ?l = "request_line m uri"
  let ?h = "concat (map format_header hs) @ CRLF @ rest"
  let ?b = "?l @ CRLF @ ?h"
  let ?rq = "new_Request\<lparr>r_status := RLINE, r_header_size := i32 (int (length ?b))\<rparr>"
  have cr: "CHR 0x0D \<notin> set ?l"
    using assms(3) METHOD_STR_plain(2) [of m]
    by (auto simp: request_line_def uri_ok_def list_all_iff)
  have gl: "getLine ?rq ?b = (0, ?rq\<lparr>r_line := ?l\<rparr>, ?h)"
    by (rule getLine_here [OF _ cr]) (simp add: new_Request_def)
  have len: "length ?l \<le> BUFFER_SIZE"
    using assms(3) METHOD_STR_plain(4) [of m] by (simp add: request_line_def uri_ok_def BUFFER_SIZE_def)
  have prl: "parseRequestLine (?rq\<lparr>r_line := ?l\<rparr>) =
      Inr (0, ?rq\<lparr>r_line := ?l, r_method := Some m, r_uri := uri\<rparr>)"
    using parseRequestLine_ok [of "?rq\<lparr>r_line := ?l\<rparr>", OF _ assms(3)] by simp
  have drop: "dropWhile (\<lambda>c. \<not> isalpha c) ?b = ?b" "?b \<noteq> []"
    using METHOD_STR_plain(3) [of m "'' '' @ uri @ '' HTTP/1.1'' @ CRLF @ ?h"]
    by (simp_all add: request_line_def CRLF_def)
  have head: "parseHeaders new_Request ?b =
      Inr (header_lines (?rq\<lparr>r_method := Some m, r_uri := uri, r_line := [],
                             r_status := ONGOING\<rparr>) ?h)"
    using parseHeaders_new [OF drop(2,1) gl _ prl] len by simp
  show ?thesis
    unfolding head
    using header_lines_formatted [of "?rq\<lparr>r_method := Some m, r_uri := uri, r_line := [],
        r_status := ONGOING\<rparr>" hs rest] assms fold_add_header [of "[]" hs]
    by (intro exI [of _ "i32 (int (length ?b))"]) (simp add: new_Request_def)
qed

text \<open>
  C21. What \<open>formatHeaders\<close> prints, after a request line and followed by any bytes, is
  read back by a fresh parser: it reports complete headers, the method, the uri and exactly
  the printed header map, and leaves the following bytes unread.
\<close>

theorem parseHeaders_formatHeaders:
  assumes "map_ordered i_less hs" and "list_all header_ok hs" and "uri_ok uri"
  shows "\<exists>rq'. parseHeaders new_Request
       (request_line m uri @ CRLF @
        r_formated_headers (formatHeaders (new_Request\<lparr>r_headers := hs\<rparr>)) @ rest) =
       Inr (-1, rq', rest) \<and>
     r_method rq' = Some m \<and> r_uri rq' = uri \<and> r_headers rq' = hs \<and>
     r_status rq' = PTERM \<and> r_final_status rq' = HOST"
proof -
  from parseHeaders_printed [OF assms, of m rest] obtain n where
    "parseHeaders new_Request (request_line m uri @ CRLF @ concat (map format_header hs) @ CRLF @ rest) =
     Inr (-1, new_Request\<lparr>r_headers := hs, r_uri := uri, r_status := PTERM, r_header_size := n,
                r_final_status := HOST, r_method := Some m\<rparr>, rest)"
    by blast
  then show ?thesis by (simp add: formatHeaders_def new_Request_def)
qed

theorem parseHeaders_formatHeaders_witness:
  "\<exists>rq'. parseHeaders new_Request
       (request_line GET ''/a'' @ CRLF @
        r_formated_headers (formatHeaders (new_Request\<lparr>r_headers := [(''A'', ''1''), (''b'', ''2'')]\<rparr>)) @ ''x'') =
       Inr (-1, rq', ''x'') \<and>
     r_method rq' = Some GET \<and> r_uri rq' = ''/a'' \<and> r_headers rq' = [(''A'', ''1''), (''b'', ''2'')] \<and>
     r_status rq' = PTERM \<and> r_final_status rq' = HOST"
  by (rule parseHeaders_formatHeaders) (code_simp+)

text \<open>
  A request line with a uri but no space after it is not rejected: the parser takes the
  rest of the line past its end, which throws \<open>std::out_of_range\<close>.
\<close>

theorem request_line_without_version_throws:
  "parseHeaders new_Request (''GET /'' @ CRLF) = Inl OutOfRange"
  by code_simp

end
