(* ===== verification/Body.thy ===== *)
theory Body
  imports Request_Parser
begin

text \<open>
  The request body of srcs/Request.cpp: how its length is found (\<open>getLenInfo\<close>), bodies of
  a given length (\<open>parseMesured\<close>), chunked bodies (\<open>getChunkedSize\<close>,
  \<open>parseChunked\<close>), trailers, and \<open>parseInput\<close>, which the client calls with what is in
  its buffer. The body is written to an output stream, behind a pointer that may be null.

  The lemmas show that a measured body of any cut is stored exactly, that a chunked body is
  decoded to the concatenation of its chunks however it is cut, if it is within the limit, and
  that the limit is not applied when the last chunk is already in the buffer.
\<close>

type_synonym body_state = "Request \<times> ofstream option"

section \<open>Length of the body\<close>

definition getLenInfo :: "Request \<Rightarrow> int \<times> Request" where
  "getLenInfo rq =
     (if nocase_string_eq (getHeader rq ''Transfer-Encoding'') ''chunked'' then
        (0, rq\<lparr>r_chunked := True, r_content_length := -1\<rparr>)
      else if getHeader rq ''Content-Length'' \<noteq> [] then
        (case getInt (getHeader rq ''Content-Length'') 10 0 of (err, res) \<Rightarrow>
           if err \<noteq> 0 then fillError 400 ''Incorrect content-length provided'' rq
           else if r_body_max_size rq < res then fillError 413 ''Request entity too large'' rq
           else (0, rq\<lparr>r_content_length := res\<rparr>))
      else (0, rq\<lparr>r_b_status := PTERM, r_final_status := COMPLETE\<rparr>))"

definition getBodySize :: "Request \<Rightarrow> int" where
  "getBodySize rq = (if r_chunked rq then r_chunked_body_size rq else r_content_length rq)"

section \<open>Measured bodies\<close>

text \<open>
  \<open>left_to_complete\<close> is the \<open>int\<close> difference converted to \<open>size_t\<close>.
\<close>

definition parseMesured :: "body_state \<Rightarrow> string \<Rightarrow> int \<times> body_state \<times> string" where
  "parseMesured st buffer =
     (case st of (rq, fs) \<Rightarrow>
       (let left_to_complete = u64 (i32 (r_content_length rq - r_len rq));
            cut = (if int (length buffer) < left_to_complete then length buffer
                   else nat left_to_complete);
            extract = take cut buffer;
            fs1 = stream_write extract fs;
            rq1 = rq\<lparr>r_len := i32 (r_len rq + int (length extract))\<rparr>;
            buffer1 = drop cut buffer
        in if r_len rq1 = r_content_length rq1 then
             (-1, (rq1\<lparr>r_b_status := PTERM, r_final_status := COMPLETE\<rparr>, stream_close fs1),
              buffer1)
           else (0, (rq1, fs1), buffer1)))"

section \<open>Chunked bodies\<close>

definition getChunkedSize :: "Request \<Rightarrow> string \<Rightarrow> int \<times> Request \<times> string" where
  "getChunkedSize rq buffer =
     (if r_chunked_status rq then (0, rq, buffer)
      else
        (case getLine rq buffer of (miss, rq1, buffer1) \<Rightarrow>
           if miss \<noteq> 0 then
             (if BUFFER_SIZE < length (r_line rq1)
              then (case fillError 400 ''Chunked body length line too long'' rq1 of (e, rq2) \<Rightarrow>
                      (e, rq2, buffer1))
              else (0, rq1, buffer1))
           else
             (case getInt (r_line rq1) 16 0 of (err, len) \<Rightarrow>
                if err \<noteq> 0 \<or> len < 0
                then (case fillError 400 ''Syntax error parsing chunked body'' rq1 of (e, rq2) \<Rightarrow>
                        (e, rq2, buffer1))
                else (0, rq1\<lparr>r_chunked_body_size :=
                               i32 (r_chunked_body_size rq1 - int (length (r_line rq1) + 2)),
                             r_len := len, r_line := [], r_chunked_status := True\<rparr>, buffer1))))"

text \<open>The \<open>while (buffer != "")\<close> loop; the size check follows it.\<close>

lemma getLine_shorter:
  "getLine rq a = (res, rq1, b) \<Longrightarrow>
   length b \<le> length (r_line rq) + length a \<and> (res = 0 \<longrightarrow>
     length b + length (r_line rq1) + 2 = length (r_line rq) + length a)"
  by (auto simp: getLine_def Let_def split: option.splits dest!: find_sub_bound)

lemma getChunkedSize_shorter:
  "getChunkedSize rq a = (0, rq1, b) \<Longrightarrow>
   length b + length (r_line rq1) \<le> length a + length (r_line rq)"
proof (cases "r_chunked_status rq")
  case False
  assume h: "getChunkedSize rq a = (0, rq1, b)"
  obtain m rq2 c where gl: "getLine rq a = (m, rq2, c)" by (cases "getLine rq a") auto
  have "m \<noteq> 0 \<Longrightarrow> c = [] \<and> r_line rq2 = r_line rq @ a"
    using gl by (auto simp: getLine_def Let_def split: option.splits)
  then show ?thesis
    using h gl False getLine_shorter [OF gl]
    by (auto simp: getChunkedSize_def fillError_def split: if_splits prod.splits)
qed (simp add: getChunkedSize_def)

function chunk_loop :: "Request \<Rightarrow> ofstream option \<Rightarrow> string \<Rightarrow> int \<times> body_state \<times> string" where
  "chunk_loop rq fs buffer =
     (if buffer = [] then
        (if r_body_max_size rq < r_chunked_body_size rq
         then (case fillError 413 ''Request entity too large'' rq of (e, rq') \<Rightarrow> (e, (rq', fs), []))
         else (0, (rq, fs), []))
      else
        (case getChunkedSize rq buffer of (err, rq1, buffer1) \<Rightarrow>
           if err \<noteq> 0 then (getError rq1, (rq1, fs), buffer1)
           else if r_chunked_status rq1 \<and> r_len rq1 = 0 then
             (-1, (rq1\<lparr>r_b_status := PTERM, r_final_status := TRAILER, r_line := []\<rparr>,
                   stream_close fs), buffer1)
           else
             (case getLine rq1 buffer1 of (miss, rq2, buffer2) \<Rightarrow>
                if miss \<noteq> 0 then
                  (case checkSizes rq2 of (e, rq3) \<Rightarrow> (e, (rq3, fs), buffer2))
                else if int (length (r_line rq2)) \<noteq> u64 (r_len rq2) then
                  (case fillError 400 ''Size error in chunked body'' rq2 of (e, rq3) \<Rightarrow>
                     (e, (rq3, fs), buffer2))
                else
                  chunk_loop (rq2\<lparr>r_line := [], r_len := -1, r_chunked_status := False\<rparr>)
                    (stream_write (r_line rq2) fs) buffer2)))"
  by pat_completeness auto
termination
proof (relation "measure (\<lambda>(rq, fs, buffer). length (r_line rq) + length buffer)")
qed (auto dest!: getChunkedSize_shorter [OF sym] getLine_shorter [OF sym])

declare chunk_loop.simps [simp del]

definition parseChunked :: "body_state \<Rightarrow> string \<Rightarrow> int \<times> body_state \<times> string" where
  "parseChunked st buffer =
     (case st of (rq, fs) \<Rightarrow>
        if r_b_status rq = PTERM then (0, (rq, fs), buffer)
        else chunk_loop
               (rq\<lparr>r_chunked_body_size := i32 (r_chunked_body_size rq + int (length buffer))\<rparr>)
               fs buffer)"

section \<open>parseBody, trailers, parseInput\<close>

definition parseBody :: "body_state \<Rightarrow> string \<Rightarrow> int \<times> body_state \<times> string" where
  "parseBody st buffer =
     (case st of (rq, fs) \<Rightarrow>
        if r_b_status rq = PTERM \<or> buffer = [] then (-1, (rq, fs), buffer)
        else
          (let rq1 = (if r_b_status rq = NEW then rq\<lparr>r_b_status := ONGOING\<rparr> else rq) in
           if r_chunked rq1 then parseChunked (rq1, fs) buffer
           else parseMesured (rq1, fs) buffer))"

text \<open>One complete, non-empty trailer line (it is in \<open>r_line\<close>).\<close>

definition trailer_line :: "Request \<Rightarrow> int \<times> Request" where
  "trailer_line rq =
     (case getHeaderName (dropWhile isblank (r_line rq)) of (err, line, name) \<Rightarrow>
        if err \<noteq> 0 \<or> name = ''Trailer'' \<or> name = ''Content-Length'' \<or> name = ''Transfer-Encoding''
        then fillError 400 ''Invalid trailer header line'' (rq\<lparr>r_line := line\<rparr>)
        else if BUFFER_SIZE < length line
        then fillError 431 (''The '' @ name @ '' header was too large'') (rq\<lparr>r_line := line\<rparr>)
        else (0, rq\<lparr>r_headers := add_header name (dropWhile isblank line) (r_headers rq),
                    r_line := []\<rparr>))"

function trailer_lines :: "Request \<Rightarrow> string \<Rightarrow> int \<times> Request \<times> string" where
  "trailer_lines rq buffer =
     (if buffer = [] then
        (case checkSizes rq of (res, rq') \<Rightarrow> (res, rq', []))
      else
        (case getLine rq buffer of (res, rq1, buffer1) \<Rightarrow>
           if res \<noteq> 0 then (case checkSizes rq1 of (res, rq2) \<Rightarrow> (res, rq2, buffer1))
           else if r_line rq1 = [] then
             (-1, rq1\<lparr>r_trailer_status := PTERM, r_final_status := COMPLETE, r_line := []\<rparr>, buffer1)
           else
             (case trailer_line rq1 of (res, rq2) \<Rightarrow>
                if res \<noteq> 0 then (res, rq2, buffer1) else trailer_lines rq2 buffer1)))"
  by pat_completeness auto
termination
  by (relation "measure (\<lambda>(rq, buffer). length (r_line rq) + length buffer)")
    (auto simp: trailer_line_def fillError_def
      split: option.splits prod.splits if_splits dest!: getLine_shorter [OF sym])

declare trailer_lines.simps [simp del]

definition parseTrailerHeaders :: "Request \<Rightarrow> string \<Rightarrow> int \<times> Request \<times> string" where
  "parseTrailerHeaders rq buffer =
     (if r_b_status rq \<noteq> PTERM then (0, rq, buffer)
      else if \<not> r_chunked rq \<or> getHeader rq ''Trailer'' = [] then
        (-1, rq\<lparr>r_trailer_status := PTERM, r_final_status := COMPLETE\<rparr>, buffer)
      else
        trailer_lines
          (rq\<lparr>r_trailer_size := i32 (r_trailer_size rq + int (length buffer))\<rparr>) buffer)"

definition parseInput :: "body_state \<Rightarrow> string \<Rightarrow> int \<times> body_state \<times> string" where
  "parseInput st buffer =
     (if TRAILER < r_final_status (fst st) \<or> buffer = [] then (0, st, buffer)
      else
        (case parseBody st buffer of (res, (rq1, fs1), buffer1) \<Rightarrow>
           if res \<noteq> 0 then (res, (rq1, fs1), buffer1)
           else
             (case parseTrailerHeaders rq1 buffer1 of (res, rq2, buffer2) \<Rightarrow>
                (res, (rq2, fs1), buffer2))))"

section \<open>Measured bodies are stored exactly\<close>

lemma stream_write_twice [simp]:
  "stream_write b (stream_write a fs) = stream_write (a @ b) fs"
  by (cases fs) (auto simp: stream_write_def)

lemma stream_write_Nil [simp]: "stream_write [] fs = fs"
  by (cases fs) (auto simp: stream_write_def)

definition body_open :: "Request \<Rightarrow> bool" where
  "body_open rq \<longleftrightarrow> (r_b_status rq = NEW \<or> r_b_status rq = ONGOING) \<and> r_final_status rq \<le> TRAILER"

definition measured :: "body_state \<Rightarrow> bool" where
  "measured st \<longleftrightarrow>
     (case st of (rq, fs) \<Rightarrow>
        \<not> r_chunked rq \<and> body_open rq \<and>
        0 \<le> r_len rq \<and> r_len rq < r_content_length rq \<and> r_content_length rq < 2 ^ 31)"

lemma measured_fst: "measured (rq, fs) \<longleftrightarrow> measured (rq, fs')"
  by (simp add: measured_def)

lemma body_open_parseInput:
  assumes "body_open rq" and "a \<noteq> []"
  shows "parseInput (rq, fs) a =
     (case (if r_chunked rq then parseChunked else parseMesured)
             (rq\<lparr>r_b_status := ONGOING\<rparr>, fs) a of
        (res, (rq1, fs1), a1) \<Rightarrow>
          if res \<noteq> 0 then (res, (rq1, fs1), a1)
          else (case parseTrailerHeaders rq1 a1 of (res, rq2, a2) \<Rightarrow> (res, (rq2, fs1), a2)))"
proof -
  have "(if r_b_status rq = NEW then rq\<lparr>r_b_status := ONGOING\<rparr> else rq) =
        rq\<lparr>r_b_status := ONGOING\<rparr>"
    using assms(1) by (auto simp: body_open_def)
  with assms show ?thesis
    by (auto simp: parseInput_def parseBody_def body_open_def not_less split: prod.splits)
qed

lemma parseInput_measured:
  assumes m: "measured (rq, fs)" and "a \<noteq> []" and n: "n = nat (r_content_length rq - r_len rq)"
  shows "parseInput (rq, fs) a =
    (if length a < n
     then (0, (rq\<lparr>r_b_status := ONGOING, r_len := r_len rq + int (length a)\<rparr>, stream_write a fs), [])
     else (-1, (rq\<lparr>r_b_status := PTERM, r_final_status := COMPLETE,
                   r_len := r_content_length rq\<rparr>, stream_close (stream_write (take n a) fs)),
           drop n a))"
proof -
  have open': "body_open rq" "\<not> r_chunked rq" using m by (simp_all add: measured_def)
  have left: "u64 (i32 (r_content_length rq - r_len rq)) = int n"
    using m n by (simp add: measured_def i32_nonneg u64_nonneg)
  have full: "r_len rq + int n = r_content_length rq" using m n by (simp add: measured_def)
  have len: "i32 (r_len rq + int k) = r_len rq + int k" if "k \<le> n" for k
    using m full that by (intro i32_nonneg) (simp_all add: measured_def)
  show ?thesis
  proof (cases "length a < n")
    case True
    with len [of "length a"] full have "i32 (r_len rq + int (length a)) \<noteq> r_content_length rq"
      by simp
    with True left len [of "length a"] show ?thesis
      by (simp add: body_open_parseInput [OF open'(1) assms(2)] open' parseMesured_def Let_def
          parseTrailerHeaders_def)
  next
    case False
    with left len [of n] full show ?thesis
      by (simp add: body_open_parseInput [OF open'(1) assms(2)] open' parseMesured_def Let_def)
  qed
qed

lemma measured_step:
  assumes "measured (rq, fs)" and "length a < nat (r_content_length rq - r_len rq)"
  shows "measured (rq\<lparr>r_b_status := ONGOING, r_len := r_len rq + int (length a)\<rparr>, fs')"
  using assms by (simp add: measured_def body_open_def)

interpretation measured_feed: resumable_total parseInput measured
proof unfold_locales
  fix st :: body_state and a st' rest res b
  obtain rq fs where st: "st = (rq, fs)" by (cases st)
  let ?n = "nat (r_content_length rq - r_len rq)"
  assume ok: "measured st"
  note step = parseInput_measured [OF ok [unfolded st] _ refl]
  have nil: "parseInput st [] = (0, st, [])" by (simp add: parseInput_def)
  show "measured st' \<and> rest = []" if "parseInput st a = (0, st', rest)"
    using that step [of a] nil ok measured_step [OF ok [unfolded st], of a]
    by (cases "a = []") (auto simp: st split: if_splits)
  show "parseInput st (a @ b) = parseInput st' b"
    if "parseInput st a = (0, st', rest)" "b \<noteq> []"
  proof (cases "a = []")
    case True
    with that nil show ?thesis by simp
  next
    case False
    let ?rq = "rq\<lparr>r_b_status := ONGOING, r_len := r_len rq + int (length a)\<rparr>"
    have lt: "length a < ?n" and st': "st' = (?rq, stream_write a fs)"
      using that(1) step [OF False] by (auto simp: st split: if_splits)
    have k: "?n - length a = nat (r_content_length ?rq - r_len ?rq)" using lt by simp
    note step' = parseInput_measured [OF measured_step [OF ok [unfolded st] lt] that(2) k,
        of "stream_write a fs"]
    show ?thesis
      using lt that(2) step [of "a @ b"] step' by (auto simp: st st')
  qed
  show "parseInput st (a @ b) = (res, st', rest @ b)"
    if "parseInput st a = (res, st', rest)" "res < 0"
  proof -
    have "a \<noteq> []" using that nil by auto
    with that step [of a] step [of "a @ b"] show ?thesis by (auto simp: st split: if_splits)
  qed
  show "res \<le> 0" if "parseInput st a = (res, st', rest)"
    using that step [of a] nil by (cases "a = []") (auto simp: st split: if_splits)
qed

text \<open>
  C13. A body of a given length: however the network cuts the bytes, once the announced
  number has arrived the stream holds exactly that many first bytes and is closed, the
  request is complete, and what follows is left unread.
\<close>

theorem measured_body_stored:
  assumes "measured (rq, Some (f\<lparr>os_open := True\<rparr>))" and "r_len rq = 0"
    and "r_content_length rq = int n" and "cs \<noteq> []" and "[] \<notin> set cs"
    and "n \<le> length (concat cs)"
  shows "\<exists>rq'. feed_all parseInput (rq, Some (f\<lparr>os_open := True\<rparr>)) cs =
       (-1, (rq', Some (f\<lparr>os_open := False, os_data := os_data f @ take n (concat cs)\<rparr>)),
        drop n (concat cs)) \<and>
     r_final_status rq' = COMPLETE \<and> r_b_status rq' = PTERM"
proof -
  have ne: "concat cs \<noteq> []" using assms(4,5) by (cases cs) auto
  have "feed_all parseInput (rq, Some (f\<lparr>os_open := True\<rparr>)) cs =
      parseInput (rq, Some (f\<lparr>os_open := True\<rparr>)) (concat cs)"
    using assms(1,4,5) by (rule measured_feed.feed_all_eq)
  also have "\<dots> = (-1, (rq\<lparr>r_b_status := PTERM, r_final_status := COMPLETE,
      r_len := r_content_length rq\<rparr>,
      Some (f\<lparr>os_open := False, os_data := os_data f @ take n (concat cs)\<rparr>)),
      drop n (concat cs))"
    using parseInput_measured [OF assms(1) ne, of n] assms(2,3,6)
    by (simp add: stream_write_def stream_close_def)
  finally show ?thesis by simp
qed

theorem measured_body_stored_witness:
  "\<exists>rq'. feed_all parseInput
       (new_Request\<lparr>r_status := PTERM, r_content_length := int 4\<rparr>,
        Some (\<lparr>os_open = False, os_data = []\<rparr>\<lparr>os_open := True\<rparr>)) [''ab'', ''cde''] =
       (-1, (rq', Some (\<lparr>os_open = False, os_data = []\<rparr>
                          \<lparr>os_open := False, os_data := os_data \<lparr>os_open = False, os_data = []\<rparr> @
                             take 4 (concat [''ab'', ''cde''])\<rparr>)),
        drop 4 (concat [''ab'', ''cde''])) \<and>
     r_final_status rq' = COMPLETE \<and> r_b_status rq' = PTERM"
  by (rule measured_body_stored)
    (simp_all add: measured_def body_open_def new_Request_def less_eq_final_status_def)

section \<open>Chunked bodies are decoded\<close>

definition chunk :: "string \<Rightarrow> string" where
  "chunk c = IntToString (int (length c)) 16 @ CRLF @ c @ CRLF"

definition last_chunk :: string where
  "last_chunk = ''0'' @ CRLF"

definition chunk_ok :: "string \<Rightarrow> bool" where
  "chunk_ok c \<longleftrightarrow> c \<noteq> [] \<and> length c < 2 ^ 31 \<and> find_sub CRLF c = None"

definition between_chunks :: "Request \<Rightarrow> bool" where
  "between_chunks rq \<longleftrightarrow> \<not> r_chunked_status rq \<and> r_line rq = []"

lemma find_CRLF_end: "find_sub CRLF c = None \<Longrightarrow> find_sub CRLF (c @ CRLF @ t) = Some (length c)"
proof (induction c)
  case Nil
  then show ?case by (simp add: CRLF_def)
next
  case (Cons x c)
  then have "find_sub CRLF c = None" "\<not> starts_with CRLF (x # c)" by (auto split: if_splits)
  moreover have "\<not> starts_with CRLF (x # c @ CRLF @ t)"
    using calculation(2) by (cases c) (auto simp: CRLF_def)
  ultimately show ?case using Cons.IH by simp
qed

lemma getLine_line:
  assumes "r_line rq = []" and "find_sub CRLF l = None"
  shows "getLine rq (l @ CRLF @ t) = (0, rq\<lparr>r_line := l\<rparr>, t)"
  using assms find_CRLF_end by (simp add: getLine_def)

lemma digits_no_CRLF: "find_sub CRLF (digits 16 n) = None"
proof -
  have "to_upper (CHR 0x0D) \<notin> set hexa"
    by (simp add: to_upper_def char_code_def hexa_def)
  then have "CHR 0x0D \<notin> set (digits 16 n)"
    using digits_hexa [of n] by auto
  then show ?thesis by (auto simp: find_sub_None CRLF_def)
qed

lemma getChunkedSize_chunk:
  assumes "between_chunks rq" and "n < 2 ^ 31"
  shows "getChunkedSize rq (digits 16 n @ CRLF @ t) =
    (0, rq\<lparr>r_chunked_body_size :=
             i32 (r_chunked_body_size rq - int (length (digits 16 n) + 2)),
           r_len := int n, r_line := [], r_chunked_status := True\<rparr>, t)"
proof -
  have "getLine rq (digits 16 n @ CRLF @ t) = (0, rq\<lparr>r_line := digits 16 n\<rparr>, t)"
    using assms(1) digits_no_CRLF by (intro getLine_line) (simp_all add: between_chunks_def)
  then show ?thesis
    using assms by (simp add: getChunkedSize_def between_chunks_def getInt_chunk_size)
qed

lemma chunk_loop_chunk:
  assumes rq: "between_chunks rq" and c: "chunk_ok c"
  shows "\<exists>rq'. between_chunks rq' \<and> chunk_loop rq fs (chunk c @ t) = chunk_loop rq' (stream_write c fs) t"
proof -
  let ?n = "length c"
  let ?b = "digits 16 ?n @ CRLF @ c @ CRLF @ t"
  let ?rq1 = "rq\<lparr>r_chunked_body_size :=
             i32 (r_chunked_body_size rq - int (length (digits 16 ?n) + 2)),
           r_len := int ?n, r_line := [], r_chunked_status := True\<rparr>"
  have n: "?n < 2 ^ 31" "?n \<noteq> 0" "find_sub CRLF c = None" using c by (auto simp: chunk_ok_def)
  have b: "chunk c @ t = ?b"
    using n by (simp add: chunk_def IntToString_def)
  have size: "getChunkedSize rq ?b = (0, ?rq1, c @ CRLF @ t)"
    using rq n(1) by (rule getChunkedSize_chunk)
  have line: "getLine ?rq1 (c @ CRLF @ t) = (0, ?rq1\<lparr>r_line := c\<rparr>, t)"
    using n(3) by (intro getLine_line) simp_all
  have "u64 (int ?n) = int ?n" using n(1) by (intro u64_nonneg) simp_all
  then have "chunk_loop rq fs ?b =
      chunk_loop (?rq1\<lparr>r_line := [], r_len := -1, r_chunked_status := False\<rparr>) (stream_write c fs) t"
    using size line n by (simp add: chunk_loop.simps [of rq fs ?b])
  then show ?thesis
    unfolding b by (intro exI conjI) (auto simp: between_chunks_def)
qed

lemma chunk_loop_chunks:
  "between_chunks rq \<Longrightarrow> list_all chunk_ok cs \<Longrightarrow>
   \<exists>rq'. chunk_loop rq fs (concat (map chunk cs) @ last_chunk @ t) =
     (-1, (rq', stream_close (stream_write (concat cs) fs)), t) \<and>
     r_b_status rq' = PTERM \<and> r_final_status rq' = TRAILER"
proof (induction cs arbitrary: rq fs)
  case Nil
  have z: "last_chunk @ t = digits 16 0 @ CRLF @ t"
    by (simp add: last_chunk_def digits.simps [of 16 0] digit_char_def char_of_def bit_iff_odd)
  have "last_chunk @ t \<noteq> []" by (simp add: last_chunk_def)
  then show ?case
    using getChunkedSize_chunk [OF Nil(1), of 0 t]
    by (simp add: chunk_loop.simps [of rq fs "digits 16 0 @ CRLF @ t"] z)
next
  case (Cons c cs)
  let ?t = "concat (map chunk cs) @ last_chunk @ t"
  from Cons.prems obtain rq' where rq': "between_chunks rq'"
    and "chunk_loop rq fs (chunk c @ ?t) = chunk_loop rq' (stream_write c fs) ?t"
    using chunk_loop_chunk [of rq c fs ?t] by auto
  with Cons.IH [OF rq', of "stream_write c fs"] Cons.prems show ?case by simp
qed

text \<open>
  The same however the network cuts it. Between two calls the parser waits either for the rest
  of a size line or for the rest of a chunk, and has kept what it has of it: \<open>waiting rq cs v\<close>
  says that the chunks \<open>cs\<close> are still to come and that their text, from the kept bytes on, is \<open>v\<close>.
\<close>

definition chunks_text :: "string list \<Rightarrow> string" where
  "chunks_text cs = concat (map chunk cs) @ last_chunk"

definition waiting :: "Request \<Rightarrow> string list \<Rightarrow> string \<Rightarrow> bool" where
  "waiting rq cs v \<longleftrightarrow>
     (if r_chunked_status rq
      then \<exists>c cs'. cs = c # cs' \<and> r_len rq = int (length c) \<and> v = c @ CRLF @ chunks_text cs'
      else v = chunks_text cs)"

text \<open>The parser has counted what it was given, and the limit is not below what is to come.\<close>

definition within :: "Request \<Rightarrow> nat \<Rightarrow> bool" where
  "within rq n \<longleftrightarrow> 0 \<le> r_chunked_body_size rq \<and> r_chunked_body_size rq + int n \<le> r_body_max_size rq \<and>
     r_body_max_size rq < 2 ^ 31 \<and>
     r_status rq = PTERM \<and> r_b_status rq = ONGOING \<and> r_chunked rq \<and> r_final_status rq \<le> TRAILER"

lemma within_checkSizes: "within rq n \<Longrightarrow> checkSizes rq = (0, rq)"
  by (simp add: within_def checkSizes_def)

lemma getLine_kept: "getLine rq a = getLine (rq\<lparr>r_line := []\<rparr>) (r_line rq @ a)"
  by (simp add: getLine_def Let_def split: option.split)

lemma getLine_incomplete:
  assumes "find_sub CRLF l = None" and "l @ CRLF @ t = r_line rq @ a @ b"
    and "length (r_line rq @ a) < length l + 2"
  shows "getLine rq a = (1, rq\<lparr>r_line := r_line rq @ a\<rparr>, [])"
proof -
  have "find_sub CRLF (r_line rq @ a) = None"
  proof (rule ccontr)
    assume "find_sub CRLF (r_line rq @ a) \<noteq> None"
    then obtain i where i: "find_sub CRLF (r_line rq @ a) = Some i" by blast
    from find_sub_append [OF this, of b] find_CRLF_end [OF assms(1), of t] assms(2) have "i = length l" by simp
    with find_sub_bound [OF i] assms(3) show False by (simp add: CRLF_def)
  qed
  then show ?thesis by (simp add: getLine_def)
qed

lemma getLine_complete:
  assumes "find_sub CRLF l = None" and "l @ CRLF @ t = r_line rq @ a"
  shows "getLine rq a = (0, rq\<lparr>r_line := l\<rparr>, t)"
  using getLine_line [of "rq\<lparr>r_line := []\<rparr>" l t] assms getLine_kept [of rq a] by simp

text \<open>Where in a line a cut falls.\<close>

lemma cut_line:
  assumes "l @ CRLF @ t = p @ b"
  obtains "length p < length l + 2" | y where "p = l @ CRLF @ y" "t = y @ b"
proof (cases "length p < length l + 2")
  case False
  then have "length (l @ CRLF) \<le> length p" by (simp add: CRLF_def)
  moreover from this have "(l @ CRLF) = take (length (l @ CRLF)) p"
    using arg_cong [OF assms, of "take (length (l @ CRLF))"] by simp
  ultimately obtain y where "p = l @ CRLF @ y" by (metis append.assoc append_take_drop_id)
  with assms that(2) show thesis by simp
qed (rule that(1))

text \<open>What the loop does once it knows the size of a chunk.\<close>

definition chunk_data :: "Request \<Rightarrow> ofstream option \<Rightarrow> string \<Rightarrow> int \<times> body_state \<times> string" where
  "chunk_data rq fs a =
     (case getLine rq a of (miss, rq2, a2) \<Rightarrow>
        if miss \<noteq> 0 then (case checkSizes rq2 of (e, rq3) \<Rightarrow> (e, (rq3, fs), a2))
        else if int (length (r_line rq2)) \<noteq> u64 (r_len rq2) then
          (case fillError 400 ''Size error in chunked body'' rq2 of (e, rq3) \<Rightarrow> (e, (rq3, fs), a2))
        else chunk_loop (rq2\<lparr>r_line := [], r_len := -1, r_chunked_status := False\<rparr>) (stream_write (r_line rq2) fs) a2)"

lemma chunk_loop_data:
  "a \<noteq> [] \<Longrightarrow> r_chunked_status rq \<Longrightarrow> r_len rq \<noteq> 0 \<Longrightarrow> chunk_loop rq fs a = chunk_data rq fs a"
  by (simp add: chunk_loop.simps [of rq fs a] getChunkedSize_def chunk_data_def)

lemma chunk_data_complete:
  assumes "chunk_ok c" and "r_len rq = int (length c)" and "c @ CRLF @ t = r_line rq @ a"
  shows "chunk_data rq fs a =
    chunk_loop (rq\<lparr>r_line := [], r_len := -1, r_chunked_status := False\<rparr>) (stream_write c fs) t"
proof -
  have "u64 (int (length c)) = int (length c)" using assms(1) by (intro u64_nonneg) (simp_all add: chunk_ok_def)
  then show ?thesis
    using getLine_complete [OF _ assms(3)] assms(1,2) by (simp add: chunk_data_def chunk_ok_def)
qed

text \<open>A size line that has come is taken off the count; one that has not is kept.\<close>

lemma digits_length: "n < 16 ^ Suc k \<Longrightarrow> length (digits 16 n) \<le> Suc k"
proof (induction k arbitrary: n)
  case 0
  then show ?case by (simp add: digits.simps)
next
  case (Suc k)
  then have "n div 16 < 16 ^ Suc k" by (simp add: less_mult_imp_div_less)
  with Suc.IH [of "n div 16"] show ?case by (simp add: digits.simps [of 16 n])
qed

definition sized_chunk :: "nat \<Rightarrow> Request \<Rightarrow> Request" where
  "sized_chunk n rq = rq\<lparr>r_chunked_body_size :=
             i32 (r_chunked_body_size rq - int (length (digits 16 n) + 2)),
           r_len := int n, r_line := [], r_chunked_status := True\<rparr>"

lemma size_complete:
  assumes "\<not> r_chunked_status rq" and "n < 2 ^ 31" and "digits 16 n @ CRLF @ t = r_line rq @ a"
    and "a \<noteq> []" and "n \<noteq> 0"
  shows "chunk_loop rq fs a = chunk_data (sized_chunk n rq) fs t"
proof -
  have "getLine rq a = (0, rq\<lparr>r_line := digits 16 n\<rparr>, t)"
    using getLine_complete [OF digits_no_CRLF assms(3)] .
  then have "getChunkedSize rq a = (0, sized_chunk n rq, t)"
    using assms(1,2) by (simp add: getChunkedSize_def getInt_chunk_size sized_chunk_def)
  then show ?thesis
    using assms(4,5) by (simp add: chunk_loop.simps [of rq fs a] chunk_data_def sized_chunk_def)
qed

lemma size_incomplete:
  assumes "\<not> r_chunked_status rq" and "digits 16 n @ CRLF @ t = r_line rq @ a @ b" and "n < 2 ^ 31"
    and "length (r_line rq @ a) < length (digits 16 n) + 2" and "a \<noteq> []" and "within rq m"
  shows "chunk_loop rq fs a = (0, (rq\<lparr>r_line := r_line rq @ a\<rparr>, fs), [])"
proof -
  let ?rq = "rq\<lparr>r_line := r_line rq @ a\<rparr>"
  have gl: "getLine rq a = (1, ?rq, [])" by (rule getLine_incomplete [OF digits_no_CRLF assms(2,4)])
  have "n < 16 ^ Suc 7" using assms(3) by simp
  then have "length (r_line rq @ a) \<le> BUFFER_SIZE" using digits_length [of n 7] assms(4) by (simp add: BUFFER_SIZE_def)
  then have g: "getChunkedSize rq a = (0, ?rq, [])" using assms(1) gl by (simp add: getChunkedSize_def)
  have none: "getLine ?rq [] = (1, ?rq, [])" using getLine_kept [of rq a] gl getLine_kept [of ?rq "[]"] by simp
  have "checkSizes ?rq = (0, ?rq)" using assms(6) by (intro within_checkSizes [of _ m]) (simp add: within_def)
  then show ?thesis using assms(1,5) by (simp add: chunk_loop.simps [of rq fs a] g none)
qed


definition paused :: "string list \<Rightarrow> string \<Rightarrow> ofstream option \<Rightarrow> int \<times> body_state \<times> string \<Rightarrow> bool" where
  "paused cs b fs r \<longleftrightarrow>
     (\<exists>rq cs' d. r = (0, (rq, stream_write d fs), []) \<and> concat cs = d @ concat cs' \<and> list_all chunk_ok cs' \<and>
        waiting rq cs' (r_line rq @ b) \<and> within rq (length b) \<and> int (length (r_line rq)) \<le> r_chunked_body_size rq)"

lemma paused_write: "paused cs b (stream_write c fs) r \<Longrightarrow> paused (c # cs) b fs r"
  unfolding paused_def by (metis append.assoc concat.simps(2) stream_write_twice)

lemma chunk_ok_facts: "chunk_ok c \<Longrightarrow> find_sub CRLF c = None" "chunk_ok c \<Longrightarrow> c \<noteq> []" "chunk_ok c \<Longrightarrow> length c < 2 ^ 31"
  by (simp_all add: chunk_ok_def)

lemma chunks_text_Cons: "length c < 2 ^ 31 \<Longrightarrow> chunks_text (c # cs) = digits 16 (length c) @ CRLF @ c @ CRLF @ chunks_text cs"
  by (simp add: chunks_text_def chunk_def IntToString_def)

lemma chunks_text_Nil: "chunks_text [] = digits 16 0 @ CRLF @ []"
  by (simp add: chunks_text_def last_chunk_def digits.simps [of 16 0] digit_char_def char_of_def bit_iff_odd)

lemma within_line: "within (rq\<lparr>r_line := l\<rparr>) n = within rq n"
  by (simp add: within_def)

lemma within_sized:
  assumes "within rq n" and "int (length (digits 16 k) + 2 + length y) \<le> r_chunked_body_size rq"
  shows "within (sized_chunk k rq) n" "int (length y) \<le> r_chunked_body_size (sized_chunk k rq)"
proof -
  have "i32 (r_chunked_body_size rq - int (length (digits 16 k) + 2)) = r_chunked_body_size rq - int (length (digits 16 k) + 2)"
    using assms by (intro i32_nonneg) (simp_all add: within_def)
  with assms show "within (sized_chunk k rq) n" "int (length y) \<le> r_chunked_body_size (sized_chunk k rq)"
    by (simp_all add: within_def sized_chunk_def)
qed

lemma chunk_loop_pause:
  assumes "waiting rq cs (r_line rq @ a @ b)" and "list_all chunk_ok cs" and "within rq (length b)"
    and "int (length (r_line rq @ a)) \<le> r_chunked_body_size rq" and "b \<noteq> []"
  shows "paused cs b fs (chunk_loop rq fs a)"
  using assms
proof (induction cs arbitrary: rq a fs)
  case Nil
  then have rq: "\<not> r_chunked_status rq" "digits 16 0 @ CRLF @ [] = r_line rq @ a @ b"
    by (auto simp: waiting_def chunks_text_Nil split: if_splits)
  have short: "length (r_line rq @ a) < length (digits 16 0) + 2"
    using arg_cong [OF rq(2), of length] Nil.prems(5) by (cases b) (simp_all add: CRLF_def)
  let ?rq = "rq\<lparr>r_line := r_line rq @ a\<rparr>"
  have "chunk_loop rq fs a = (0, (?rq, fs), [])"
  proof (cases "a = []")
    case True
    then show ?thesis using Nil.prems(3) by (simp add: chunk_loop.simps [of rq fs "[]"] within_def)
  next
    case False
    from size_incomplete [OF rq _ short False Nil.prems(3)] show ?thesis by simp
  qed
  moreover have "waiting ?rq [] (r_line ?rq @ b)" using Nil.prems(1) rq(1) by (simp add: waiting_def)
  ultimately show ?case
    unfolding paused_def using Nil.prems(3,4) by (intro exI [of _ ?rq] exI [of _ "[]"] exI [of _ "[]"]) (simp add: within_line)
next
  case (Cons c cs)
  have c: "chunk_ok c" and cs: "list_all chunk_ok cs" using Cons.prems(2) by simp_all
  note facts = chunk_ok_facts [OF c]
  have data: "paused (c # cs) b fs (chunk_data rq1 fs x)"
    if rq1: "r_chunked_status rq1" "r_len rq1 = int (length c)" and whole: "c @ CRLF @ chunks_text cs = (r_line rq1 @ x) @ b"
      and w: "within rq1 (length b)" "int (length (r_line rq1 @ x)) \<le> r_chunked_body_size rq1" for rq1 x
  proof (rule cut_line [OF whole])
    assume short: "length (r_line rq1 @ x) < length c + 2"
    let ?rq = "rq1\<lparr>r_line := r_line rq1 @ x\<rparr>"
    have "getLine rq1 x = (1, ?rq, [])" using whole by (intro getLine_incomplete [OF facts(1) _ short, of _ b]) simp
    moreover have "checkSizes ?rq = (0, ?rq)" using w(1) within_line by (intro within_checkSizes) blast
    ultimately have "chunk_data rq1 fs x = (0, (?rq, fs), [])" by (simp add: chunk_data_def)
    moreover have "waiting ?rq (c # cs) (r_line ?rq @ b)" using rq1 whole by (simp add: waiting_def)
    ultimately show ?thesis
      unfolding paused_def using Cons.prems(2) w by (intro exI [of _ ?rq] exI [of _ "c # cs"] exI [of _ "[]"]) (simp add: within_line)
  next
    fix y
    assume y: "r_line rq1 @ x = c @ CRLF @ y" "chunks_text cs = y @ b"
    let ?rq = "rq1\<lparr>r_line := [], r_len := -1, r_chunked_status := False\<rparr>"
    have "chunk_data rq1 fs x = chunk_loop ?rq (stream_write c fs) y"
      using c rq1(2) y(1) [symmetric] by (rule chunk_data_complete)
    moreover have "paused cs b (stream_write c fs) (chunk_loop ?rq (stream_write c fs) y)"
    proof (rule Cons.IH)
      show "waiting ?rq cs (r_line ?rq @ y @ b)" using y(2) by (simp add: waiting_def)
      show "within ?rq (length b)" using w(1) by (simp add: within_def)
      show "int (length (r_line ?rq @ y)) \<le> r_chunked_body_size ?rq"
        using w(2) arg_cong [OF y(1), of length] by simp
    qed (rule cs, rule Cons.prems(5))
    ultimately show ?thesis by (simp add: paused_write)
  qed
  show ?case
  proof (cases "a = []")
    case True
    then have "chunk_loop rq fs a = (0, (rq, fs), [])"
      using Cons.prems(3) by (simp add: chunk_loop.simps [of rq fs "[]"] within_def)
    then show ?thesis
      unfolding paused_def using Cons.prems True by (intro exI [of _ rq] exI [of _ "c # cs"] exI [of _ "[]"]) simp
  next
    case a: False
    show ?thesis
    proof (cases "r_chunked_status rq")
      case True
      then have "r_len rq = int (length c)" "c @ CRLF @ chunks_text cs = (r_line rq @ a) @ b"
        using Cons.prems(1) by (simp_all add: waiting_def)
      then show ?thesis
        using data [OF True] Cons.prems(3,4) chunk_loop_data [OF a True] facts(2) by simp
    next
      case False
      let ?n = "length c"
      have whole: "digits 16 ?n @ CRLF @ (c @ CRLF @ chunks_text cs) = (r_line rq @ a) @ b"
        using Cons.prems(1) False chunks_text_Cons [OF facts(3)] by (simp add: waiting_def)
      show ?thesis
      proof (rule cut_line [OF whole])
        assume short: "length (r_line rq @ a) < length (digits 16 ?n) + 2"
        let ?rq = "rq\<lparr>r_line := r_line rq @ a\<rparr>"
        have "chunk_loop rq fs a = (0, (?rq, fs), [])"
          using whole by (intro size_incomplete [OF False _ facts(3) short a Cons.prems(3)]) simp
        moreover have "waiting ?rq (c # cs) (r_line ?rq @ b)" using Cons.prems(1) False by (simp add: waiting_def)
        ultimately show ?thesis
          unfolding paused_def using Cons.prems by (intro exI [of _ ?rq] exI [of _ "c # cs"] exI [of _ "[]"]) (simp add: within_line)
      next
        fix y
        assume y: "r_line rq @ a = digits 16 ?n @ CRLF @ y" "c @ CRLF @ chunks_text cs = y @ b"
        have "chunk_loop rq fs a = chunk_data (sized_chunk ?n rq) fs y"
          using False facts(3) y(1) [symmetric] a by (rule size_complete) (use facts(2) in simp)
        moreover have "int (length (digits 16 ?n) + 2 + length y) \<le> r_chunked_body_size rq"
          using Cons.prems(4) arg_cong [OF y(1), of length] by (simp add: CRLF_def)
        from within_sized [OF Cons.prems(3) this]
        have "paused (c # cs) b fs (chunk_data (sized_chunk ?n rq) fs y)"
          using y(2) by (intro data) (simp_all add: sized_chunk_def)
        ultimately show ?thesis by simp
      qed
    qed
  qed
qed

lemma chunk_loop_complete:
  assumes "waiting rq cs v" and "list_all chunk_ok cs" and "v @ t = r_line rq @ a" and "a \<noteq> []"
  shows "\<exists>rq'. chunk_loop rq fs a = (-1, (rq', stream_close (stream_write (concat cs) fs)), t) \<and>
    r_b_status rq' = PTERM \<and> r_final_status rq' = TRAILER"
proof (cases "r_chunked_status rq")
  case True
  then obtain c cs' where c: "cs = c # cs'" "r_len rq = int (length c)" "v = c @ CRLF @ chunks_text cs'"
    using assms(1) by (auto simp: waiting_def)
  let ?rq = "rq\<lparr>r_line := [], r_len := -1, r_chunked_status := False\<rparr>"
  have ok: "chunk_ok c" "list_all chunk_ok cs'" using assms(2) c(1) by simp_all
  have "chunk_loop rq fs a = chunk_data rq fs a"
    using chunk_loop_data [OF assms(4) True] c(2) chunk_ok_facts(2) [OF ok(1)] by simp
  also have "\<dots> = chunk_loop ?rq (stream_write c fs) (chunks_text cs' @ t)"
    using ok(1) c(2) by (rule chunk_data_complete) (use assms(3) c(3) in simp)
  finally show ?thesis
    using chunk_loop_chunks [of ?rq cs' "stream_write c fs" t] ok(2) c(1)
    by (simp add: between_chunks_def chunks_text_def)
next
  case False
  let ?rq = "rq\<lparr>r_line := []\<rparr>"
  have whole: "r_line rq @ a = concat (map chunk cs) @ last_chunk @ t"
    using assms(1,3) False by (simp add: waiting_def chunks_text_def)
  have "getChunkedSize rq a = getChunkedSize ?rq (r_line rq @ a)"
    using False getLine_kept [of rq a] by (simp add: getChunkedSize_def)
  then have "chunk_loop rq fs a = chunk_loop ?rq fs (r_line rq @ a)"
    using assms(4) by (simp add: chunk_loop.simps [of rq fs a] chunk_loop.simps [of ?rq fs "r_line rq @ a"])
  then show ?thesis
    using chunk_loop_chunks [of ?rq cs fs t] assms(2) False by (simp add: whole between_chunks_def)
qed


lemma parseInput_chunked:
  assumes "body_open rq" and "r_chunked rq" and "a \<noteq> []"
    and "chunk_loop (rq\<lparr>r_b_status := ONGOING, r_chunked_body_size := i32 (r_chunked_body_size rq + int (length a))\<rparr>) fs a =
      (res, (rq1, fs1), rest)" and "res = 0 \<Longrightarrow> r_b_status rq1 \<noteq> PTERM"
  shows "parseInput (rq, fs) a = (res, (rq1, fs1), rest)"
  using body_open_parseInput [OF assms(1,3), of fs] assms(2,4,5)
  by (auto simp: parseChunked_def parseTrailerHeaders_def)

lemma chunks_fed:
  "waiting rq cs v \<Longrightarrow> list_all chunk_ok cs \<Longrightarrow> r_line rq @ concat ps = v @ t \<Longrightarrow> length (r_line rq) < length v \<Longrightarrow> [] \<notin> set ps \<Longrightarrow>
   body_open rq \<Longrightarrow> within (rq\<lparr>r_b_status := ONGOING\<rparr>) (length v - length (r_line rq)) \<Longrightarrow> int (length (r_line rq)) \<le> r_chunked_body_size rq \<Longrightarrow>
   \<exists>rq'. feed_all parseInput (rq, fs) ps = (-1, (rq', stream_close (stream_write (concat cs) fs)), t) \<and>
     r_b_status rq' = PTERM \<and> r_final_status rq' = TRAILER"
proof (induction ps arbitrary: rq cs v fs)
  case Nil
  then show ?case using arg_cong [OF Nil.prems(3), of length] by simp
next
  case (Cons a ps)
  let ?l = "r_line rq"
  let ?rq = "rq\<lparr>r_b_status := ONGOING, r_chunked_body_size := i32 (r_chunked_body_size rq + int (length a))\<rparr>"
  have a: "a \<noteq> []" and chunked: "r_chunked rq" using Cons.prems(5,7) by (auto simp: within_def)
  have wait: "waiting ?rq cs v" using Cons.prems(1) by (simp add: waiting_def)
  show ?case
  proof (cases "length v \<le> length (?l @ a)")
    case True
    obtain u where u: "?l @ a = v @ u" "t = u @ concat ps"
    proof (rule that)
      have whole: "v @ t = (?l @ a) @ concat ps" using Cons.prems(3) by simp
      show "?l @ a = v @ drop (length v) (?l @ a)"
        using True arg_cong [OF whole, of "take (length v)"] by (metis append_eq_conv_conj append_take_drop_id take_append diff_is_0_eq take0 append_Nil2)
      show "t = drop (length v) (?l @ a) @ concat ps"
        using True arg_cong [OF whole, of "drop (length v)"] by simp
    qed
    from chunk_loop_complete [OF wait Cons.prems(2) _ a, of u fs] u(1) obtain rq' where
      "chunk_loop ?rq fs a = (-1, (rq', stream_close (stream_write (concat cs) fs)), u)"
      "r_b_status rq' = PTERM" "r_final_status rq' = TRAILER" by auto
    with parseInput_chunked [OF Cons.prems(6) chunked a this(1)] show ?thesis by (simp add: u(2))
  next
    case False
    define b where "b = drop (length (?l @ a)) v"
    have whole: "v @ t = (?l @ a) @ concat ps" using Cons.prems(3) by simp
    have v: "v = (?l @ a) @ b"
      using False arg_cong [OF whole, of "take (length (?l @ a))"] unfolding b_def
      by (metis append_take_drop_id append_eq_conv_conj nat_le_linear take_append diff_is_0_eq take0 append_Nil2)
    moreover have "concat ps = b @ t" using whole v by simp
    ultimately have b: "v = ?l @ a @ b" "b \<noteq> []" "concat ps = b @ t" using False by auto
    have fits: "i32 (r_chunked_body_size rq + int (length a)) = r_chunked_body_size rq + int (length a)"
      using Cons.prems(7,8) b(1) by (intro i32_nonneg) (simp_all add: within_def)
    have "paused cs b fs (chunk_loop ?rq fs a)"
    proof (rule chunk_loop_pause)
      show "waiting ?rq cs (r_line ?rq @ a @ b)" using wait b(1) by simp
      show "within ?rq (length b)" using Cons.prems(7) b(1) fits by (simp add: within_def)
      show "int (length (r_line ?rq @ a)) \<le> r_chunked_body_size ?rq" using Cons.prems(8) fits by simp
    qed (rule Cons.prems(2), rule b(2))
    then obtain rq1 cs1 d where run: "chunk_loop ?rq fs a = (0, (rq1, stream_write d fs), [])"
      and d: "concat cs = d @ concat cs1" "list_all chunk_ok cs1" "waiting rq1 cs1 (r_line rq1 @ b)"
      and w: "within rq1 (length b)" "int (length (r_line rq1)) \<le> r_chunked_body_size rq1"
      unfolding paused_def by blast
    have ongoing: "r_b_status rq1 = ONGOING" "body_open rq1" "rq1\<lparr>r_b_status := ONGOING\<rparr> = rq1"
      using w(1) by (simp_all add: within_def body_open_def)
    have "\<exists>rq'. feed_all parseInput (rq1, stream_write d fs) ps =
        (-1, (rq', stream_close (stream_write (concat cs1) (stream_write d fs))), t) \<and>
        r_b_status rq' = PTERM \<and> r_final_status rq' = TRAILER"
      using Cons.prems(5) b w d ongoing by (intro Cons.IH [of rq1 cs1 "r_line rq1 @ b"]) (simp_all add: within_def)
    then show ?thesis
      using parseInput_chunked [OF Cons.prems(6) chunked a run] ongoing(1) d(1) by simp
  qed
qed

text \<open>
  C12. A chunked body whose text is not longer than the limit, of nonempty chunks without a line
  break, each after its size in hexadecimal, is decoded to the concatenation of its chunks
  however the network cuts it into pieces: the stream is closed, and what follows the last
  size line is left unread.
\<close>

theorem chunked_body_decoded:
  assumes "body_open rq" and "r_status rq = PTERM" and "r_chunked rq" and "between_chunks rq" and "list_all chunk_ok cs"
    and "r_chunked_body_size rq = 0" and "int (length (chunks_text cs)) \<le> r_body_max_size rq" and "r_body_max_size rq < 2 ^ 31"
    and "concat ps = chunks_text cs @ t" and "[] \<notin> set ps"
  shows "\<exists>rq'. feed_all parseInput (rq, Some \<lparr>os_open = True, os_data = d\<rparr>) ps =
       (-1, (rq', Some \<lparr>os_open = False, os_data = d @ concat cs\<rparr>), t) \<and>
     r_b_status rq' = PTERM \<and> r_final_status rq' = TRAILER"
proof -
  have line: "r_line rq = []" "\<not> r_chunked_status rq" using assms(4) by (simp_all add: between_chunks_def)
  then have "waiting rq cs (chunks_text cs)" "chunks_text cs \<noteq> []"
    by (simp_all add: waiting_def chunks_text_def last_chunk_def)
  moreover have "within (rq\<lparr>r_b_status := ONGOING\<rparr>) (length (chunks_text cs))"
    using assms(1,2,3,6,7,8) by (simp add: within_def body_open_def)
  ultimately show ?thesis
    using chunks_fed [of rq cs "chunks_text cs" ps t "Some \<lparr>os_open = True, os_data = d\<rparr>"] assms line
    by (auto simp: stream_write_def stream_close_def)
qed

theorem chunked_body_decoded_witness:
  "\<exists>rq'. feed_all parseInput (new_Request\<lparr>r_status := PTERM, r_chunked := True, r_body_max_size := 40\<rparr>,
         Some \<lparr>os_open = True, os_data = []\<rparr>) [''5'', CRLF @ ''hel'', ''lo'' @ [CHR 0x0D], [CHR 0x0A] @ ''6'' @ CRLF @ '' world'' @ CRLF @ ''0'' @ CRLF @ CRLF] =
       (-1, (rq', Some \<lparr>os_open = False, os_data = [] @ concat [''hello'', '' world'']\<rparr>), CRLF) \<and>
     r_b_status rq' = PTERM \<and> r_final_status rq' = TRAILER"
proof (rule chunked_body_decoded)
  show "concat [''5'', CRLF @ ''hel'', ''lo'' @ [CHR 0x0D], [CHR 0x0A] @ ''6'' @ CRLF @ '' world'' @ CRLF @ ''0'' @ CRLF @ CRLF] =
      chunks_text [''hello'', '' world''] @ CRLF"
    by code_simp
  show "int (length (chunks_text [''hello'', '' world''])) \<le>
      r_body_max_size (new_Request\<lparr>r_status := PTERM, r_chunked := True, r_body_max_size := 40\<rparr>)"
    by code_simp
qed (simp_all add: body_open_def between_chunks_def new_Request_def less_eq_final_status_def chunk_ok_def CRLF_def)

text \<open>
  The limit is compared only when the buffer ends before the body does: a larger body that
  comes at once is stored whole.
\<close>

lemma chunked_limit_not_applied:
  "case parseInput (new_Request\<lparr>r_status := PTERM, r_chunked := True, r_body_max_size := 1\<rparr>, None)
     (chunks_text [''hello'', '' world'']) of (res, st, rest) \<Rightarrow> res = -1"
  by code_simp

text \<open>
  The decoder looks for the line break before it looks at the size, so a chunk that contains
  one is rejected although its announced size is right.
\<close>

lemma chunk_with_line_break_rejected:
  "fst (parseInput (new_Request\<lparr>r_status := PTERM, r_chunked := True, r_body_max_size := 100\<rparr>, None)
     (chunk (''a'' @ CRLF @ ''b'') @ last_chunk @ CRLF)) = 400"
  by code_simp

section \<open>Trailers are never parsed\<close>

lemma checkSizes_zero: "checkSizes rq = (0, rq') \<Longrightarrow> rq' = rq"
  using checkSizes_nonneg by blast

lemma getLine_b_status: "getLine rq a = (res, rq', b) \<Longrightarrow> r_b_status rq' = r_b_status rq"
  by (auto simp: getLine_def Let_def split: option.splits)

lemma getChunkedSize_b_status:
  "getChunkedSize rq a = (res, rq', b) \<Longrightarrow> r_b_status rq' = r_b_status rq"
  by (auto simp: getChunkedSize_def fillError_def split: if_splits prod.splits
      dest!: getLine_b_status)

lemma chunk_loop_b_status:
  "chunk_loop rq fs a = (0, (rq', fs'), b) \<Longrightarrow> r_b_status rq' = r_b_status rq"
proof (induction rq fs a arbitrary: rq' fs' rule: chunk_loop.induct)
  case (1 rq fs a)
  show ?case
  proof (cases "a = []")
    case True
    with 1 show ?thesis by (auto simp: chunk_loop.simps [of rq fs "[]"] fillError_def split: if_splits)
  next
    case False
    obtain e rq1 a1 where g: "getChunkedSize rq a = (e, rq1, a1)" by (cases "getChunkedSize rq a") auto
    obtain m rq2 a2 where l: "getLine rq1 a1 = (m, rq2, a2)" by (cases "getLine rq1 a1") auto
    note st = getChunkedSize_b_status [OF g] getLine_b_status [OF l]
    have err: "e \<noteq> 0 \<Longrightarrow> getError rq1 \<noteq> 0"
      using g by (auto simp: getChunkedSize_def fillError_def getError_def split: if_splits prod.splits)
    let ?next = "chunk_loop (rq2\<lparr>r_line := [], r_len := -1, r_chunked_status := False\<rparr>)
        (stream_write (r_line rq2) fs) a2"
    have "e = 0" "\<not> (r_chunked_status rq1 \<and> r_len rq1 = 0)"
      using "1.prems" False g err by (auto simp: chunk_loop.simps [of rq fs a] split: if_splits)
    with False g l have unfold: "chunk_loop rq fs a =
        (if m \<noteq> 0 then (case checkSizes rq2 of (e, rq3) \<Rightarrow> (e, (rq3, fs), a2))
         else if int (length (r_line rq2)) \<noteq> u64 (r_len rq2) then
           (case fillError 400 ''Size error in chunked body'' rq2 of (e, rq3) \<Rightarrow> (e, (rq3, fs), a2))
         else ?next)"
      by (simp add: chunk_loop.simps [of rq fs a]) blast
    show ?thesis
    proof (cases "m = 0")
      case True
      with "1.prems" unfold have "?next = (0, (rq', fs'), b)"
        and u: "int (length (r_line rq2)) = u64 (r_len rq2)"
        by (auto simp: fillError_def split: if_splits)
      moreover have "?next = (0, (rq', fs'), b) \<Longrightarrow> r_b_status rq' = r_b_status rq2"
        using "1.IH" [OF False g [symmetric] refl _ _ l [symmetric] refl] True u \<open>e = 0\<close>
          \<open>\<not> (r_chunked_status rq1 \<and> r_len rq1 = 0)\<close> by simp
      ultimately show ?thesis using st by simp
    next
      case False
      with "1.prems" unfold have "checkSizes rq2 = (0, rq')" by (simp split: prod.splits)
      with st show ?thesis by (auto dest: checkSizes_zero)
    qed
  qed
qed

text \<open>
  \<open>parseInput\<close> never reaches the trailer parser: on an unfinished request it does
  what \<open>parseBody\<close> does, whose every completion is reported at once.
\<close>

theorem parseInput_is_parseBody:
  "parseInput st buffer =
     (if TRAILER < r_final_status (fst st) \<or> buffer = [] then (0, st, buffer)
      else parseBody st buffer)"
proof (cases "TRAILER < r_final_status (fst st) \<or> buffer = []")
  case False
  obtain rq fs where st: "st = (rq, fs)" by (cases st)
  obtain res rq1 fs1 b1 where pb: "parseBody st buffer = (res, (rq1, fs1), b1)"
    by (cases "parseBody st buffer") auto
  have "r_b_status rq1 \<noteq> PTERM" if "res = 0"
    using pb that
    by (auto simp: parseBody_def st parseChunked_def parseMesured_def Let_def
        split: if_splits dest: chunk_loop_b_status)
  with False pb show ?thesis by (auto simp: parseInput_def parseTrailerHeaders_def)
qed (simp add: parseInput_def)

end
