(* ===== verification/Uri.thy ===== *)
theory Uri
  imports Types Format
begin

text \<open>
  Uri handling of srcs/Request.cpp: scheme and delimiter pruning, path normalisation
  (\<open>checkPath\<close>), splitting into root, file name and extension (\<open>prunePath\<close>), percent
  decoding, \<open>parseURI\<close> and \<open>extractPathInfo\<close>.

  The lemmas show that \<open>checkPath\<close> never lets the path it returns climb above the root,
  that percent decoding inverts percent encoding, and that \<open>parseURI\<close>, which decodes after
  the check, nevertheless produces climbing paths from encoded dots.
\<close>

section \<open>Pruning\<close>

definition pruneScheme :: "string \<Rightarrow> int \<times> string" where
  "pruneScheme uri =
     (case find_sub ''://'' uri of
        None \<Rightarrow> (0, uri)
      | Some n \<Rightarrow> if take (n + 3) uri \<noteq> ''http://'' then (1, uri) else (0, drop (n + 3) uri))"

definition pruneDelim :: "string \<Rightarrow> string \<Rightarrow> string" where
  "pruneDelim uri delim =
     (case find_sub delim uri of
        None \<Rightarrow> uri
      | Some idx \<Rightarrow> if idx + 1 \<noteq> length uri then drop (idx + length delim) uri else uri)"

text \<open>The path, and the rest of the uri, which becomes the query.\<close>

definition extractPath :: "string \<Rightarrow> string \<times> string" where
  "extractPath uri =
     (case find_sub ''?'' uri of
        Some idx \<Rightarrow> (take idx uri, drop (idx + 1) uri)
      | None \<Rightarrow> (uri, []))"

section \<open>checkPath\<close>

text \<open>\<open>while ((idx = path.find("//")) != npos) path.erase(idx, 1)\<close>\<close>

function collapse_slashes :: "string \<Rightarrow> string" where
  "collapse_slashes s =
     (case find_sub ''//'' s of
        None \<Rightarrow> s
      | Some idx \<Rightarrow> collapse_slashes (take idx s @ drop (idx + 1) s))"
  by pat_completeness auto
termination
  by (relation "measure length") (auto dest: find_sub_bound)

text \<open>\<open>while ((idx = path.find("/./")) != npos) path.erase(idx, 2)\<close>\<close>

function collapse_dots :: "string \<Rightarrow> string" where
  "collapse_dots s =
     (case find_sub ''/./'' s of
        None \<Rightarrow> s
      | Some idx \<Rightarrow> collapse_dots (take idx s @ drop (idx + 2) s))"
  by pat_completeness auto
termination
  by (relation "measure length") (auto dest: find_sub_bound)

declare collapse_slashes.simps [simp del] collapse_dots.simps [simp del]

text \<open>
  The segment loop: \<open>Inl\<close> is the early \<open>return (1)\<close>, with what is left of the path,
  \<open>Inr\<close> the collected segments and the last one.
\<close>

function segments :: "string \<Rightarrow> string list \<Rightarrow> string + string list \<times> string" where
  "segments path v =
     (case find_sub ''/'' path of
        None \<Rightarrow> Inr (v, path)
      | Some idx \<Rightarrow>
          (let subpath = take idx path; path' = drop (idx + 1) path in
           if subpath = ''..'' \<and> v = [] then Inl path'
           else if subpath = ''..'' then segments path' (butlast v)
           else segments path' (v @ [subpath])))"
  by pat_completeness auto
termination
  by (relation "measure (\<lambda>(path, v). length path)") (auto dest: find_sub_bound)

declare segments.simps [simp del]

text \<open>\<open>path += "/" + *it\<close> over all segments, then \<open>path.erase(0, 1)\<close>.\<close>

definition join_path :: "string list \<Rightarrow> string" where
  "join_path v = drop 1 (concat (map (\<lambda>s. CHR ''/'' # s) v))"

definition checkPath :: "URI \<Rightarrow> int \<times> URI" where
  "checkPath u =
     (let p0 = (if char_at (u_path u) 0 = CHR ''.'' \<and> char_at (u_path u) 1 = CHR ''/''
                then drop 2 (u_path u) else u_path u);
          p1 = collapse_dots (collapse_slashes p0)
      in case segments p1 [] of
           Inl rest \<Rightarrow> (1, u\<lparr>u_path := rest\<rparr>)
         | Inr (v, rest) \<Rightarrow> (0, u\<lparr>u_path := join_path (v @ [rest])\<rparr>))"

section \<open>prunePath\<close>

definition prunePath :: "URI \<Rightarrow> URI" where
  "prunePath u =
     (let path = u_path u in
      if path = [] \<or> last path = CHR ''/'' then
        u\<lparr>u_root := path, u_extension := ''/'', u_filename := []\<rparr>
      else
        (let slash = rfind_sub ''/'' path;
             root = (case slash of
                       None \<Rightarrow> ''/''
                     | Some idx \<Rightarrow> if idx = 0 then ''/'' else take (idx + 1) path);
             filename = (case slash of None \<Rightarrow> path | Some idx \<Rightarrow> drop (idx + 1) path);
             extension = (case rfind_sub ''.'' filename of
                            None \<Rightarrow> []
                          | Some idx \<Rightarrow> drop idx filename)
         in u\<lparr>u_root := root, u_filename := filename, u_extension := extension\<rparr>))"

section \<open>Percent decoding\<close>

lemma find_from_bounds:
  "find_from n s pos = Some i \<Longrightarrow> pos \<le> i \<and> i + length n \<le> length s"
  by (auto simp: find_from_def dest: find_sub_bound split: if_splits)

text \<open>
  \<open>len\<close> of the source always equals \<open>str.size()\<close>; \<open>len - 2\<close> is an unsigned
  subtraction.
\<close>

function percent_loop :: "string \<Rightarrow> nat \<Rightarrow> string" where
  "percent_loop str idx =
     (case find_from ''%'' str idx of
        None \<Rightarrow> str
      | Some cur \<Rightarrow>
          if int cur < u64 (int (length str) - 2) then
            (case getInt (take 2 (drop (cur + 1) str)) 16 0 of (err, res) \<Rightarrow>
               percent_loop
                 (if err = 0
                  then take cur str @ [char_of (nat (res mod 256))] @ drop (cur + 3) str
                  else str) (cur + 1))
          else str)"
  by pat_completeness auto

termination
  by (relation "measure (\<lambda>(str, idx). length str - idx)") (auto dest: find_from_bounds)

declare percent_loop.simps [simp del]

definition translatePercent :: "string \<Rightarrow> string" where
  "translatePercent str = percent_loop str 0"

definition prunePercent :: "URI \<Rightarrow> URI" where
  "prunePercent u =
     u\<lparr>u_path := translatePercent (u_path u),
       u_pathInfo := translatePercent (u_pathInfo u),
       u_query := translatePercent (u_query u),
       u_root := translatePercent (u_root u),
       u_extension := translatePercent (u_extension u),
       u_filename := translatePercent (u_filename u)\<rparr>"

section \<open>parseURI and extractPathInfo\<close>

definition parseURI :: "Request \<Rightarrow> int \<times> Request" where
  "parseURI rq =
     (let u0 = (puri rq)\<lparr>u_query := r_uri rq, u_pathInfo := []\<rparr> in
      case pruneScheme (u_query u0) of (err, q1) \<Rightarrow>
        if err \<noteq> 0 then fillError 400 ''Bad uri'' (set_uri_parts (u0\<lparr>u_query := q1\<rparr>) rq)
        else
          (case extractPath (pruneDelim (pruneDelim q1 ''@'') ''/'') of (path, q2) \<Rightarrow>
             (case checkPath (u0\<lparr>u_path := path, u_query := q2\<rparr>) of (err, u1) \<Rightarrow>
                if err \<noteq> 0
                then fillError 400 ''too many ../ in uri'' (set_uri_parts u1 rq)
                else (0, set_uri_parts (prunePercent (prunePath u1)) rq))))"

definition parseURI_suffix :: "string \<Rightarrow> Request \<Rightarrow> int \<times> Request" where
  "parseURI_suffix suffix rq = parseURI (rq\<lparr>r_uri := r_uri rq @ suffix\<rparr>)"

definition setUri :: "string \<Rightarrow> Request \<Rightarrow> Request" where
  "setUri new_uri rq = rq\<lparr>r_uri := new_uri\<rparr>"

text \<open>
  When the extension does not occur in the path, \<open>rfind\<close> is \<open>npos\<close> and the unsigned
  sum \<open>idx + extension.length()\<close> wraps to \<open>extension.length() - 1\<close>.
\<close>

definition extractPathInfo :: "string \<Rightarrow> Request \<Rightarrow> fault + Request" where
  "extractPathInfo extension rq =
     (let path = u_path (puri rq);
          cut = (case rfind_sub extension path of
                   Some idx \<Rightarrow> idx + length extension
                 | None \<Rightarrow> length extension - 1)
      in and_then (substr_from path cut) (\<lambda>info.
           (let path' = take cut path;
                (root, filename) =
                  (case rfind_sub ''/'' path' of
                     None \<Rightarrow> (''/'', path')
                   | Some idx \<Rightarrow> (take (idx + 1) path', drop (idx + 1) path'))
            in Inr (set_uri_parts
                 ((puri rq)\<lparr>u_pathInfo := info, u_path := path', u_root := root,
                            u_filename := filename, u_extension := extension\<rparr>) rq))))"

section \<open>The path check\<close>

text \<open>The segments of a path, the last one possibly empty.\<close>

fun split_slash :: "string \<Rightarrow> string list" where
  "split_slash [] = [[]]"
| "split_slash (c # cs) =
     (if c = CHR ''/'' then [] # split_slash cs
      else (case split_slash cs of [] \<Rightarrow> [[c]] | s # ss \<Rightarrow> (c # s) # ss))"

lemma split_slash_ne [simp]: "split_slash s \<noteq> []"
  by (induction s) (auto split: list.splits)

lemma split_slash_plain: "CHR ''/'' \<notin> set s \<Longrightarrow> split_slash s = [s]"
  by (induction s) auto

lemma split_slash_Cons:
  "CHR ''/'' \<notin> set s \<Longrightarrow> split_slash (s @ CHR ''/'' # t) = s # split_slash t"
  by (induction s) auto

lemma join_path_Cons:
  "v \<noteq> [] \<Longrightarrow> join_path (s # v) = s @ CHR ''/'' # join_path v"
  by (cases v) (simp_all add: join_path_def)

lemma split_join:
  "v \<noteq> [] \<Longrightarrow> \<forall>s \<in> set v. CHR ''/'' \<notin> set s \<Longrightarrow> split_slash (join_path v) = v"
proof (induction v rule: list_nonempty_induct)
  case (single s)
  then show ?case by (simp add: join_path_def split_slash_plain)
next
  case (cons s v)
  then show ?case by (simp add: join_path_Cons split_slash_Cons)
qed

lemma find_char_None: "find_sub [c] s = None \<longleftrightarrow> c \<notin> set s"
  by (induction s) auto

lemma find_char_take: "find_sub [c] s = Some i \<Longrightarrow> c \<notin> set (take i s) \<and> i < length s"
  by (induction s arbitrary: i) (auto split: if_splits)

lemma find_char_append: "c \<notin> set a \<Longrightarrow> find_sub [c] (a @ c # b) = Some (length a)"
  by (induction a) auto

text \<open>The loop collects slash-free segments, none of them \<open>..\<close>.\<close>

definition seg_ok :: "string \<Rightarrow> bool" where
  "seg_ok s \<longleftrightarrow> CHR ''/'' \<notin> set s \<and> s \<noteq> ''..''"

lemma segments_ok:
  "segments path v = Inr (v', rest) \<Longrightarrow> list_all seg_ok v \<Longrightarrow>
   list_all seg_ok v' \<and> CHR ''/'' \<notin> set rest"
proof (induction path v arbitrary: v' rest rule: segments.induct)
  case (1 path v)
  show ?case
  proof (cases "find_sub ''/'' path")
    case None
    with "1.prems" show ?thesis
      by (simp add: segments.simps [of path v] find_char_None)
  next
    case (Some idx)
    have seg: "seg_ok (take idx path)" if "take idx path \<noteq> ''..''"
      using Some that by (simp add: find_char_take seg_ok_def)
    have bl: "list_all seg_ok (butlast v)"
      using "1.prems"(2) by (auto simp: list_all_iff dest: in_set_butlastD)
    show ?thesis
      using "1.prems" Some "1.IH"(1) [OF Some refl refl] "1.IH"(2) [OF Some refl refl] seg bl
      by (subst (asm) segments.simps) (auto simp: Let_def split: if_splits)
  qed
qed

lemma checkPath_segments:
  assumes "checkPath u = (0, u')"
  shows "\<exists>v rest. split_slash (u_path u') = v @ [rest] \<and> list_all seg_ok v"
proof -
  obtain p v rest where seg: "segments p [] = Inr (v, rest)"
    and u': "u_path u' = join_path (v @ [rest])"
    using assms by (auto simp: checkPath_def Let_def split: sum.splits)
  have ok: "list_all seg_ok v" "CHR ''/'' \<notin> set rest"
    using segments_ok [OF seg] by simp_all
  then have "split_slash (join_path (v @ [rest])) = v @ [rest]"
    by (intro split_join) (auto simp: list_all_iff seg_ok_def)
  with u' ok show ?thesis by auto
qed

text \<open>
  C27. A path that \<open>checkPath\<close> accepts has no \<open>..\<close> among its segments except possibly
  the last one, so the directory part of the path never climbs.
\<close>

theorem checkPath_confined:
  assumes "checkPath u = (0, u')"
  shows "''..'' \<notin> set (butlast (split_slash (u_path u')))"
  using checkPath_segments [OF assms] by (auto simp: list_all_iff seg_ok_def)

theorem checkPath_confined_witness:
  "''..'' \<notin> set (butlast (split_slash ''a/c/..''))"
proof -
  have "checkPath (new_URI\<lparr>u_path := ''./a//b/.././c/..''\<rparr>) =
        (0, new_URI\<lparr>u_path := ''a/c/..''\<rparr>)"
    by code_simp
  from checkPath_confined [OF this] show ?thesis by simp
qed

section \<open>Percent encoding\<close>

text \<open>
  A client may write any byte as a percent sign and two hexadecimal digits; \<open>f\<close> tells which
  bytes it writes so.
\<close>

definition hex2 :: "nat \<Rightarrow> string" where
  "hex2 n = [hexa ! (n div 16), hexa ! (n mod 16)]"

definition percent_encode :: "(char \<Rightarrow> bool) \<Rightarrow> string \<Rightarrow> string" where
  "percent_encode f s = concat (map (\<lambda>c. if f c then CHR ''%'' # hex2 (char_code c) else [c]) s)"

lemma getInt_hex2: "n < 256 \<Longrightarrow> getInt (hex2 n) 16 0 = (0, int n)"
proof -
  assume n: "n < 256"
  then have "n div 16 < 16" "n mod 16 < 16" by simp_all
  from this [THEN digit_val_hexa] show ?thesis
    by (simp add: hex2_def getInt_hex_pair)
qed

lemma length_hex2 [simp]: "length (hex2 n) = 2"
  by (simp add: hex2_def)

lemma percent_encode_append [simp]: "percent_encode f (s @ t) = percent_encode f s @ percent_encode f t"
  by (simp add: percent_encode_def)

lemma length_percent_encode: "length (percent_encode f s) \<le> 3 * length s"
  by (induction s) (simp_all add: percent_encode_def)

lemma percent_encode_longer: "length s \<le> length (percent_encode f s)"
  by (induction s) (simp_all add: percent_encode_def)

lemma percent_loop_skip:
  assumes "c \<noteq> CHR ''%''"
  shows "percent_loop (a @ c # s) (length a) = percent_loop (a @ c # s) (length (a @ [c]))"
proof -
  have "find_from ''%'' (a @ c # s) (length a) = find_from ''%'' (a @ c # s) (length (a @ [c]))"
    using assms by (cases "find_sub ''%'' s") (simp_all add: find_from_def)
  then show ?thesis
    unfolding percent_loop.simps [of _ "length a"] percent_loop.simps [of _ "length (a @ [c])"] by simp
qed

lemma percent_loop_encoded:
  "length a + 3 * length s < 2 ^ 64 \<Longrightarrow> f (CHR ''%'') \<Longrightarrow>
   percent_loop (a @ percent_encode f s) (length a) = a @ s"
proof (induction s arbitrary: a)
  case Nil
  then show ?case
    by (subst percent_loop.simps) (simp add: find_from_def percent_encode_def)
next
  case (Cons c s)
  let ?str = "a @ percent_encode f (c # s)"
  have IH: "percent_loop ((a @ [c]) @ percent_encode f s) (length (a @ [c])) = a @ c # s"
    using Cons.prems by (subst Cons.IH) simp_all
  show ?case
  proof (cases "f c")
    case False
    then have "c \<noteq> CHR ''%''" "percent_encode f (c # s) = c # percent_encode f s"
      using Cons.prems(2) by (auto simp: percent_encode_def)
    then show ?thesis using IH percent_loop_skip [of c a] by simp
  next
    case True
    let ?h = "hex2 (char_code c)"
    have enc: "percent_encode f (c # s) = CHR ''%'' # ?h @ percent_encode f s"
      using True by (simp add: percent_encode_def)
    have find: "find_from ''%'' ?str (length a) = Some (length a)"
      by (simp add: find_from_def enc)
    have "?str = (a @ [CHR ''%'']) @ ?h @ percent_encode f s"
      and "?str = (a @ CHR ''%'' # ?h) @ percent_encode f s"
      by (simp_all add: enc)
    then have h: "take 2 (drop (length a + 1) ?str) = ?h"
        "drop (length a + 3) ?str = percent_encode f s"
      by (metis append_eq_conv_conj length_append_singleton Suc_eq_plus1 length_hex2)
        (simp add: enc)
    have "int (length ?str) < 2 ^ 64"
      using Cons.prems(1) length_percent_encode [of f "c # s"] by (simp add: of_nat_less_iff [symmetric])
    then have "u64 (int (length ?str) - 2) = int (length ?str) - 2"
      by (intro u64_nonneg) (simp_all add: enc)
    then have len: "int (length a) < u64 (int (length ?str) - 2)"
      by (simp add: enc)
    have "percent_loop ?str (length a) =
        percent_loop (take (length a) ?str @ [c] @ drop (length a + 3) ?str) (length a + 1)"
      using find len h(1) getInt_hex2 [OF char_code_lt, of c]
      by (subst percent_loop.simps) (simp add: char_code_def)
    also have "\<dots> = percent_loop ((a @ [c]) @ percent_encode f s) (length (a @ [c]))"
      by (simp add: enc)
    finally show ?thesis using IH by simp
  qed
qed

text \<open>
  Decoding inverts encoding: every byte string, NUL and percent signs included, comes
  back from its percent encoding (of a length a \<open>size_t\<close> can hold), provided percent signs
  are encoded.
\<close>

theorem translatePercent_encode:
  assumes "3 * length s < 2 ^ 64" and "f (CHR ''%'')"
  shows "translatePercent (percent_encode f s) = s"
  using percent_loop_encoded [of "[]" s f] assms by (simp add: translatePercent_def)

theorem translatePercent_encode_witness:
  "translatePercent (percent_encode (\<lambda>c. c \<noteq> CHR ''a'') ''a%/'') = ''a%/''"
  by (rule translatePercent_encode) simp_all

lemma translatePercent_plain:
  "CHR ''%'' \<notin> set s \<Longrightarrow> translatePercent s = s"
  by (subst translatePercent_def, subst percent_loop.simps)
    (simp add: find_from_def find_char_None [THEN iffD2])

section \<open>parseURI\<close>

text \<open>A path that \<open>checkPath\<close> leaves as it is, and one that decoding leaves as it is, too.\<close>

definition plain_segment :: "string \<Rightarrow> bool" where
  "plain_segment s \<longleftrightarrow> s \<noteq> [] \<and> s \<noteq> ''.'' \<and> s \<noteq> ''..'' \<and> (\<forall>c \<in> set s. c \<notin> set ''/?@:'')"

definition clean_segment :: "string \<Rightarrow> bool" where
  "clean_segment s \<longleftrightarrow> plain_segment s \<and> CHR ''%'' \<notin> set s"

lemma clean_plain: "list_all clean_segment v \<Longrightarrow> list_all plain_segment v"
  by (auto simp: list_all_iff clean_segment_def)

lemma plain_no_slash: "plain_segment s \<Longrightarrow> CHR ''/'' \<notin> set s"
  by (auto simp: plain_segment_def)

lemma clean_no_slash: "clean_segment s \<Longrightarrow> CHR ''/'' \<notin> set s"
  by (simp add: clean_segment_def plain_no_slash)

lemma set_join_path: "v \<noteq> [] \<Longrightarrow> set (join_path v) \<subseteq> insert (CHR ''/'') (\<Union> (set ` set v))"
proof (induction v rule: list_nonempty_induct)
  case (single s)
  then show ?case by (auto simp: join_path_def)
next
  case (cons s v)
  then show ?case by (auto simp: join_path_Cons)
qed

lemma segments_plain:
  "v \<noteq> [] \<Longrightarrow> list_all plain_segment v \<Longrightarrow>
   segments (join_path v) w = Inr (w @ butlast v, last v)"
proof (induction v arbitrary: w rule: list_nonempty_induct)
  case (single s)
  then have "find_sub ''/'' s = None"
    by (simp add: find_char_None plain_no_slash)
  then show ?case by (subst segments.simps) (simp add: join_path_def)
next
  case (cons s v)
  then have s: "CHR ''/'' \<notin> set s" "s \<noteq> ''..''"
    by (auto simp: plain_segment_def)
  from s(1) have "find_sub ''/'' (s @ CHR ''/'' # join_path v) = Some (length s)"
    by (rule find_char_append)
  with cons s show ?case
    by (subst segments.simps) (simp add: join_path_Cons Let_def)
qed

lemma find_sub_absent: "c \<in> set n \<Longrightarrow> c \<notin> set s \<Longrightarrow> find_sub n s = None"
  by (auto simp: find_sub_None)

lemma split_slash_append:
  "split_slash (a @ CHR ''/'' # t) = split_slash a @ split_slash t"
  by (induction a) (auto split: list.splits)

lemma rfind_char: "c \<notin> set b \<Longrightarrow> rfind_sub [c] (a @ c # b) = Some (length a)"
proof (induction a)
  case Nil
  have "rfind_sub [c] b = None" using Nil by (induction b) auto
  then show ?case by simp
qed simp

lemma rfind_char_None: "c \<notin> set s \<Longrightarrow> rfind_sub [c] s = None"
  by (induction s) auto

lemma plain_split: "v \<noteq> [] \<Longrightarrow> list_all plain_segment v \<Longrightarrow> split_slash (join_path v) = v"
  by (rule split_join) (auto simp: list_all_iff plain_no_slash)

lemma plain_no_double_slash:
  assumes "v \<noteq> []" "list_all plain_segment v"
  shows "find_sub ''//'' (join_path v) = None" "find_sub ''/./'' (join_path v) = None"
proof -
  have "[] \<notin> set v" "''.'' \<notin> set v"
    using assms(2) by (auto simp: list_all_iff plain_segment_def)
  moreover have "[] \<in> set (split_slash (a @ ''//'' @ b))" for a b
    by (simp add: split_slash_append)
  moreover have "''.'' \<in> set (split_slash (a @ ''/./'' @ b))" for a b
    by (simp add: split_slash_append)
  ultimately show "find_sub ''//'' (join_path v) = None" "find_sub ''/./'' (join_path v) = None"
    unfolding find_sub_None by (metis plain_split [OF assms])+
qed

lemma checkPath_plain:
  assumes "v \<noteq> []" "list_all plain_segment v" "u_path u = join_path v"
  shows "checkPath u = (0, u)"
proof -
  have s: "plain_segment (hd v)" using assms by (cases v) auto
  have dot: "\<not> (char_at (join_path v) 0 = CHR ''.'' \<and> char_at (join_path v) 1 = CHR ''/'')"
  proof
    assume d: "char_at (join_path v) 0 = CHR ''.'' \<and> char_at (join_path v) 1 = CHR ''/''"
    then obtain t where t: "join_path v = ''.'' @ CHR ''/'' # t"
      by (cases "join_path v"; cases "tl (join_path v)") (auto simp: char_at_def NUL_def)
    have "split_slash (join_path v) = ''.'' # split_slash t"
      unfolding t by (rule split_slash_Cons) simp
    with assms s show False
      by (simp add: plain_split plain_segment_def)
  qed
  show ?thesis
    unfolding checkPath_def Let_def assms(3) if_not_P [OF dot]
    using assms plain_no_double_slash [OF assms(1,2)]
    by (simp add: collapse_slashes.simps [of "join_path v"]
        collapse_dots.simps [of "join_path v"] segments_plain)
qed

lemma join_path_snoc: "v \<noteq> [] \<Longrightarrow> join_path (v @ [s]) = join_path v @ CHR ''/'' # s"
  by (induction v rule: list_nonempty_induct) (simp_all add: join_path_Cons, simp add: join_path_def)

lemma prunePath_clean:
  assumes "v \<noteq> []" "list_all clean_segment v" "u_path u = join_path v"
  shows "u_filename (prunePath u) = last v" "u_path (prunePath u) = join_path v"
    "u_query (prunePath u) = u_query u" "u_pathInfo (prunePath u) = u_pathInfo u"
proof -
  obtain vs l where v: "v = vs @ [l]" using assms(1) by (metis rev_exhaust)
  have l: "CHR ''/'' \<notin> set l" "l \<noteq> []"
    using assms(2) v by (auto simp: clean_segment_def plain_segment_def)
  have "\<exists>x. join_path v = x @ l"
  proof (cases "vs = []")
    case True
    then show ?thesis by (simp add: v join_path_def)
  next
    case False
    then have "join_path v = (join_path vs @ ''/'') @ l" by (simp add: v join_path_snoc)
    then show ?thesis by blast
  qed
  then obtain x where x: "join_path v = x @ l" by blast
  have "last l \<noteq> CHR ''/''" using l last_in_set [OF l(2)] by metis
  with l x have ne: "join_path v \<noteq> []" "last (join_path v) \<noteq> CHR ''/''"
    by simp_all
  then show "u_path (prunePath u) = join_path v"
    "u_query (prunePath u) = u_query u" "u_pathInfo (prunePath u) = u_pathInfo u"
    using assms by (simp_all add: prunePath_def Let_def)
  show "u_filename (prunePath u) = last v"
  proof (cases "vs = []")
    case True
    then show ?thesis
      using ne assms(3) l
      by (simp add: prunePath_def Let_def v join_path_def rfind_char_None)
  next
    case False
    then show ?thesis
      using ne assms(3) l
      by (simp add: prunePath_def Let_def v join_path_snoc rfind_char)
  qed
qed

text \<open>The uri of a path and a query as it stands on the request line.\<close>

definition request_uri :: "string list \<Rightarrow> string \<Rightarrow> string" where
  "request_uri v q = CHR ''/'' # join_path v @ CHR ''?'' # q"

lemma request_uri_pruned:
  assumes v: "v \<noteq> []" "list_all plain_segment v" and q: "\<forall>c \<in> set q. c \<notin> set '':@''"
  shows "pruneScheme (request_uri v q) = (0, request_uri v q)"
    "pruneDelim (request_uri v q) ''@'' = request_uri v q"
    "pruneDelim (request_uri v q) ''/'' = join_path v @ CHR ''?'' # q"
    "extractPath (join_path v @ CHR ''?'' # q) = (join_path v, q)"
proof -
  have chars: "c \<notin> set ''?@:''" if "c \<in> set (join_path v)" for c
    using that set_join_path [OF v(1)] v(2) by (auto simp: list_all_iff plain_segment_def)
  have abs: "CHR '':'' \<notin> set (request_uri v q)" "CHR ''@'' \<notin> set (request_uri v q)"
    using q chars by (auto simp: request_uri_def)
  show "pruneScheme (request_uri v q) = (0, request_uri v q)"
    using abs by (simp add: pruneScheme_def find_sub_absent [of "CHR '':''"])
  show "pruneDelim (request_uri v q) ''@'' = request_uri v q"
    using abs by (simp add: pruneDelim_def find_sub_absent [of "CHR ''@''"])
  show "pruneDelim (request_uri v q) ''/'' = join_path v @ CHR ''?'' # q"
    by (simp add: pruneDelim_def request_uri_def)
  have "CHR ''?'' \<notin> set (join_path v)" using chars by fastforce
  then have "find_sub ''?'' (join_path v @ CHR ''?'' # q) = Some (length (join_path v))"
    by (rule find_char_append)
  then show "extractPath (join_path v @ CHR ''?'' # q) = (join_path v, q)"
    by (simp add: extractPath_def)
qed

text \<open>
  \<open>parseURI\<close> on an ordinary uri (segments that are neither empty nor dots and contain
  no reserved byte; a query without colon and at-sign): the call succeeds, the path is the
  joined segments, the query is the percent-decoded text after the question mark, the file
  name is the last segment, and nothing but the parsed uri changes.
\<close>

theorem parseURI_clean:
  assumes "v \<noteq> []" "list_all clean_segment v" "\<forall>c \<in> set q. c \<notin> set '':@''"
    and "r_uri rq = request_uri v q"
  shows "\<exists>u. parseURI rq = (0, set_uri_parts u rq) \<and> u_path u = join_path v \<and>
     u_query u = translatePercent q \<and> u_filename u = last v \<and> u_pathInfo u = []"
proof -
  let ?u = "(puri rq)\<lparr>u_pathInfo := [], u_path := join_path v, u_query := q\<rparr>"
  have chk: "checkPath ?u = (0, ?u)"
    by (rule checkPath_plain [OF assms(1) clean_plain [OF assms(2)]]) simp
  have "parseURI rq = (0, set_uri_parts (prunePercent (prunePath ?u)) rq)"
    using request_uri_pruned [OF assms(1) clean_plain [OF assms(2)] assms(3)] chk
    by (simp add: parseURI_def Let_def assms(4))
  moreover have "CHR ''%'' \<notin> set (join_path v)" "CHR ''%'' \<notin> set (last v)"
    using set_join_path [OF assms(1)] assms(1,2)
    by (auto simp: list_all_iff clean_segment_def)
  ultimately show ?thesis
    using prunePath_clean [OF assms(1,2), of ?u]
    by (intro exI [of _ "prunePercent (prunePath ?u)"])
      (simp add: prunePercent_def translatePercent_plain)
qed

theorem parseURI_clean_witness:
  "\<exists>u. parseURI (new_Request\<lparr>r_uri := ''/img/a.png?x=%41''\<rparr>) =
      (0, set_uri_parts u (new_Request\<lparr>r_uri := ''/img/a.png?x=%41''\<rparr>)) \<and>
     u_path u = ''img/a.png'' \<and> u_query u = translatePercent ''x=%41'' \<and>
     u_filename u = ''a.png'' \<and> u_pathInfo u = []"
proof -
  have "list_all clean_segment [''img'', ''a.png'']"
    by (simp add: clean_segment_def plain_segment_def)
  from parseURI_clean [OF _ this, of "''x=%41''" "new_Request\<lparr>r_uri := ''/img/a.png?x=%41''\<rparr>"]
  show ?thesis by (simp add: request_uri_def join_path_def)
qed

text \<open>Encoding leaves no byte but the unencoded ones, percent signs and digits.\<close>

lemma set_percent_encode: "set (percent_encode f s) \<subseteq> {c \<in> set s. \<not> f c} \<union> insert (CHR ''%'') (set hexa)"
proof (induction s)
  case (Cons c s)
  have "char_code c div 16 < 16" "char_code c mod 16 < 16" using char_code_lt [of c] by simp_all
  moreover have "length hexa = 16" by (simp add: hexa_def)
  ultimately have "set (hex2 (char_code c)) \<subseteq> set hexa" by (simp add: hex2_def)
  moreover have "percent_encode f (c # s) = percent_encode f [c] @ percent_encode f s"
    using percent_encode_append [of f "[c]" s] by simp
  moreover have "percent_encode f [c] = (if f c then CHR ''%'' # hex2 (char_code c) else [c])"
    by (simp add: percent_encode_def)
  ultimately show ?case using Cons.IH by auto
qed (simp add: percent_encode_def)

lemma encoded_plain:
  assumes "s \<noteq> []" "CHR ''/'' \<notin> set s" "\<forall>c \<in> set ''.?@:''. f c"
  shows "plain_segment (percent_encode f s)"
proof -
  have "c \<notin> set (percent_encode f s)" if "c \<in> set ''./?@:''" for c
    using that set_percent_encode [of f s] assms(2,3) by (auto simp: hexa_def)
  moreover have "percent_encode f s \<noteq> []" using assms(1) by (cases s) (simp_all add: percent_encode_def)
  ultimately show ?thesis unfolding plain_segment_def by (metis list.set_intros(1) insertCI set_simps(2))
qed

lemma percent_encode_join:
  "v \<noteq> [] \<Longrightarrow> \<not> f (CHR ''/'') \<Longrightarrow> join_path (map (percent_encode f) v) = percent_encode f (join_path v)"
proof (induction v rule: list_nonempty_induct)
  case (cons s v)
  then show ?case
    using percent_encode_append [of f s "CHR ''/'' # join_path v"] percent_encode_append [of f "''/''" "join_path v"]
    by (simp add: join_path_Cons) (simp add: percent_encode_def)
qed (simp add: join_path_def)

lemma join_path_replicate:
  "w \<noteq> [] \<Longrightarrow> join_path (replicate n s @ w) = concat (replicate n (s @ ''/'')) @ join_path w"
  by (induction n) (simp_all add: join_path_Cons)

text \<open>
  C28. The traversal check looks at the undecoded path, and decoding comes after it: a client
  that percent-encodes the dots (and the bytes the parser splits at, but not the slashes)
  passes the check with any number of leading \<open>..\<close> segments before any path, and the parsed
  path climbs out of the root by as many levels.
\<close>

theorem parseURI_encoded_dots_climb:
  assumes "w \<noteq> []" and "\<forall>s \<in> set w. s \<noteq> [] \<and> CHR ''/'' \<notin> set s"
    and "\<forall>c \<in> set ''%.?@:''. f c" and "\<not> f (CHR ''/'')" and "\<forall>c \<in> set q. c \<notin> set '':@''"
    and "r_uri rq = request_uri (map (percent_encode f) (replicate n ''..'' @ w)) q"
    and "length (r_uri rq) < 2 ^ 60"
  shows "\<exists>u. parseURI rq = (0, set_uri_parts u rq) \<and> u_path u = concat (replicate n ''../'') @ join_path w"
proof -
  let ?v = "replicate n ''..'' @ w"
  let ?e = "map (percent_encode f) ?v"
  let ?u = "(puri rq)\<lparr>u_pathInfo := [], u_path := join_path ?e, u_query := q\<rparr>"
  have e: "?e \<noteq> []" "list_all plain_segment ?e"
    using assms(1-3) by (auto simp: list_all_iff intro!: encoded_plain)
  have join: "join_path ?e = percent_encode f (join_path ?v)"
    using assms(1,4) by (intro percent_encode_join) simp_all
  have "checkPath ?u = (0, ?u)" by (rule checkPath_plain [OF e]) simp
  then have "parseURI rq = (0, set_uri_parts (prunePercent (prunePath ?u)) rq)"
    using request_uri_pruned [OF e assms(5)] by (simp add: parseURI_def Let_def assms(6))
  moreover have "u_path (prunePath ?u) = join_path ?e" by (simp add: prunePath_def Let_def)
  moreover have "translatePercent (join_path ?e) = join_path ?v"
  proof -
    have "length (join_path ?v) \<le> length (percent_encode f (join_path ?v))"
      by (rule percent_encode_longer)
    then have "3 * length (join_path ?v) < 2 ^ 64"
      using assms(7) join by (simp add: assms(6) request_uri_def)
    then show ?thesis unfolding join by (rule translatePercent_encode) (simp add: assms(3))
  qed
  ultimately show ?thesis
    using join_path_replicate [OF assms(1), of n "''..''"]
    by (intro exI [of _ "prunePercent (prunePath ?u)"]) (simp add: prunePercent_def)
qed

theorem parseURI_encoded_dots_climb_witness:
  "\<exists>u. parseURI (new_Request\<lparr>r_uri := ''/%2E%2E/%2E%2E/etc/passwd?''\<rparr>) =
      (0, set_uri_parts u (new_Request\<lparr>r_uri := ''/%2E%2E/%2E%2E/etc/passwd?''\<rparr>)) \<and>
     u_path u = ''../../etc/passwd''"
proof -
  let ?f = "\<lambda>c. c \<in> set ''%.?@:''" and ?w = "[''etc'', ''passwd'']"
  let ?rq = "new_Request\<lparr>r_uri := ''/%2E%2E/%2E%2E/etc/passwd?''\<rparr>"
  have uri: "r_uri ?rq = request_uri (map (percent_encode ?f) (replicate 2 ''..'' @ ?w)) []" by code_simp
  have len: "length (r_uri ?rq) < 2 ^ 60" by simp
  have path: "concat (replicate 2 ''../'') @ join_path ?w = ''../../etc/passwd''" by code_simp
  from parseURI_encoded_dots_climb [OF _ _ _ _ _ uri len, unfolded path] show ?thesis by simp
qed

end
