(* ===== verification/Wildcard.thy ===== *)
theory Wildcard
  imports Format
begin

text \<open>
  The wildcard matcher of srcs/format.cpp (\<open>tokenize\<close>, \<open>isMatch\<close>,
  \<open>isUriMatch\<close>), which decides the location or CGI block a uri belongs to, and its
  relation to the reference semantics of wildcard expressions, \<open>glob\<close>: what matches
  is always a wildcard match, and for expressions that end in a star (and have no two stars
  in a row) every wildcard match is found. For expressions that end in a literal the
  leftmost search misses matches.
\<close>

section \<open>Wildcard expressions\<close>

definition STAR :: string where
  "STAR = ''*''"

text \<open>\<open>tokenize\<close> stops at the first NUL byte, as \<open>while (expression[i])\<close> does.\<close>

function tokenize :: "string \<Rightarrow> string list" where
  "tokenize [] = []"
| "tokenize (c # cs) =
     (if c = NUL then []
      else if c = CHR ''*'' then STAR # tokenize cs
      else (c # takeWhile (\<lambda>d. d \<noteq> NUL \<and> d \<noteq> CHR ''*'') cs)
           # tokenize (dropWhile (\<lambda>d. d \<noteq> NUL \<and> d \<noteq> CHR ''*'') cs))"
  by pat_completeness auto
termination
  by (relation "measure length") (auto simp: le_imp_less_Suc length_dropWhile_le)

text \<open>
  The loop of \<open>isMatch\<close>. \<open>rest\<close> is the uri from the index \<open>i\<close> on, the token list
  the tokens from the iterator on; the first equation is not reached (the loop returns as
  soon as the iterator meets the end).
\<close>

function match_loop :: "string \<Rightarrow> string list \<Rightarrow> bool" where
  "match_loop rest [] = True"
| "match_loop rest (t # ts) =
     (if char_at rest 0 = NUL then t = STAR \<and> ts = []
      else if t = STAR then
        (case ts of
           [] \<Rightarrow> True
         | t' # ts' \<Rightarrow>
             (case find_sub t' rest of
                None \<Rightarrow> False
              | Some i \<Rightarrow>
                  (let rest' = drop (i + length t') rest in
                   if ts' = [] then char_at rest' 0 = NUL else match_loop rest' ts')))
      else if take (length t) rest \<noteq> t then False
      else (let rest' = drop (length t) rest in
            if ts = [] then char_at rest' 0 = NUL else match_loop rest' ts))"
  by pat_completeness auto
termination
  by (relation "measure (\<lambda>(rest, ts). length ts)") auto

definition isMatch :: "string \<Rightarrow> string list \<Rightarrow> bool" where
  "isMatch uri tokens = (if tokens = [] then False else match_loop uri tokens)"

text \<open>\<open>int pos = uri.rfind(tok)\<close>: \<open>npos\<close> becomes -1.\<close>

definition rfind_int :: "string \<Rightarrow> string \<Rightarrow> int" where
  "rfind_int tok uri = (case rfind_sub tok uri of None \<Rightarrow> -1 | Some i \<Rightarrow> i32 (int i))"

text \<open>
  The comparison of two matching expressions, from their last tokens backwards (the lists
  are reversed).
\<close>

fun better_match :: "string \<Rightarrow> string list \<Rightarrow> string list \<Rightarrow> bool" where
  "better_match uri [] bs = False"
| "better_match uri (a # as) [] = True"
| "better_match uri (a # as) (b # bs) =
     (if a = STAR then (if b = STAR then better_match uri as bs else False)
      else if b = STAR then True
      else (let posA = rfind_int a uri; posB = rfind_int b uri;
                diff = i32 ((posA + int (length a)) - (posB + int (length b)))
            in if 0 < diff then True
               else if diff < 0 then False
               else if length b < length a then True
               else if length a < length b then False
               else better_match (if posA < 0 then uri else take (nat posA) uri) as bs))"

definition isUriMatch :: "string \<Rightarrow> string \<Rightarrow> string option \<Rightarrow> bool" where
  "isUriMatch uri expression previousMatch =
     (if \<not> isMatch uri (tokenize expression) then False
      else (case previousMatch of
              None \<Rightarrow> True
            | Some p \<Rightarrow> better_match uri (rev (tokenize expression)) (rev (tokenize p))))"

section \<open>Reference semantics\<close>

text \<open>A star stands for any sequence of bytes, every other byte for itself.\<close>

fun glob :: "string \<Rightarrow> string \<Rightarrow> bool" where
  "glob [] u = (u = [])"
| "glob (p # ps) [] = (p = CHR ''*'' \<and> glob ps [])"
| "glob (p # ps) (c # cs) =
     (if p = CHR ''*'' then glob ps (c # cs) \<or> glob (p # ps) cs
      else p = c \<and> glob ps cs)"

lemma glob_star: "glob (CHR ''*'' # p) u \<longleftrightarrow> (\<exists>a b. u = a @ b \<and> glob p b)"
proof (induction u)
  case Nil
  then show ?case by simp
next
  case (Cons c cs)
  have "(\<exists>a b. c # cs = a @ b \<and> glob p b) \<longleftrightarrow>
        glob p (c # cs) \<or> (\<exists>a b. cs = a @ b \<and> glob p b)"
    by (metis append_Cons append_Nil list.exhaust list.inject)
  with Cons show ?case by simp
qed

lemma glob_star_suffix: "glob (CHR ''*'' # p) b \<Longrightarrow> glob (CHR ''*'' # p) (a @ b)"
  by (metis append.assoc glob_star)

lemma glob_literal:
  "CHR ''*'' \<notin> set l \<Longrightarrow>
   glob (l @ p) u \<longleftrightarrow> starts_with l u \<and> glob p (drop (length l) u)"
proof (induction l arbitrary: u)
  case (Cons x l)
  then show ?case by (cases u) auto
qed simp

section \<open>Tokens\<close>

definition token_ok :: "string \<Rightarrow> bool" where
  "token_ok t \<longleftrightarrow> t = STAR \<or> t \<noteq> [] \<and> CHR ''*'' \<notin> set t"

text \<open>Literals are never adjacent.\<close>

fun alternating :: "string list \<Rightarrow> bool" where
  "alternating [] = True"
| "alternating [t] = token_ok t"
| "alternating (t # t' # ts) =
     (token_ok t \<and> (t = STAR \<or> t' = STAR) \<and> alternating (t' # ts))"

fun no_double_star :: "string \<Rightarrow> bool" where
  "no_double_star (a # b # s) =
     (\<not> (a = CHR ''*'' \<and> b = CHR ''*'') \<and> no_double_star (b # s))"
| "no_double_star s = True"

lemma no_double_star_append: "no_double_star (a @ b) \<Longrightarrow> no_double_star b"
proof (induction a)
  case (Cons x a)
  then show ?case by (cases "a @ b") auto
qed simp

lemma concat_tokenize: "NUL \<notin> set e \<Longrightarrow> concat (tokenize e) = e"
proof (induction e rule: tokenize.induct)
  case (2 c cs)
  have "NUL \<notin> set (dropWhile (\<lambda>d. d \<noteq> NUL \<and> d \<noteq> CHR ''*'') cs)"
    using "2.prems" by (auto dest: set_dropWhileD)
  with 2 show ?case by (auto simp: STAR_def)
qed simp

lemma alternating_tokenize: "NUL \<notin> set e \<Longrightarrow> alternating (tokenize e)"
proof (induction e rule: tokenize.induct)
  case (2 c cs)
  let ?P = "\<lambda>d. d \<noteq> NUL \<and> d \<noteq> CHR ''*''"
  let ?r = "dropWhile ?P cs"
  have nul: "NUL \<notin> set ?r" "c \<noteq> NUL"
    using "2.prems" by (auto dest: set_dropWhileD)
  show ?case
  proof (cases "c = CHR ''*''")
    case True
    with 2 nul show ?thesis
      by (cases "tokenize cs") (auto simp: token_ok_def)
  next
    case False
    have tok: "token_ok (c # takeWhile ?P cs)"
      using False by (auto simp: token_ok_def dest: set_takeWhileD)
    have "tokenize ?r = [] \<or> hd (tokenize ?r) = STAR"
    proof (cases ?r)
      case (Cons d ds)
      have "\<not> ?P (hd ?r)" by (rule hd_dropWhile) (simp add: Cons)
      moreover have "d \<noteq> NUL" using nul(1) unfolding Cons by auto
      ultimately have "d = CHR ''*''" unfolding Cons by simp
      with Cons have "tokenize ?r = tokenize (CHR ''*'' # ds)" by (rule_tac arg_cong) simp
      then show ?thesis by (simp add: NUL_def)
    next
      case Nil
      show ?thesis unfolding Nil by simp
    qed
    moreover have "alternating (tokenize ?r)"
      using 2 False nul by simp
    moreover have "tokenize (c # cs) = (c # takeWhile ?P cs) # tokenize ?r"
      using False nul by simp
    ultimately show ?thesis
      using tok by (cases "tokenize ?r") (simp_all del: tokenize.simps)
  qed
qed simp

section \<open>Soundness and completeness\<close>

lemma char_at_NUL: "NUL \<notin> set u \<Longrightarrow> char_at u 0 = NUL \<longleftrightarrow> u = []"
  by (cases u) (auto simp: char_at_def)

lemma glob_token:
  "token_ok t \<Longrightarrow> glob p b \<Longrightarrow> glob (t @ p) (t @ b)"
  by (auto simp: token_ok_def STAR_def glob_literal starts_with_iff glob_star)

text \<open>The loop reads the uri as a C string in places: it may end at a NUL byte.\<close>

lemma match_loop_sound:
  "match_loop u ts \<Longrightarrow> ts \<noteq> [] \<Longrightarrow> list_all token_ok ts \<Longrightarrow>
   \<exists>p r. u = p @ r \<and> char_at r 0 = NUL \<and> glob (concat ts) p"
proof (induction u ts rule: match_loop.induct)
  case (2 rest t ts)
  consider "char_at rest 0 = NUL" | "char_at rest 0 \<noteq> NUL" "t = STAR" | "char_at rest 0 \<noteq> NUL" "t \<noteq> STAR"
    by blast
  then show ?case
  proof cases
    case 1
    with "2.prems" show ?thesis by (intro exI [of _ "[]"] exI [of _ rest]) (simp add: STAR_def)
  next
    case 2
    show ?thesis
    proof (cases ts)
      case Nil
      with 2 show ?thesis
        by (intro exI [of _ rest] exI [of _ "[]"]) (auto simp: STAR_def glob_star char_at_def)
    next
      case (Cons t' ts')
      with 2 "2.prems" obtain i where i: "find_sub t' rest = Some i"
        and r: "if ts' = [] then char_at (drop (i + length t') rest) 0 = NUL
                else match_loop (drop (i + length t') rest) ts'"
        by (auto simp: Let_def split: option.splits)
      obtain a b where ab: "rest = a @ t' @ b" "length a = i"
        using find_sub_Some [OF i] by blast
      have "\<exists>p r. b = p @ r \<and> char_at r 0 = NUL \<and> glob (concat ts') p"
      proof (cases "ts' = []")
        case True
        then show ?thesis using r ab by (intro exI [of _ "[]"] exI [of _ b]) simp
      next
        case False
        then show ?thesis using r ab "2.IH"(1) [OF 2 Cons i refl False] "2.prems"(3) Cons by simp
      qed
      then obtain p r where p: "b = p @ r" "char_at r 0 = NUL" "glob (concat ts') p" by blast
      have "glob (t' @ concat ts') (t' @ p)" using "2.prems"(3) Cons p(3) by (simp add: glob_token)
      then have "glob (concat (t # ts)) (a @ t' @ p)"
        using 2 Cons by (auto simp: STAR_def glob_star)
      then show ?thesis using ab p by (intro exI [of _ "a @ t' @ p"] exI [of _ r]) simp
    qed
  next
    case 3
    with "2.prems" have t: "take (length t) rest = t"
      and r: "if ts = [] then char_at (drop (length t) rest) 0 = NUL
              else match_loop (drop (length t) rest) ts"
      by (auto simp: Let_def split: if_splits)
    have "\<exists>p r. drop (length t) rest = p @ r \<and> char_at r 0 = NUL \<and> glob (concat ts) p"
    proof (cases "ts = []")
      case True
      then show ?thesis using r by (intro exI [of _ "[]"] exI [of _ "drop (length t) rest"]) simp
    next
      case False
      then show ?thesis using r "2.IH"(2) [OF 3 _ refl False] t "2.prems"(3) by simp
    qed
    then obtain p r where p: "drop (length t) rest = p @ r" "char_at r 0 = NUL" "glob (concat ts) p" by blast
    have "glob (concat (t # ts)) (t @ p)" using "2.prems"(3) p(3) by (simp add: glob_token)
    moreover have "rest = (t @ p) @ r" using t p(1) by (metis append.assoc append_take_drop_id)
    ultimately show ?thesis using p(2) by blast
  qed
qed simp

text \<open>Leftmost search loses nothing as long as a star comes later.\<close>

lemma match_loop_complete:
  "glob (concat ts) u \<Longrightarrow> ts \<noteq> [] \<Longrightarrow> last ts = STAR \<Longrightarrow> alternating ts \<Longrightarrow>
   no_double_star (concat ts) \<Longrightarrow> NUL \<notin> set u \<Longrightarrow> match_loop u ts"
proof (induction u ts rule: match_loop.induct)
  case (2 rest t ts)
  note tail = "2.prems"(3)
  consider "t = STAR" "ts = []" | t' ts' where "t = STAR" "ts = t' # ts'" | "t \<noteq> STAR" "ts \<noteq> []"
    using "2.prems"(3) by (cases ts) auto
  then show ?case
  proof cases
    case 1
    then show ?thesis by simp
  next
    case 2
    have t': "t' \<noteq> STAR" "token_ok t'"
      using "2.prems"(4,5) 2 by (cases ts'; auto simp: STAR_def)+
    then have lit: "CHR ''*'' \<notin> set t'" "t' \<noteq> []" by (auto simp: token_ok_def)
    obtain p ps where ts': "ts' = STAR # ps"
      using "2.prems"(3,4) 2 t' by (cases ts') auto
    obtain a b where rest: "rest = a @ b" and sb: "starts_with t' b"
      and g: "glob (concat ts') (drop (length t') b)"
      using "2.prems"(1) 2 lit by (auto simp: STAR_def glob_star glob_literal)
    then obtain b' where b: "b = t' @ b'" by (auto simp: starts_with_iff)
    obtain i where i: "find_sub t' rest = Some i" and le: "i \<le> length a"
      using find_sub_None [of t' rest] find_sub_first [of t' rest] rest b
      by (cases "find_sub t' rest") auto
    have "drop (i + length t') rest = drop (i + length t') (a @ t') @ b'"
      using le by (simp add: rest b)
    then have "glob (concat ts') (drop (i + length t') rest)"
      using g b ts' by (simp add: STAR_def glob_star_suffix)
    moreover have "NUL \<notin> set (drop (i + length t') rest)"
      using "2.prems"(6) by (auto dest: in_set_dropD)
    moreover have "rest \<noteq> []" using rest b lit by simp
    moreover have "no_double_star (concat ts')" "alternating ts'" "last ts' = STAR"
      using "2.prems"(3-5) 2 ts' t' no_double_star_append by (auto)
    ultimately have "match_loop (drop (i + length t') rest) ts'"
      using "2.IH"(1) [OF _ 2(1) 2(2) i refl] ts' "2.prems"(6) by (simp add: char_at_NUL)
    with ts' \<open>rest \<noteq> []\<close> show ?thesis
      using 2 i "2.prems"(6) by (simp add: char_at_NUL del: match_loop.simps(2))
        (simp add: char_at_NUL match_loop.simps(2) [of rest])
  next
    case 3
    then have lit: "CHR ''*'' \<notin> set t" "t \<noteq> []"
      using "2.prems"(4) by (cases ts; auto simp: token_ok_def)+
    then obtain b where rest: "rest = t @ b" and g: "glob (concat ts) b"
      using "2.prems"(1) by (auto simp: glob_literal starts_with_iff)
    have td: "take (length t) rest = t" "drop (length t) rest = b" "rest \<noteq> []"
      using rest lit by simp_all
    have ts: "alternating ts" "last ts = STAR" "no_double_star (concat ts)"
      using "2.prems"(3-5) 3 no_double_star_append [of t "concat ts"] by (cases ts; simp)+
    have "match_loop b ts"
      using "2.IH"(2) [OF _ 3(1) _ refl 3(2)] td ts g 3 "2.prems"(6) rest
      by (simp add: char_at_NUL del: match_loop.simps)
    then show ?thesis
      using 3 td "2.prems"(6)
      by (simp add: char_at_NUL match_loop.simps(2) [of rest] del: match_loop.simps(2))
  qed
qed simp

lemma alternating_tokens: "alternating ts \<Longrightarrow> list_all token_ok ts"
  by (induction ts rule: alternating.induct) auto

lemma last_token:
  assumes "NUL \<notin> set e" "e \<noteq> []" "last e = CHR ''*''"
  shows "tokenize e \<noteq> [] \<and> last (tokenize e) = STAR"
proof -
  have c: "concat (tokenize e) = e" by (rule concat_tokenize [OF assms(1)])
  then have ne: "tokenize e \<noteq> []" using assms(2) by auto
  then obtain ts t where ts: "tokenize e = ts @ [t]" by (metis rev_exhaust)
  have ok: "token_ok t"
    using alternating_tokens [OF alternating_tokenize [OF assms(1)]] ts by simp
  have "t = STAR"
  proof (rule ccontr)
    assume "t \<noteq> STAR"
    with ok have "t \<noteq> []" "CHR ''*'' \<notin> set t" by (auto simp: token_ok_def)
    moreover have "e = concat ts @ t" using c unfolding ts by simp
    ultimately have "last e \<in> set t" by simp
    with \<open>CHR ''*'' \<notin> set t\<close> assms(3) show False by simp
  qed
  with ne ts show ?thesis by simp
qed

text \<open>The tokens of an expression are those of its C string.\<close>

lemma tokenize_ok: "list_all token_ok (tokenize e)" "concat (tokenize e) = c_str e"
proof (induction e rule: tokenize.induct)
  case (2 c cs)
  let ?P = "\<lambda>d. d \<noteq> NUL \<and> d \<noteq> CHR ''*''"
  case 1
  show ?case using "2.IH" by (auto simp: token_ok_def dest: set_takeWhileD)
  case 2
  have "takeWhile (\<lambda>d. d \<noteq> NUL) cs = takeWhile ?P cs @ takeWhile (\<lambda>d. d \<noteq> NUL) (dropWhile ?P cs)"
    by (induction cs) auto
  then show ?case using "2.IH" by (auto simp: c_str_def STAR_def)
qed (simp_all add: c_str_def)

lemma isUriMatch_globs:
  assumes "isUriMatch uri expression previousMatch"
  shows "\<exists>p r. uri = p @ r \<and> char_at r 0 = NUL \<and> glob (c_str expression) p"
proof -
  have "isMatch uri (tokenize expression)"
    using assms by (auto simp: isUriMatch_def split: if_splits)
  then show ?thesis
    using match_loop_sound [of uri "tokenize expression"] tokenize_ok [of expression]
    by (auto simp: isMatch_def split: if_splits)
qed

text \<open>
  C30. The matcher is sound: what it accepts for an expression matches that expression in the
  usual reading of wildcards. The expression counts up to its first NUL byte. The uri counts
  as a whole or up to one of its NUL bytes, so that a uri without NUL bytes matches itself.
\<close>

theorem isUriMatch_sound:
  assumes "isUriMatch uri expression previousMatch"
  shows "\<exists>p r. uri = p @ r \<and> (r = [] \<or> hd r = NUL) \<and> glob (c_str expression) p \<and>
    (NUL \<notin> set uri \<longrightarrow> glob (c_str expression) uri)"
proof -
  obtain p r where p: "uri = p @ r" "char_at r 0 = NUL" "glob (c_str expression) p"
    using isUriMatch_globs [OF assms] by blast
  then have "r = [] \<or> hd r = NUL" by (cases r) (auto simp: char_at_def)
  moreover from this p have "NUL \<notin> set uri \<longrightarrow> glob (c_str expression) uri" by (cases r) auto
  ultimately show ?thesis using p by blast
qed

theorem isUriMatch_sound_witness:
  "\<exists>p r. ''index.php/'' @ NUL # ''a'' = p @ r \<and> (r = [] \<or> hd r = NUL) \<and> glob ''*.php*'' p"
proof -
  have "isUriMatch (''index.php/'' @ NUL # ''a'') ''*.php*'' None" by code_simp
  moreover have "c_str ''*.php*'' = ''*.php*''" by code_simp
  ultimately show ?thesis using isUriMatch_sound [of "''index.php/'' @ NUL # ''a''" "''*.php*''" None] by auto
qed

text \<open>
  C29. For an expression that ends in a star and has no two stars in a row, as the CGI and
  directory expressions of the default configuration, and as long as no other expression has
  matched, the matcher decides exactly the wildcard semantics of a uri without NUL bytes.
\<close>

theorem isUriMatch_exact:
  assumes "NUL \<notin> set uri" "NUL \<notin> set expression"
    and "expression \<noteq> []" "last expression = CHR ''*''" "no_double_star expression"
  shows "isUriMatch uri expression None \<longleftrightarrow> glob expression uri"
proof
  assume "isUriMatch uri expression None"
  then obtain p r where p: "uri = p @ r" "char_at r 0 = NUL" "glob (c_str expression) p"
    using isUriMatch_globs by blast
  have "r = []" using assms(1) p(1,2) by (cases r) (auto simp: char_at_def)
  with p assms(2) show "glob expression uri" by (simp add: c_str_id)
next
  assume "glob expression uri"
  with assms have "match_loop uri (tokenize expression)"
    by (intro match_loop_complete)
      (simp_all add: last_token concat_tokenize alternating_tokenize)
  with assms show "isUriMatch uri expression None"
    by (simp add: isUriMatch_def isMatch_def last_token)
qed

theorem isUriMatch_exact_witness:
  "isUriMatch ''images/x.jpg'' ''images/*'' None \<longleftrightarrow> glob ''images/*'' ''images/x.jpg''"
  by (rule isUriMatch_exact) (simp_all add: NUL_def)

text \<open>
  Without the final star the leftmost search is incomplete: it commits to the first
  occurrence of the last literal.
\<close>

lemma isUriMatch_misses_suffix:
  "glob ''*.py'' ''a.py.py'' \<and> \<not> isUriMatch ''a.py.py'' ''*.py'' None"
  by (simp add: isUriMatch_def isMatch_def STAR_def NUL_def char_at_def)

end
