(* ===== verification/System.thy ===== *)
theory System
  imports Types
begin

text \<open>
  What the server asks of the operating system about files: a parameter of the model, as a
  record of functions of the path. The sources hand C strings to the system calls, so every
  access goes through \<open>c_str\<close>. The clock counts microseconds from the beginning of 1970;
  \<open>sys_stack\<close> is what an array that nothing was written to holds.
\<close>

datatype file_kind = Regular | Directory | Special

record system =
  sys_stat :: "string \<Rightarrow> file_kind option"
  sys_access :: "string \<Rightarrow> int \<Rightarrow> bool"
  sys_read :: "string \<Rightarrow> string option"
  sys_list :: "string \<Rightarrow> (string \<times> file_kind) list option"
  sys_create :: "string \<Rightarrow> bool"
  sys_stack :: "string"
  sys_now :: "int"

definition R_OK :: int where "R_OK = 4"
definition W_OK :: int where "W_OK = 2"

definition stat_kind :: "system \<Rightarrow> string \<Rightarrow> file_kind option" where
  "stat_kind sys path = sys_stat sys (c_str path)"

definition file_bytes :: "system \<Rightarrow> string \<Rightarrow> string option" where
  "file_bytes sys path = sys_read sys (c_str path)"

text \<open>\<open>checkRessourcePath\<close> of srcs/Host.cpp, also used for error pages.\<close>

definition checkRessourcePath :: "system \<Rightarrow> string \<Rightarrow> req_type \<Rightarrow> int \<Rightarrow> int" where
  "checkRessourcePath sys path type checkWrite =
     (case stat_kind sys path of
        None \<Rightarrow> RES_NOT_FOUND
      | Some kind \<Rightarrow>
          if type \<noteq> REQ_TYPE_DIR \<and> kind \<noteq> Regular then RES_FORBIDDEN
          else if type = REQ_TYPE_DIR \<and> kind \<noteq> Directory then RES_NOT_FOUND
          else if checkWrite \<noteq> 0 \<and> \<not> sys_access sys (c_str path) checkWrite then RES_FORBIDDEN
          else 0)"

lemma checkRessourcePath_ok:
  "checkRessourcePath sys path type w = 0 \<longleftrightarrow>
     stat_kind sys path = Some (if type = REQ_TYPE_DIR then Directory else Regular) \<and>
     (w = 0 \<or> sys_access sys (c_str path) w)"
  by (auto simp: checkRessourcePath_def res_defs split: option.splits)

end
