(* ===== verification/Host_Rules.thy ===== *)
theory Host_Rules
  imports Uri Wildcard System
begin

text \<open>
  A virtual host (includes/Host.hpp, srcs/Host.cpp): its configuration, the choice of the
  location and CGI block for a uri (\<open>getObjectMatch\<close>), and \<open>checkRequest\<close>, which
  decides whether a request is allowed, what it denotes and whether that exists.

  The lemmas show that the choice is a matching block whenever one exists, that
  \<open>checkRequest\<close> never dereferences a missing rule, that the status it returns is the
  one it records, and that an accepted request respects the methods, the upload flag and
  the existence of its resource.
\<close>

section \<open>Hosts\<close>

text \<open>Clients and listeners are pointers in the source, numbers here.\<close>

record Host =
  ho_addr :: string
  ho_ports :: "string list"
  ho_body_max_size :: int
  ho_dir_errors :: string
  ho_server_names :: "string list"
  ho_locationMap :: "(string, Location) std_map"
  ho_cgiMap :: "(string, CGIConfig) std_map"
  ho_clients :: "nat list"
  ho_listenServers :: "nat list"

definition new_Host :: Host where
  "new_Host =
     \<lparr> ho_addr = ''localhost'', ho_ports = [], ho_body_max_size = 2147483647,
       ho_dir_errors = [], ho_server_names = [], ho_locationMap = [], ho_cgiMap = [],
       ho_clients = [], ho_listenServers = [] \<rparr>"

definition getLocation :: "Host \<Rightarrow> string \<Rightarrow> Location option" where
  "getLocation h uri = map_find str_less uri (ho_locationMap h)"

definition getCGIConfig :: "Host \<Rightarrow> string \<Rightarrow> CGIConfig option" where
  "getCGIConfig h uri = map_find str_less uri (ho_cgiMap h)"

definition checkServerName :: "Host \<Rightarrow> string \<Rightarrow> bool" where
  "checkServerName h name = (name \<in> set (ho_server_names h))"

definition removeClient :: "nat \<Rightarrow> Host \<Rightarrow> Host" where
  "removeClient c h = h\<lparr>ho_clients := removeAll c (ho_clients h)\<rparr>"

definition addClient :: "nat \<Rightarrow> Host \<Rightarrow> Host" where
  "addClient c h = h\<lparr>ho_clients := ho_clients h @ [c]\<rparr>"

text \<open>The pools of configuration blocks are shared by all hosts and hold no duplicates.\<close>

definition CGIConfig_eq :: "CGIConfig \<Rightarrow> CGIConfig \<Rightarrow> bool" where
  "CGIConfig_eq a b =
     (\<not> (c_exec a \<noteq> c_exec b \<or> c_root a \<noteq> c_root b \<or> c_methods a \<noteq> c_methods b \<or>
         c_extension a \<noteq> c_extension b))"

definition Location_eq :: "Location \<Rightarrow> Location \<Rightarrow> bool" where
  "Location_eq a b =
     (\<not> (length (l_addr_redir a) \<noteq> length (l_addr_redir b) \<or>
         \<not> list_all2 (=) (l_addr_redir a) (l_addr_redir b) \<or>
         l_redir a \<noteq> l_redir b \<or> l_default_uri a \<noteq> l_default_uri b \<or>
         l_dir_listing a \<noteq> l_dir_listing b \<or> l_methods a \<noteq> l_methods b \<or>
         l_upload a \<noteq> l_upload b \<or> l_upload_root a \<noteq> l_upload_root b \<or>
         l_root a \<noteq> l_root b))"

definition intern :: "('a \<Rightarrow> 'a \<Rightarrow> bool) \<Rightarrow> 'a \<Rightarrow> 'a list \<Rightarrow> 'a \<times> 'a list" where
  "intern eq x pool =
     (case List.find (\<lambda>y. eq y x) pool of Some y \<Rightarrow> (y, pool) | None \<Rightarrow> (x, pool @ [x]))"

definition addLocation :: "string list \<Rightarrow> Location \<Rightarrow> Location list \<times> Host \<Rightarrow> Location list \<times> Host" where
  "addLocation names location st =
     (case st of (pool, h) \<Rightarrow>
        (case intern Location_eq location pool of (l, pool') \<Rightarrow>
           (pool', h\<lparr>ho_locationMap := fold (\<lambda>n m. map_set str_less n l m) names (ho_locationMap h)\<rparr>)))"

definition addCGIConfig :: "string list \<Rightarrow> CGIConfig \<Rightarrow> CGIConfig list \<times> Host \<Rightarrow> CGIConfig list \<times> Host" where
  "addCGIConfig names cgi st =
     (case st of (pool, h) \<Rightarrow>
        (case intern CGIConfig_eq cgi pool of (c, pool') \<Rightarrow>
           (pool', h\<lparr>ho_cgiMap := fold (\<lambda>n m. map_set str_less n c m) names (ho_cgiMap h)\<rparr>)))"

section \<open>Matching\<close>

text \<open>The scan of \<open>getObjectMatch\<close> over the map, with the best entry so far.\<close>

fun match_scan ::
  "('k \<Rightarrow> 'k option \<Rightarrow> bool) \<Rightarrow> ('k \<times> 'v) list \<Rightarrow> ('k \<times> 'v) option \<Rightarrow> ('k \<times> 'v) option" where
  "match_scan mt [] best = best"
| "match_scan mt ((k, v) # m) best =
     match_scan mt m (if mt k (map_option fst best) then Some (k, v) else best)"

definition getObjectMatch :: "(string, 'a) std_map \<Rightarrow> string \<Rightarrow> 'a option" where
  "getObjectMatch m uri = map_option snd (match_scan (isUriMatch uri) m None)"

definition matchLocation :: "Host \<Rightarrow> string \<Rightarrow> Location option" where
  "matchLocation h uri = getObjectMatch (ho_locationMap h) uri"

definition matchCGIConfig :: "Host \<Rightarrow> string \<Rightarrow> CGIConfig option" where
  "matchCGIConfig h uri = getObjectMatch (ho_cgiMap h) uri"

section \<open>Checks\<close>

definition set_type :: "req_type \<Rightarrow> Request \<Rightarrow> Request" where
  "set_type t rq = rq\<lparr>r_type := t\<rparr>"

definition set_locationRules :: "Location option \<Rightarrow> Request \<Rightarrow> Request" where
  "set_locationRules l rq = upd_hints (\<lambda>h. h\<lparr>h_locationRules := l\<rparr>) rq"

definition set_cgiRules :: "CGIConfig option \<Rightarrow> Request \<Rightarrow> Request" where
  "set_cgiRules c rq = upd_hints (\<lambda>h. h\<lparr>h_cgiRules := c\<rparr>) rq"

lemmas setter_defs = set_type_def set_locationRules_def set_cgiRules_def

abbreviation locationRules :: "Request \<Rightarrow> Location option" where
  "locationRules rq \<equiv> h_locationRules (r_hints rq)"

abbreviation cgiRules :: "Request \<Rightarrow> CGIConfig option" where
  "cgiRules rq \<equiv> h_cgiRules (r_hints rq)"

text \<open>\<open>1 << request.method\<close> for a method that was not recognised is undefined.\<close>

definition method_bit :: "int \<Rightarrow> Request \<Rightarrow> fault + bool" where
  "method_bit methods rq =
     (case r_method rq of None \<Rightarrow> Inl BadShift | Some m \<Rightarrow> Inr (method_allowed methods m))"

definition checkRedirection :: "Request \<Rightarrow> fault + int \<times> Request" where
  "checkRedirection rq =
     and_then (deref (locationRules rq)) (\<lambda>l.
       Inr (if l_redir l = 0 then (0, rq)
            else
              (let rq1 = (if l_redir l \<in> {RES_MULTIPLE_CHOICE, RES_MOVED_PERMANENTLY, RES_FOUND,
                              RES_SEE_OTHER, RES_TEMPORARY_REDIRECT, RES_PERMANENT_REDIRECT}
                          then set_status (l_redir l) rq else rq);
                   rq2 = upd_hints (\<lambda>h. h\<lparr>h_redirList := Some (l_addr_redir l)\<rparr>) rq1
               in (h_status (r_hints rq2), rq2))))"

definition matchRequest :: "Host \<Rightarrow> Request \<Rightarrow> fault + int \<times> Request" where
  "matchRequest h rq =
     (let rq1 = set_cgiRules (matchCGIConfig h (u_path (puri rq)))
                  (set_locationRules (matchLocation h (u_path (puri rq))) rq)
      in if locationRules rq1 = None \<and> cgiRules rq1 = None then
           Inr (RES_NOT_FOUND, set_type REQ_TYPE_NO_MATCH (set_status RES_NOT_FOUND rq1))
         else
           (case cgiRules rq1 of
              Some cgi \<Rightarrow>
                and_then (extractPathInfo (c_extension cgi) (set_type REQ_TYPE_CGI rq1)) (\<lambda>rq2.
                  Inr (0, if find_sub ''/'' (u_pathInfo (puri rq2)) \<noteq> None
                          then set_locationRules (matchLocation h (u_path (puri rq2))) rq2
                          else rq2))
            | None \<Rightarrow>
                Inr (0, if u_extension (puri rq1) = ''/'' then set_type REQ_TYPE_DIR rq1
                        else set_type REQ_TYPE_STATIC rq1)))"

definition checkDirRessource :: "Host \<Rightarrow> Request \<Rightarrow> fault + int \<times> Request" where
  "checkDirRessource h rq =
     and_then (deref (locationRules rq)) (\<lambda>l.
       if l_default_uri l \<noteq> [] then
         and_then (matchRequest h (snd (parseURI_suffix (l_default_uri l) rq))) (\<lambda>(res, rq1).
           Inr (if res \<noteq> 0 then RES_NOT_FOUND else 0, rq1))
       else if l_dir_listing l then
         Inr (if r_method rq \<noteq> Some GET then (RES_FORBIDDEN, set_status RES_FORBIDDEN rq)
              else (0, upd_hints (\<lambda>h. h\<lparr>h_path := u_path (h_parsedUri h)\<rparr>) rq))
       else Inr (0, rq))"

definition checkLocationRules :: "Request \<Rightarrow> fault + int \<times> Request" where
  "checkLocationRules rq =
     and_then (deref (locationRules rq)) (\<lambda>l.
       and_then (method_bit (l_methods l) rq) (\<lambda>allowed.
         Inr (if \<not> allowed then (RES_METHOD_NOT_ALLOWED, set_status RES_METHOD_NOT_ALLOWED rq)
              else if (r_method rq = Some POST \<or> r_method rq = Some PUT)
                      \<and> r_type rq = REQ_TYPE_STATIC \<and> \<not> l_upload l
              then (RES_FORBIDDEN, set_status RES_FORBIDDEN rq)
              else (0, rq))))"

definition checkCGIRules :: "Request \<Rightarrow> fault + int \<times> Request" where
  "checkCGIRules rq =
     and_then (deref (cgiRules rq)) (\<lambda>c.
       and_then (method_bit (c_methods c) rq) (\<lambda>allowed.
         Inr (if \<not> allowed then (RES_METHOD_NOT_ALLOWED, set_status RES_METHOD_NOT_ALLOWED rq)
              else (0, rq))))"

definition checkRessourceExistence :: "system \<Rightarrow> Request \<Rightarrow> fault + int \<times> Request" where
  "checkRessourceExistence sys rq =
     and_then
       (if r_type rq = REQ_TYPE_CGI then
          and_then (deref (cgiRules rq)) (\<lambda>c.
            (let path = c_root c @ u_path (puri rq) in
             Inr (checkRessourcePath sys path REQ_TYPE_CGI R_OK,
                  upd_hints (\<lambda>h. h\<lparr>h_scriptPath := path\<rparr>) rq)))
        else
          and_then (deref (locationRules rq)) (\<lambda>l.
            if r_method rq = Some POST \<or> r_method rq = Some PUT then
              (let path = (if l_upload_root l \<noteq> [] then l_upload_root l else l_root l) in
               Inr (checkRessourcePath sys (path @ u_root (puri rq)) REQ_TYPE_DIR 0, rq))
            else
              (let path = l_root l @ u_path (puri rq) in
               Inr (checkRessourcePath sys path (r_type rq) R_OK,
                    upd_hints (\<lambda>h. h\<lparr>h_path := path\<rparr>) rq))))
       (\<lambda>(res, rq1). Inr (res, set_status res rq1))"

text \<open>\<open>checkRequest\<close>: the steps in the order of the source, stopping at the first non-zero.\<close>

definition step_if :: "bool \<Rightarrow> (Request \<Rightarrow> fault + int \<times> Request) \<Rightarrow> int \<times> Request \<Rightarrow> fault + int \<times> Request" where
  "step_if c f r = (if fst r = 0 \<and> c then f (snd r) else Inr r)"

definition checkRequest :: "system \<Rightarrow> Host \<Rightarrow> Request \<Rightarrow> fault + int \<times> Request" where
  "checkRequest sys h rq =
     and_then (matchRequest h rq) (\<lambda>r1.
     and_then (step_if (locationRules (snd r1) \<noteq> None) checkRedirection r1) (\<lambda>r2.
     and_then (step_if (r_type (snd r2) = REQ_TYPE_DIR) (checkDirRessource h) r2) (\<lambda>r3.
     and_then (step_if (locationRules (snd r3) \<noteq> None) checkLocationRules r3) (\<lambda>r4.
     and_then (step_if (r_type (snd r4) = REQ_TYPE_CGI) checkCGIRules r4) (\<lambda>r5.
     step_if True (checkRessourceExistence sys) r5)))))"

section \<open>The chosen block\<close>

text \<open>
  The contract between the scan and the matcher it calls: being better than the best entry
  so far presupposes being a match.
\<close>

locale matcher =
  fixes mt :: "'k \<Rightarrow> 'k option \<Rightarrow> bool"
  assumes better_matches: "mt k (Some p) \<Longrightarrow> mt k None"
begin

lemma mt_matches: "mt k p \<Longrightarrow> mt k None"
  by (cases p) (auto dest: better_matches)

lemma scan_keeps: "match_scan mt m (Some b) \<noteq> None"
  by (induction m arbitrary: b) auto

lemma scan_sound:
  "match_scan mt m best = Some (k, v) \<Longrightarrow> best = Some (k, v) \<or> ((k, v) \<in> set m \<and> mt k None)"
proof (induction m arbitrary: best)
  case (Cons p m)
  obtain k' v' where p: "p = (k', v')" by (cases p)
  with Cons.IH [of "if mt k' (map_option fst best) then Some (k', v') else best"] Cons.prems
  show ?case by (auto split: if_splits intro: mt_matches)
qed simp

lemma scan_none: "match_scan mt m None = None \<longleftrightarrow> (\<forall>k \<in> fst ` set m. \<not> mt k None)"
proof (induction m)
  case (Cons p m)
  then show ?case by (cases p; cases "mt (fst p) None") (auto simp: scan_keeps)
qed simp

end

interpretation uri_matcher: matcher "isUriMatch uri" for uri
  by unfold_locales (simp add: isUriMatch_def split: if_splits)

lemma getObjectMatch_mem: "getObjectMatch m uri = Some v \<Longrightarrow> v \<in> snd ` set m"
  using uri_matcher.scan_sound [of uri m None] by (force simp: getObjectMatch_def)

text \<open>
  C22. The block chosen for a uri stands under an expression that matches the uri, and none
  is chosen only if no expression matches.
\<close>

theorem getObjectMatch_spec:
  "case getObjectMatch m uri of
     None \<Rightarrow> \<forall>k \<in> fst ` set m. \<not> isMatch uri (tokenize k)
   | Some v \<Rightarrow> \<exists>k. (k, v) \<in> set m \<and> isMatch uri (tokenize k)"
proof (cases "match_scan (isUriMatch uri) m None")
  case None
  then show ?thesis
    using uri_matcher.scan_none [of uri m] by (auto simp: getObjectMatch_def isUriMatch_def)
next
  case (Some kv)
  obtain k v where "kv = (k, v)" by (cases kv)
  with Some uri_matcher.scan_sound [of uri m None k v] show ?thesis
    by (auto simp: getObjectMatch_def isUriMatch_def split: if_splits)
qed

theorem getObjectMatch_spec_witness:
  "getObjectMatch [(''*'', 1::nat), (''img/*'', 2)] ''img/a'' = Some 2 \<and>
   (\<exists>k. (k, 2) \<in> set [(''*'', 1::nat), (''img/*'', 2)] \<and> isMatch ''img/a'' (tokenize k))"
proof -
  have "getObjectMatch [(''*'', 1::nat), (''img/*'', 2)] ''img/a'' = Some 2" by code_simp
  with getObjectMatch_spec [of "[(''*'', 1::nat), (''img/*'', 2)]" "''img/a''"] show ?thesis
    by simp
qed

section \<open>What the checks preserve and report\<close>

text \<open>A request that has been matched: its type and the rules the later steps read.\<close>

definition matched :: "Request \<Rightarrow> bool" where
  "matched rq \<longleftrightarrow>
     (case r_type rq of
        REQ_TYPE_NO_MATCH \<Rightarrow> False
      | REQ_TYPE_CGI \<Rightarrow> cgiRules rq \<noteq> None
      | _ \<Rightarrow> locationRules rq \<noteq> None)"

definition rules_of :: "Host \<Rightarrow> Request \<Rightarrow> bool" where
  "rules_of h rq \<longleftrightarrow>
     (\<forall>l. locationRules rq = Some l \<longrightarrow> l \<in> snd ` set (ho_locationMap h)) \<and>
     (\<forall>c. cgiRules rq = Some c \<longrightarrow> c \<in> snd ` set (ho_cgiMap h))"

text \<open>What no check changes once the request is matched.\<close>

definition same_rules :: "Request \<Rightarrow> Request \<Rightarrow> bool" where
  "same_rules rq rq' \<longleftrightarrow>
     r_type rq' = r_type rq \<and> r_method rq' = r_method rq \<and>
     locationRules rq' = locationRules rq \<and> cgiRules rq' = cgiRules rq"

lemma same_rules_cong:
  "same_rules rq rq' \<Longrightarrow> matched rq' = matched rq \<and> rules_of h rq' = rules_of h rq"
  by (simp add: same_rules_def matched_def rules_of_def split: req_type.split)

lemma extractPathInfo_keeps:
  "extractPathInfo ext rq = Inr rq' \<Longrightarrow> same_rules rq rq' \<and> h_status (r_hints rq') = h_status (r_hints rq)"
  by (auto simp: extractPathInfo_def Let_def and_then_eq_Inr same_rules_def split: option.splits prod.splits)

lemma extractPathInfo_fault: "extractPathInfo ext rq = Inl e \<Longrightarrow> e = OutOfRange"
  by (auto simp: extractPathInfo_def Let_def and_then_eq_Inl substr_from_def
      split: option.splits prod.splits if_splits)

lemma parseURI_method: "r_method (snd (parseURI_suffix suf rq)) = r_method rq"
  by (simp add: parseURI_suffix_def parseURI_def fillError_def Let_def split: prod.splits)

lemma matchRequest_fault: "matchRequest h rq = Inl e \<Longrightarrow> e = OutOfRange"
  by (auto simp: matchRequest_def Let_def and_then_eq_Inl setter_defs
      split: option.splits if_splits dest: extractPathInfo_fault)

lemma matchRequest_result:
  assumes "matchRequest h rq = Inr (res, rq')"
  shows "r_method rq' = r_method rq \<and> rules_of h rq' \<and>
    (res = 0 \<and> matched rq' \<or> res = RES_NOT_FOUND \<and> h_status (r_hints rq') = RES_NOT_FOUND)"
proof -
  let ?loc = "matchLocation h (u_path (puri rq))" and ?cgi = "matchCGIConfig h (u_path (puri rq))"
  have mem: "l \<in> snd ` set (ho_locationMap h)" if "matchLocation h u = Some l" for l u
    using that by (auto simp: matchLocation_def dest: getObjectMatch_mem)
  have memc: "c \<in> snd ` set (ho_cgiMap h)" if "matchCGIConfig h u = Some c" for c u
    using that by (auto simp: matchCGIConfig_def dest: getObjectMatch_mem)
  show ?thesis
  proof (cases ?cgi)
    case None
    with assms show ?thesis
      by (cases ?loc) (auto simp: matchRequest_def Let_def setter_defs matched_def rules_of_def
          split: if_splits dest: mem)
  next
    case (Some c)
    let ?rqc = "set_type REQ_TYPE_CGI (set_cgiRules ?cgi (set_locationRules ?loc rq))"
    have "and_then (extractPathInfo (c_extension c) ?rqc) (\<lambda>rq2.
        Inr (0, if find_sub ''/'' (u_pathInfo (puri rq2)) \<noteq> None
                then set_locationRules (matchLocation h (u_path (puri rq2))) rq2
                else rq2)) = Inr (res, rq')"
      using assms Some by (simp add: matchRequest_def Let_def setter_defs)
    then obtain rq2 where ex: "extractPathInfo (c_extension c) ?rqc = Inr rq2"
      and rq': "res = 0" "rq' = rq2 \<or>
             rq' = set_locationRules (matchLocation h (u_path (puri rq2))) rq2"
      unfolding and_then_eq_Inr by (elim exE conjE) (simp split: if_splits)
    have "r_type rq2 = REQ_TYPE_CGI" "r_method rq2 = r_method rq" "cgiRules rq2 = Some c"
        "locationRules rq2 = ?loc"
      using extractPathInfo_keeps [OF ex] Some by (simp_all add: same_rules_def setter_defs)
    with rq' memc [OF Some] show ?thesis
      by (auto simp: matched_def rules_of_def setter_defs dest: mem mem [OF sym]
          intro: rev_image_eqI)
  qed
qed

lemma checkRedirection_result:
  assumes "checkRedirection rq = Inr (res, rq')"
  shows "same_rules rq rq' \<and> (res \<noteq> 0 \<longrightarrow> h_status (r_hints rq') = res)"
proof (cases "locationRules rq")
  case (Some l)
  show ?thesis
  proof (cases "l_redir l = 0")
    case True
    with assms Some show ?thesis by (simp add: checkRedirection_def same_rules_def)
  next
    case False
    with assms Some show ?thesis
      unfolding checkRedirection_def Let_def by (auto simp: same_rules_def split: if_splits)
  qed
qed (use assms in \<open>simp add: checkRedirection_def\<close>)

lemma checkDirRessource_result:
  assumes "checkDirRessource h rq = Inr (res, rq')" and "matched rq" and "rules_of h rq"
  shows "r_method rq' = r_method rq \<and> rules_of h rq' \<and>
    (res = 0 \<and> matched rq' \<or> res \<noteq> 0 \<and> h_status (r_hints rq') = res)"
proof -
  obtain l where l: "locationRules rq = Some l"
    using assms(1) by (cases "locationRules rq") (auto simp: checkDirRessource_def)
  show ?thesis
  proof (cases "l_default_uri l = []")
    case True
    have "same_rules rq rq' \<and> (res \<noteq> 0 \<longrightarrow> h_status (r_hints rq') = res)"
      using assms(1) l True
      by (auto simp: checkDirRessource_def same_rules_def split: if_splits)
    with assms(2,3) same_rules_cong [of rq rq' h] show ?thesis by (auto simp: same_rules_def)
  next
    case False
    then obtain r rq1 where m: "matchRequest h (snd (parseURI_suffix (l_default_uri l) rq)) = Inr (r, rq1)"
      and "res = (if r \<noteq> 0 then RES_NOT_FOUND else 0)" "rq' = rq1"
      using assms(1) l by (auto simp: checkDirRessource_def and_then_eq_Inr)
    with matchRequest_result [OF m] show ?thesis
      by (auto simp: parseURI_method res_defs split: if_splits)
  qed
qed

lemma checkLocationRules_result:
  assumes "checkLocationRules rq = Inr (res, rq')"
  shows "same_rules rq rq' \<and> (res \<noteq> 0 \<longrightarrow> h_status (r_hints rq') = res) \<and>
    (res = 0 \<longrightarrow> (\<exists>l m. locationRules rq = Some l \<and> r_method rq = Some m \<and>
       method_allowed (l_methods l) m \<and>
       ((m = POST \<or> m = PUT) \<and> r_type rq = REQ_TYPE_STATIC \<longrightarrow> l_upload l)))"
  using assms
  by (cases "locationRules rq"; cases "r_method rq")
    (auto simp: checkLocationRules_def method_bit_def same_rules_def res_defs split: if_splits)

lemma checkCGIRules_result:
  assumes "checkCGIRules rq = Inr (res, rq')"
  shows "same_rules rq rq' \<and> (res \<noteq> 0 \<longrightarrow> h_status (r_hints rq') = res) \<and>
    (res = 0 \<longrightarrow> (\<exists>c m. cgiRules rq = Some c \<and> r_method rq = Some m \<and>
       method_allowed (c_methods c) m))"
  using assms
  by (cases "cgiRules rq"; cases "r_method rq")
    (auto simp: checkCGIRules_def method_bit_def same_rules_def res_defs split: if_splits)

lemma checkRessourceExistence_result:
  assumes "checkRessourceExistence sys rq = Inr (res, rq')"
  shows "same_rules rq rq' \<and> puri rq' = puri rq \<and> h_status (r_hints rq') = res \<and>
    (res = 0 \<longrightarrow>
      (if r_type rq = REQ_TYPE_CGI then
         (\<exists>c. cgiRules rq = Some c \<and> h_scriptPath (r_hints rq') = c_root c @ u_path (puri rq) \<and>
            checkRessourcePath sys (c_root c @ u_path (puri rq)) REQ_TYPE_CGI R_OK = 0)
       else
         (\<exists>l. locationRules rq = Some l \<and>
            (if r_method rq = Some POST \<or> r_method rq = Some PUT
             then checkRessourcePath sys
                    ((if l_upload_root l \<noteq> [] then l_upload_root l else l_root l) @ u_root (puri rq))
                    REQ_TYPE_DIR 0 = 0
             else h_path (r_hints rq') = l_root l @ u_path (puri rq) \<and>
                  checkRessourcePath sys (l_root l @ u_path (puri rq)) (r_type rq) R_OK = 0))))"
proof (cases "r_type rq = REQ_TYPE_CGI")
  case True
  with assms show ?thesis
    by (cases "cgiRules rq") (auto simp: checkRessourceExistence_def Let_def same_rules_def)
next
  case False
  with assms show ?thesis
    by (cases "locationRules rq")
      (auto simp: checkRessourceExistence_def Let_def same_rules_def split: if_splits)
qed

section \<open>checkRequest\<close>

text \<open>The intermediate results of a run of \<open>checkRequest\<close>.\<close>

lemma checkRequest_steps:
  assumes "checkRequest sys h rq = Inr r"
  obtains r1 r2 r3 r4 r5 where "matchRequest h rq = Inr r1"
    and "step_if (locationRules (snd r1) \<noteq> None) checkRedirection r1 = Inr r2"
    and "step_if (r_type (snd r2) = REQ_TYPE_DIR) (checkDirRessource h) r2 = Inr r3"
    and "step_if (locationRules (snd r3) \<noteq> None) checkLocationRules r3 = Inr r4"
    and "step_if (r_type (snd r4) = REQ_TYPE_CGI) checkCGIRules r4 = Inr r5"
    and "step_if True (checkRessourceExistence sys) r5 = Inr r"
  using assms unfolding checkRequest_def and_then_eq_Inr by blast

text \<open>What holds of every intermediate result.\<close>

definition progress :: "Host \<Rightarrow> http_method option \<Rightarrow> int \<times> Request \<Rightarrow> bool" where
  "progress h m r \<longleftrightarrow>
     r_method (snd r) = m \<and> rules_of h (snd r) \<and>
     (if fst r = 0 then matched (snd r) else h_status (r_hints (snd r)) = fst r)"

lemma progress_same:
  "progress h m (0, rq) \<Longrightarrow> same_rules rq rq' \<Longrightarrow> (res \<noteq> 0 \<longrightarrow> h_status (r_hints rq') = res) \<Longrightarrow>
   progress h m (res, rq')"
  using same_rules_cong [of rq rq' h] by (simp add: progress_def same_rules_def)

lemma step_progress:
  assumes "step_if c f r = Inr r'" and "progress h m r"
    and "\<And>res rq'. f (snd r) = Inr (res, rq') \<Longrightarrow> progress h m (0, snd r) \<Longrightarrow> progress h m (res, rq')"
  shows "progress h m r'"
  using assms by (cases r; cases r') (auto simp: step_if_def split: if_splits)

lemma progress_redir:
  "checkRedirection rq = Inr (res, rq') \<Longrightarrow> progress h m (0, rq) \<Longrightarrow> progress h m (res, rq')"
  using progress_same checkRedirection_result by blast

lemma progress_dir:
  "checkDirRessource h rq = Inr (res, rq') \<Longrightarrow> progress h m (0, rq) \<Longrightarrow> progress h m (res, rq')"
  using checkDirRessource_result [of h rq res rq'] by (auto simp: progress_def)

lemma progress_loc:
  "checkLocationRules rq = Inr (res, rq') \<Longrightarrow> progress h m (0, rq) \<Longrightarrow> progress h m (res, rq')"
  using progress_same checkLocationRules_result by blast

lemma progress_cgi:
  "checkCGIRules rq = Inr (res, rq') \<Longrightarrow> progress h m (0, rq) \<Longrightarrow> progress h m (res, rq')"
  using progress_same checkCGIRules_result by blast

lemma checkRequest_progress:
  assumes "matchRequest h rq = Inr r1"
    and "step_if (locationRules (snd r1) \<noteq> None) checkRedirection r1 = Inr r2"
    and "step_if (r_type (snd r2) = REQ_TYPE_DIR) (checkDirRessource h) r2 = Inr r3"
    and "step_if (locationRules (snd r3) \<noteq> None) checkLocationRules r3 = Inr r4"
    and "step_if (r_type (snd r4) = REQ_TYPE_CGI) checkCGIRules r4 = Inr r5"
  shows "progress h (r_method rq) r1 \<and> progress h (r_method rq) r2 \<and> progress h (r_method rq) r3 \<and>
    progress h (r_method rq) r4 \<and> progress h (r_method rq) r5"
proof -
  let ?P = "progress h (r_method rq)"
  obtain res1 rq1 where r1: "r1 = (res1, rq1)" by (cases r1)
  have p1: "?P r1"
    using matchRequest_result [of h rq res1 rq1] assms(1) by (auto simp: r1 progress_def res_defs)
  note p2 = step_progress [OF assms(2) p1 progress_redir]
  note p3 = step_progress [OF assms(3) p2 progress_dir]
  note p4 = step_progress [OF assms(4) p3 progress_loc]
  note p5 = step_progress [OF assms(5) p4 progress_cgi]
  show ?thesis using p1 p2 p3 p4 p5 by simp
qed

text \<open>
  The status \<open>checkRequest\<close> returns is the one it records in the request, 0 included.
\<close>

theorem checkRequest_status:
  assumes "checkRequest sys h rq = Inr (res, rq')"
  shows "h_status (r_hints rq') = res"
proof -
  from assms obtain r1 r2 r3 r4 r5 where steps:
    "matchRequest h rq = Inr r1"
    "step_if (locationRules (snd r1) \<noteq> None) checkRedirection r1 = Inr r2"
    "step_if (r_type (snd r2) = REQ_TYPE_DIR) (checkDirRessource h) r2 = Inr r3"
    "step_if (locationRules (snd r3) \<noteq> None) checkLocationRules r3 = Inr r4"
    "step_if (r_type (snd r4) = REQ_TYPE_CGI) checkCGIRules r4 = Inr r5"
    and last: "step_if True (checkRessourceExistence sys) r5 = Inr (res, rq')"
    by (rule checkRequest_steps)
  show ?thesis
    using last checkRequest_progress [OF steps] checkRessourceExistence_result [of sys "snd r5" res rq']
    by (auto simp: step_if_def progress_def split: if_splits)
qed

text \<open>What an accepted request satisfies.\<close>

definition admitted :: "system \<Rightarrow> Host \<Rightarrow> http_method \<Rightarrow> Request \<Rightarrow> bool" where
  "admitted sys h m rq \<longleftrightarrow>
     (\<forall>l. locationRules rq = Some l \<longrightarrow>
        l \<in> snd ` set (ho_locationMap h) \<and> method_allowed (l_methods l) m \<and>
        ((m = POST \<or> m = PUT) \<and> r_type rq = REQ_TYPE_STATIC \<longrightarrow> l_upload l)) \<and>
     (if r_type rq = REQ_TYPE_CGI then
        (\<exists>c \<in> snd ` set (ho_cgiMap h). cgiRules rq = Some c \<and> method_allowed (c_methods c) m \<and>
           h_scriptPath (r_hints rq) = c_root c @ u_path (puri rq) \<and>
           checkRessourcePath sys (h_scriptPath (r_hints rq)) REQ_TYPE_CGI R_OK = 0)
      else
        r_type rq \<noteq> REQ_TYPE_NO_MATCH \<and>
        (\<exists>l. locationRules rq = Some l \<and>
           (if m = POST \<or> m = PUT
            then checkRessourcePath sys
                   ((if l_upload_root l \<noteq> [] then l_upload_root l else l_root l) @ u_root (puri rq))
                   REQ_TYPE_DIR 0 = 0
            else h_path (r_hints rq) = l_root l @ u_path (puri rq) \<and>
                 checkRessourcePath sys (h_path (r_hints rq)) (r_type rq) R_OK = 0)))"

lemma step_zero:
  "step_if c f r = Inr (0, rq') \<Longrightarrow>
   \<exists>rq. r = (0, rq) \<and> (if c then f rq = Inr (0, rq') else rq' = rq)"
  by (cases r) (auto simp: step_if_def split: if_splits)

lemma checkRequest_admitted:
  assumes "checkRequest sys h rq = Inr (0, rq')" and "r_method rq = Some m"
  shows "admitted sys h m rq'"
proof -
  from assms(1) obtain r1 r2 r3 r4 r5 where steps:
    "matchRequest h rq = Inr r1"
    "step_if (locationRules (snd r1) \<noteq> None) checkRedirection r1 = Inr r2"
    "step_if (r_type (snd r2) = REQ_TYPE_DIR) (checkDirRessource h) r2 = Inr r3"
    "step_if (locationRules (snd r3) \<noteq> None) checkLocationRules r3 = Inr r4"
    "step_if (r_type (snd r4) = REQ_TYPE_CGI) checkCGIRules r4 = Inr r5"
    and last: "step_if True (checkRessourceExistence sys) r5 = Inr (0, rq')"
    by (rule checkRequest_steps)
  from step_zero [OF last] obtain rq5 where r5: "r5 = (0, rq5)"
    and ex: "checkRessourceExistence sys rq5 = Inr (0, rq')" by auto
  from step_zero [OF steps(5) [unfolded r5]] obtain rq4 where r4: "r4 = (0, rq4)"
    and cgi: "if r_type rq4 = REQ_TYPE_CGI then checkCGIRules rq4 = Inr (0, rq5) else rq5 = rq4"
    by auto
  from step_zero [OF steps(4) [unfolded r4]] obtain rq3 where r3: "r3 = (0, rq3)"
    and loc: "if locationRules rq3 \<noteq> None then checkLocationRules rq3 = Inr (0, rq4) else rq4 = rq3"
    by auto
  have prog: "r_method rq3 = Some m" "rules_of h rq3" "matched rq3"
    using checkRequest_progress [OF steps] assms(2) by (simp_all add: r3 progress_def)
  have same34: "same_rules rq3 rq4"
    and locs: "\<And>l. locationRules rq3 = Some l \<Longrightarrow> method_allowed (l_methods l) m \<and>
        ((m = POST \<or> m = PUT) \<and> r_type rq3 = REQ_TYPE_STATIC \<longrightarrow> l_upload l)"
    using loc prog(1) checkLocationRules_result [of rq3 0 rq4]
    by (auto simp: same_rules_def split: if_splits)
  have same45: "same_rules rq4 rq5"
    and cgis: "\<And>c. r_type rq4 = REQ_TYPE_CGI \<Longrightarrow> cgiRules rq4 = Some c \<Longrightarrow> method_allowed (c_methods c) m"
    using cgi prog(1) same34 checkCGIRules_result [of rq4 0 rq5]
    by (auto simp: same_rules_def split: if_splits)
  note exr = checkRessourceExistence_result [OF ex]
  have all: "r_type rq' = r_type rq3" "locationRules rq' = locationRules rq3"
    "cgiRules rq' = cgiRules rq3" "r_type rq5 = r_type rq3" "locationRules rq5 = locationRules rq3"
    "cgiRules rq5 = cgiRules rq3" "r_method rq5 = Some m"  "puri rq5 = puri rq'"
    using exr same34 same45 prog(1) by (simp_all add: same_rules_def)
  show ?thesis
  proof (cases "r_type rq3 = REQ_TYPE_CGI")
    case True
    then show ?thesis
      using exr prog locs cgis same34 unfolding admitted_def all
      by (auto simp: all same_rules_def rules_of_def)
  next
    case False
    then show ?thesis
      using exr prog locs unfolding admitted_def all
      by (auto simp: all rules_of_def matched_def)
  qed
qed

lemma checkRequest_method:
  assumes "checkRequest sys h rq = Inr (res, rq')"
  shows "r_method rq' = r_method rq"
proof -
  from assms obtain r1 r2 r3 r4 r5 where steps:
    "matchRequest h rq = Inr r1"
    "step_if (locationRules (snd r1) \<noteq> None) checkRedirection r1 = Inr r2"
    "step_if (r_type (snd r2) = REQ_TYPE_DIR) (checkDirRessource h) r2 = Inr r3"
    "step_if (locationRules (snd r3) \<noteq> None) checkLocationRules r3 = Inr r4"
    "step_if (r_type (snd r4) = REQ_TYPE_CGI) checkCGIRules r4 = Inr r5"
    and last: "step_if True (checkRessourceExistence sys) r5 = Inr (res, rq')"
    by (rule checkRequest_steps)
  show ?thesis
    using last checkRequest_progress [OF steps] checkRessourceExistence_result [of sys "snd r5" res rq']
    by (auto simp: step_if_def progress_def same_rules_def split: if_splits)
qed

text \<open>
  C7. A request \<open>checkRequest\<close> accepts (returns 0 for) is covered by rules of the
  host: its method is allowed by the location block and, for a script, by the CGI block;
  an upload of a file is into a location with uploads on; and the script, the file, the
  directory or the upload directory it denotes exists with the right kind and access.
\<close>

theorem checkRequest_admits:
  assumes "checkRequest sys h rq = Inr (0, rq')" and "r_method rq = Some m"
  shows "admitted sys h m rq'"
  using assms by (rule checkRequest_admitted)

text \<open>A host and a file system to run the model on.\<close>

definition demo_system :: system where
  "demo_system =
     \<lparr> sys_stat = (\<lambda>p. if p = ''www/a'' then Some Regular
                      else if p = ''www/'' \<or> p = ''www//'' then Some Directory else None),
       sys_access = (\<lambda>p m. True),
       sys_read = (\<lambda>p. if p = ''www/a'' then Some ''content'' else None),
       sys_list = (\<lambda>p. if p = ''www/'' \<or> p = ''www//'' then Some [(''.'', Directory), (''..'', Directory), (''a'', Regular)] else None),
       sys_create = (\<lambda>p. True), sys_stack = [], sys_now = 0 \<rparr>"

definition demo_location :: Location where
  "demo_location = new_Location\<lparr>l_root := ''www/''\<rparr>"

definition demo_host :: Host where
  "demo_host = new_Host\<lparr>ho_server_names := [''h''], ho_locationMap := [(''*'', demo_location)]\<rparr>"

definition demo_request :: "http_method \<Rightarrow> string \<Rightarrow> Request" where
  "demo_request m uri = snd (parseURI (new_Request\<lparr>r_method := Some m, r_uri := uri, r_status := PTERM\<rparr>))"

theorem checkRequest_admits_witness:
  "\<exists>rq'. checkRequest demo_system demo_host (demo_request GET ''/a'') = Inr (0, rq') \<and>
     admitted demo_system demo_host GET rq'"
proof -
  have "case checkRequest demo_system demo_host (demo_request GET ''/a'') of
      Inl e \<Rightarrow> False | Inr (res, _) \<Rightarrow> res = 0"
    by code_simp
  then obtain rq' where "checkRequest demo_system demo_host (demo_request GET ''/a'') = Inr (0, rq')"
    by (auto split: sum.splits prod.splits)
  moreover have "r_method (demo_request GET ''/a'') = Some GET" by code_simp
  ultimately show ?thesis using checkRequest_admits by blast
qed

theorem checkRequest_status_witness:
  "\<exists>rq'. checkRequest demo_system demo_host (demo_request POST ''/a'') = Inr (405, rq') \<and>
     h_status (r_hints rq') = 405"
proof -
  have "case checkRequest demo_system demo_host (demo_request POST ''/a'') of
      Inl e \<Rightarrow> False | Inr (res, _) \<Rightarrow> res = 405"
    by code_simp
  then obtain rq' where "checkRequest demo_system demo_host (demo_request POST ''/a'') = Inr (405, rq')"
    by (auto split: sum.splits prod.splits)
  from checkRequest_status [OF this] this show ?thesis by blast
qed

lemma checkRedirection_fault: "checkRedirection rq = Inl e \<Longrightarrow> locationRules rq = None"
  by (cases "locationRules rq") (auto simp: checkRedirection_def)

lemma checkDirRessource_fault:
  "checkDirRessource h rq = Inl e \<Longrightarrow> locationRules rq \<noteq> None \<Longrightarrow> e = OutOfRange"
  by (cases "locationRules rq")
    (auto simp: checkDirRessource_def and_then_eq_Inl split: if_splits dest: matchRequest_fault)

lemma checkLocationRules_fault:
  "checkLocationRules rq = Inl e \<Longrightarrow> locationRules rq = None \<or> r_method rq = None"
  by (cases "locationRules rq"; cases "r_method rq")
    (auto simp: checkLocationRules_def method_bit_def split: if_splits)

lemma checkCGIRules_fault: "checkCGIRules rq = Inl e \<Longrightarrow> cgiRules rq = None \<or> r_method rq = None"
  by (cases "cgiRules rq"; cases "r_method rq")
    (auto simp: checkCGIRules_def method_bit_def split: if_splits)

lemma checkRessourceExistence_fault:
  "checkRessourceExistence sys rq = Inl e \<Longrightarrow> \<not> matched rq"
  by (cases "cgiRules rq"; cases "locationRules rq")
    (auto simp: checkRessourceExistence_def matched_def Let_def split: if_splits req_type.splits)

lemma yields_step:
  assumes "progress h m r"
    and "\<And>e. fst r = 0 \<Longrightarrow> c \<Longrightarrow> f (snd r) = Inl e \<Longrightarrow> e = OutOfRange"
    and "\<And>res rq'. f (snd r) = Inr (res, rq') \<Longrightarrow> progress h m (0, snd r) \<Longrightarrow> progress h m (res, rq')"
  shows "yields ((=) OutOfRange) (progress h m) (step_if c f r)"
proof (rule yieldsI)
  show "OutOfRange = e" if "step_if c f r = Inl e" for e
    using that assms(2) by (force simp: step_if_def split: if_splits)
  show "progress h m r'" if "step_if c f r = Inr r'" for r'
    using that assms(1,3) by (rule step_progress)
qed

lemma progress_facts:
  "progress h (Some m) r \<Longrightarrow> fst r = 0 \<Longrightarrow> r_method (snd r) = Some m \<and>
     (r_type (snd r) = REQ_TYPE_DIR \<longrightarrow> locationRules (snd r) \<noteq> None) \<and>
     (r_type (snd r) = REQ_TYPE_CGI \<longrightarrow> cgiRules (snd r) \<noteq> None)"
  by (auto simp: progress_def matched_def)

lemma checkRequest_yields:
  assumes m: "r_method rq = Some m"
  shows "yields ((=) OutOfRange) (\<lambda>_. True) (checkRequest sys h rq)"
  unfolding checkRequest_def
proof (intro yields_bind [where P = "progress h (Some m)"])
  let ?P = "progress h (Some m)"
  show "yields ((=) OutOfRange) ?P (matchRequest h rq)"
    using matchRequest_result [of h rq] m
    by (intro yieldsI) (auto simp: progress_def res_defs dest: matchRequest_fault)
  show "yields ((=) OutOfRange) ?P (step_if (locationRules (snd r) \<noteq> None) checkRedirection r)"
    if "?P r" for r
    using that by (rule yields_step) (auto dest: checkRedirection_fault progress_redir)
  show "yields ((=) OutOfRange) ?P (step_if (r_type (snd r) = REQ_TYPE_DIR) (checkDirRessource h) r)"
    if "?P r" for r
    using that by (rule yields_step)
      (use progress_facts [OF that] in \<open>auto dest: checkDirRessource_fault progress_dir\<close>)
  show "yields ((=) OutOfRange) ?P (step_if (locationRules (snd r) \<noteq> None) checkLocationRules r)"
    if "?P r" for r
    using that by (rule yields_step)
      (use progress_facts [OF that] in \<open>auto dest: checkLocationRules_fault progress_loc\<close>)
  show "yields ((=) OutOfRange) ?P (step_if (r_type (snd r) = REQ_TYPE_CGI) checkCGIRules r)"
    if "?P r" for r
    using that by (rule yields_step)
      (use progress_facts [OF that] in \<open>auto dest: checkCGIRules_fault progress_cgi\<close>)
  show "yields ((=) OutOfRange) (\<lambda>_. True) (step_if True (checkRessourceExistence sys) r)"
    if "?P r" for r
    using that by (intro yieldsI)
      (auto simp: step_if_def progress_def dest: checkRessourceExistence_fault split: if_splits)
qed

text \<open>
  C39. On a request whose method was recognised, \<open>checkRequest\<close> never dereferences a
  missing rule nor shifts by a negative amount: the only exception it can raise is the
  \<open>std::out_of_range\<close> of \<open>extractPathInfo\<close>.
\<close>

theorem checkRequest_null_safe:
  assumes "r_method rq \<noteq> None" and "checkRequest sys h rq = Inl e"
  shows "e = OutOfRange"
  using checkRequest_yields [of rq _ sys h] assms by (auto simp: yields_def)

theorem checkRequest_null_safe_witness:
  "checkRequest demo_system (demo_host\<lparr>ho_cgiMap := [(''*'', new_CGIConfig\<lparr>c_extension := ''.php5''\<rparr>)]\<rparr>)
     (demo_request GET ''/a'') = Inl OutOfRange"
proof -
  let ?x = "checkRequest demo_system
     (demo_host\<lparr>ho_cgiMap := [(''*'', new_CGIConfig\<lparr>c_extension := ''.php5''\<rparr>)]\<rparr>)
     (demo_request GET ''/a'')"
  have "case ?x of Inl e \<Rightarrow> True | Inr r \<Rightarrow> False" by code_simp
  then obtain e where "?x = Inl e" by (auto split: sum.splits)
  moreover have "r_method (demo_request GET ''/a'') \<noteq> None" by code_simp
  ultimately show ?thesis using checkRequest_null_safe by blast
qed

text \<open>
  With listing off and no default uri the check of a directory still succeeds, so the
  directory goes on to be listed.
\<close>

lemma dir_listing_not_enforced:
  "\<not> l_dir_listing demo_location \<and> l_default_uri demo_location = [] \<and>
   (case checkRequest demo_system demo_host (demo_request GET ''/'') of
      Inl e \<Rightarrow> False | Inr (res, rq) \<Rightarrow> res = 0 \<and> r_type rq = REQ_TYPE_DIR)"
  by code_simp

section \<open>The pools of blocks\<close>

lemma Location_eq_iff: "Location_eq a b \<longleftrightarrow> a = b"
  by (cases a; cases b) (auto simp: Location_eq_def list_all2_eq [symmetric])

lemma CGIConfig_eq_iff: "CGIConfig_eq a b \<longleftrightarrow> a = b"
  by (cases a; cases b) (auto simp: CGIConfig_eq_def)

lemma intern_eq:
  assumes "\<And>a b. eq a b \<longleftrightarrow> a = b" and "intern eq x pool = (y, pool')"
  shows "y = x \<and> set pool' = insert x (set pool) \<and> (distinct pool \<longrightarrow> distinct pool')"
  using assms by (auto simp: intern_def find_None_iff find_Some_iff split: option.splits)

lemma fold_map_set:
  "map_ordered str_less m \<Longrightarrow>
   map_ordered str_less (fold (\<lambda>n m. map_set str_less n l m) names m) \<and>
   map_find str_less n (fold (\<lambda>n m. map_set str_less n l m) names m) =
     (if n \<in> set names then Some l else map_find str_less n m)"
  by (induction names arbitrary: m)
    (auto simp: str_map.find_set str_map.ordered_set same_key_str)

text \<open>
  \<open>addLocation\<close> puts the block under each of its names and leaves the others alone;
  equal blocks are shared, the pool stays free of duplicates and the map ordered.
\<close>

theorem addLocation_spec:
  assumes "map_ordered str_less (ho_locationMap h)" and "distinct pool"
    and "addLocation names l (pool, h) = (pool', h')"
  shows "getLocation h' n = (if n \<in> set names then Some l else getLocation h n) \<and>
    map_ordered str_less (ho_locationMap h') \<and> distinct pool' \<and> set pool' = insert l (set pool)"
proof -
  obtain l' where i: "intern Location_eq l pool = (l', pool')"
    and h': "h' = h\<lparr>ho_locationMap := fold (\<lambda>n m. map_set str_less n l' m) names (ho_locationMap h)\<rparr>"
    using assms(3) by (auto simp: addLocation_def split: prod.splits)
  from intern_eq [OF Location_eq_iff i] assms(2)
  show ?thesis
    using fold_map_set [OF assms(1), of l' names n] by (simp add: h' getLocation_def)
qed

theorem addLocation_spec_witness:
  "getLocation (snd (addLocation [''/a'', ''/b''] demo_location ([demo_location], demo_host))) ''/b'' =
   Some demo_location"
proof -
  obtain pool' h' where "addLocation [''/a'', ''/b''] demo_location ([demo_location], demo_host) = (pool', h')"
    by (cases "addLocation [''/a'', ''/b''] demo_location ([demo_location], demo_host)")
  from addLocation_spec [OF _ _ this, of "''/b''"] this show ?thesis
    by (simp add: demo_host_def map_ordered_def)
qed

end
