(* ===== verification/Http_Date.thy ===== *)
theory Http_Date
  imports System Format
begin

text \<open>
  The date of a response (\<open>getTime\<close> of srcs/Response.cpp): the seconds of the clock, broken
  down by \<open>gmtime\<close> and printed by \<open>strftime\<close> into an array of 30 characters. Both functions are
  written out as the standard library documents them. The lemmas show that the calendar is
  right (\<open>timegm\<close> counts the days back by the rule of the leap years), that the text fits, and
  on which days it is the date: its format takes the year of the week.
\<close>

section \<open>The calendar of the standard library\<close>

record tm =
  tm_sec :: int
  tm_min :: int
  tm_hour :: int
  tm_mday :: int
  tm_mon :: int
  tm_year :: int
  tm_wday :: int
  tm_yday :: int

definition leap :: "int \<Rightarrow> bool" where
  "leap y \<longleftrightarrow> 4 dvd y \<and> (\<not> 100 dvd y \<or> 400 dvd y)"

definition year_days :: "int \<Rightarrow> int" where
  "year_days y = (if leap y then 366 else 365)"

definition month_days :: "int \<Rightarrow> int list" where
  "month_days y = [31, if leap y then 29 else 28, 31, 30, 31, 30, 31, 31, 30, 31, 30, 31]"

lemma year_days_pos [simp]: "0 < year_days y"
  by (simp add: year_days_def)

text \<open>The year and the month a count of days falls in, and the days that are left.\<close>

function count_years :: "int \<Rightarrow> int \<Rightarrow> int \<times> int" where
  "count_years y d = (if d < year_days y then (y, d) else count_years (y + 1) (d - year_days y))"
  by pat_completeness auto
termination
  by (relation "measure (\<lambda>(y, d). nat d)") (auto simp: year_days_def split: if_splits)

declare count_years.simps [simp del]

fun count_months :: "int list \<Rightarrow> int \<Rightarrow> int \<times> int" where
  "count_months [] d = (0, d)"
| "count_months (m # ms) d =
     (if d < m then (0, d) else (case count_months ms (d - m) of (k, r) \<Rightarrow> (k + 1, r)))"

text \<open>
  \<open>gmtime\<close>: seconds since the beginning of 1970, a Thursday. The calendar repeats after 400
  years, which are 146097 days.
\<close>

definition gmtime :: "int \<Rightarrow> tm" where
  "gmtime t =
     (let days = t div 86400; secs = t mod 86400;
          (y, yd) = count_years (1970 + 400 * (days div 146097)) (days mod 146097);
          (mon, d) = count_months (month_days y) yd
      in \<lparr> tm_sec = secs mod 60, tm_min = secs div 60 mod 60, tm_hour = secs div 3600, tm_mday = d + 1,
           tm_mon = mon, tm_year = y - 1900, tm_wday = (days + 4) mod 7, tm_yday = yd \<rparr>)"

text \<open>
  The conversions of \<open>strftime\<close> that are used, in the C locale; \<open>%G\<close> is the year of the week,
  which is the one the Thursday of the week lies in. Nothing is written if the text and its
  end do not fit.
\<close>

definition two_digits :: "int \<Rightarrow> string" where
  "two_digits n = [digit_char (nat (n div 10)), digit_char (nat (n mod 10))]"

definition day_name :: "int \<Rightarrow> string" where
  "day_name n = [''Sun'', ''Mon'', ''Tue'', ''Wed'', ''Thu'', ''Fri'', ''Sat''] ! nat n"

definition month_name :: "int \<Rightarrow> string" where
  "month_name n =
     [''Jan'', ''Feb'', ''Mar'', ''Apr'', ''May'', ''Jun'', ''Jul'', ''Aug'', ''Sep'', ''Oct'', ''Nov'', ''Dec''] ! nat n"

definition clock_time :: "tm \<Rightarrow> string" where
  "clock_time tm = two_digits (tm_hour tm) @ '':'' @ two_digits (tm_min tm) @ '':'' @ two_digits (tm_sec tm)"

definition week_year :: "tm \<Rightarrow> int" where
  "week_year tm =
     (let y = tm_year tm + 1900; thursday = tm_yday tm - (tm_wday tm + 6) mod 7 + 3
      in if thursday < 0 then y - 1 else if year_days y \<le> thursday then y + 1 else y)"

definition conversion :: "tm \<Rightarrow> char \<Rightarrow> string" where
  "conversion tm c =
     (if c = CHR ''a'' then day_name (tm_wday tm)
      else if c = CHR ''b'' then month_name (tm_mon tm)
      else if c = CHR ''d'' then two_digits (tm_mday tm)
      else if c = CHR ''G'' then itostr (week_year tm)
      else if c = CHR ''T'' then clock_time tm
      else [c])"

fun strftime_text :: "tm \<Rightarrow> string \<Rightarrow> string" where
  "strftime_text tm [] = []"
| "strftime_text tm [c] = [c]"
| "strftime_text tm (c # d # fmt) =
     (if c = CHR ''%'' then conversion tm d @ strftime_text tm fmt else c # strftime_text tm (d # fmt))"

definition strftime :: "nat \<Rightarrow> string \<Rightarrow> tm \<Rightarrow> string option" where
  "strftime maxsize fmt tm = (if length (strftime_text tm fmt) < maxsize then Some (strftime_text tm fmt) else None)"

section \<open>The date of a response\<close>

text \<open>If \<open>strftime\<close> writes nothing, the array holds what the stack left there.\<close>

definition getTime :: "system \<Rightarrow> string" where
  "getTime sys =
     (case strftime 30 ''%a, %d %b %G %T GMT'' (gmtime (sys_now sys div 1000000)) of
        None \<Rightarrow> sys_stack sys
      | Some str \<Rightarrow> str)"

section \<open>Counting back\<close>

text \<open>The days before a year, as the rule of the leap years counts them, and the inverse of \<open>gmtime\<close>.\<close>

definition days_before :: "int \<Rightarrow> int" where
  "days_before y = 365 * (y - 1970) + ((y - 1) div 4 - (y - 1) div 100 + (y - 1) div 400 - 477)"

definition timegm :: "tm \<Rightarrow> int" where
  "timegm tm =
     (let y = tm_year tm + 1900;
          days = days_before y + sum_list (take (nat (tm_mon tm)) (month_days y)) + tm_mday tm - 1
      in ((days * 24 + tm_hour tm) * 60 + tm_min tm) * 60 + tm_sec tm)"

definition valid_tm :: "tm \<Rightarrow> bool" where
  "valid_tm tm \<longleftrightarrow>
     (let ms = month_days (tm_year tm + 1900) in
      tm_sec tm \<in> {0..59} \<and> tm_min tm \<in> {0..59} \<and> tm_hour tm \<in> {0..23} \<and> tm_mon tm \<in> {0..11} \<and>
      tm_mday tm \<in> {1..ms ! nat (tm_mon tm)} \<and> tm_wday tm \<in> {0..6} \<and>
      tm_yday tm = sum_list (take (nat (tm_mon tm)) ms) + tm_mday tm - 1)"

lemma div_step:
  assumes "0 < (n :: int)"
  shows "y div n = (y - 1) div n + (if n dvd y then 1 else 0)"
proof (cases "n dvd y")
  case True
  then have "y - 1 = n * (y div n - 1) + (n - 1)" by (simp add: algebra_simps)
  from int_div_pos_eq [OF this] show ?thesis using True assms by simp
next
  case False
  then have "0 < y mod n" using assms pos_mod_sign [of n y] by (simp add: dvd_eq_mod_eq_0 less_le)
  moreover have "y - 1 = n * (y div n) + (y mod n - 1)" by simp
  ultimately have "(y - 1) div n = y div n"
    using int_div_pos_eq [of "y - 1" n "y div n" "y mod n - 1"] pos_mod_bound [OF assms, of y] by linarith
  with False show ?thesis by simp
qed

lemma leap_arith:
  fixes A :: int
  assumes "A = a + (if p then 1 else 0)" and "B = b + (if q then 1 else 0)" and "C = c + (if r then 1 else 0)"
    and "r \<Longrightarrow> q" and "q \<Longrightarrow> p"
  shows "365 * (y + 1 - 1970) + (A - B + C - 477) =
    365 * (y - 1970) + (a - b + c - 477) + (if p \<and> (\<not> q \<or> r) then 366 else 365)"
  using assms by (cases p; cases q; cases r; simp)

lemma days_before_Suc: "days_before (y + 1) = days_before y + year_days y"
  unfolding days_before_def year_days_def leap_def add_diff_cancel_right'
  by (rule leap_arith, (rule div_step, simp)+) (erule dvd_trans [rotated], simp)+

lemma days_before_cycle: "days_before (y + 400 * k) = days_before y + 146097 * k"
proof -
  have "(y - 1 + 4 * (100 * k)) div 4 = (y - 1) div 4 + 100 * k"
    "(y - 1 + 100 * (4 * k)) div 100 = (y - 1) div 100 + 4 * k"
    "(y - 1 + 400 * k) div 400 = (y - 1) div 400 + k"
    by (simp_all only: div_mult_self2 numeral_eq_iff num.distinct refl zero_neq_numeral [symmetric] not_False_eq_True add.commute)
  then show ?thesis by (simp add: days_before_def algebra_simps)
qed

lemma count_years_correct:
  "0 \<le> d \<Longrightarrow> count_years y d = (y', r) \<Longrightarrow> 0 \<le> r \<and> r < year_days y' \<and> days_before y' + r = days_before y + d"
proof (induction y d rule: count_years.induct)
  case (1 y d)
  show ?case
  proof (cases "d < year_days y")
    case True
    then show ?thesis using "1.prems" by (auto simp: count_years.simps)
  next
    case False
    then have "count_years (y + 1) (d - year_days y) = (y', r)"
      using "1.prems"(2) by (simp add: count_years.simps [of y d])
    from "1.IH" [OF False _ this] show ?thesis using False by (simp add: days_before_Suc)
  qed
qed

lemma count_months_correct:
  "0 \<le> d \<Longrightarrow> d < sum_list ms \<Longrightarrow> count_months ms d = (k, r) \<Longrightarrow>
     0 \<le> k \<and> k < int (length ms) \<and> 0 \<le> r \<and> r < ms ! nat k \<and> sum_list (take (nat k) ms) + r = d"
proof (induction ms d arbitrary: k r rule: count_months.induct)
  case (2 m ms d)
  then show ?case by (fastforce simp: nat_add_distrib split: if_splits prod.splits)
qed simp

lemma sum_month_days: "sum_list (month_days y) = year_days y" "length (month_days y) = 12"
  by (simp_all add: month_days_def year_days_def)

lemma gmtime_counts:
  "valid_tm (gmtime t)" "timegm (gmtime t) = t"
  "days_before (tm_year (gmtime t) + 1900) \<le> t div 86400" "t div 86400 < days_before (tm_year (gmtime t) + 1901)"
proof -
  define days secs where "days = t div 86400" and "secs = t mod 86400"
  obtain y yd where y: "count_years (1970 + 400 * (days div 146097)) (days mod 146097) = (y, yd)" by fastforce
  obtain mon d where m: "count_months (month_days y) yd = (mon, d)" by fastforce
  have first: "days_before (1970 + 400 * k) = 146097 * k" for k
    unfolding days_before_cycle by (simp add: days_before_def)
  have yd: "0 \<le> yd" "yd < year_days y" "days_before y + yd = days"
    using count_years_correct [OF _ y] first by simp_all
  from count_months_correct [OF yd(1) _ m] yd(2) have md: "0 \<le> mon" "mon < 12" "0 \<le> d" "d < month_days y ! nat mon"
    "sum_list (take (nat mon) (month_days y)) + d = yd"
    by (simp_all add: sum_month_days)
  have tm: "gmtime t = \<lparr> tm_sec = secs mod 60, tm_min = secs div 60 mod 60, tm_hour = secs div 3600, tm_mday = d + 1,
      tm_mon = mon, tm_year = y - 1900, tm_wday = (days + 4) mod 7, tm_yday = yd \<rparr>"
    using y m by (simp add: gmtime_def days_def secs_def Let_def)
  have s: "0 \<le> secs" "secs < 86400" "t = days * 86400 + secs" by (simp_all add: secs_def days_def)
  then have clock: "secs div 3600 \<in> {0..23}" "(secs div 3600 * 60 + secs div 60 mod 60) * 60 + secs mod 60 = secs"
    using zdiv_zmult2_eq [of 60 secs 60] div_mult_mod_eq [of "secs div 60" 60] div_mult_mod_eq [of secs 60] by auto
  have small: "(days + 4) mod 7 \<in> {0..6}" "secs mod 60 \<in> {0..59}" "secs div 60 mod 60 \<in> {0..59}" by simp_all
  show "days_before (tm_year (gmtime t) + 1900) \<le> t div 86400" "t div 86400 < days_before (tm_year (gmtime t) + 1901)"
    using yd days_before_Suc [of y] by (simp_all add: tm days_def add.commute)
  show "valid_tm (gmtime t)"
    using md clock(1) small by (simp add: tm valid_tm_def Let_def)
  show "timegm (gmtime t) = t"
    unfolding tm using md yd(3) clock(2) s(3) by (simp add: timegm_def Let_def algebra_simps)
qed

lemma days_before_mono: "y \<le> y' \<Longrightarrow> days_before y \<le> days_before y'"
  by (induction y' rule: int_ge_induct) (simp_all add: days_before_Suc year_days_def)

lemma gmtime_year:
  assumes "0 \<le> t" and "t < 253370764800"
  shows "1970 \<le> tm_year (gmtime t) + 1900" "tm_year (gmtime t) + 1900 < 9999"
proof -
  have t: "0 \<le> t div 86400" "t div 86400 < 2932532" using assms by simp_all
  show "1970 \<le> tm_year (gmtime t) + 1900"
  proof (rule ccontr)
    assume "\<not> 1970 \<le> tm_year (gmtime t) + 1900"
    then have "days_before (tm_year (gmtime t) + 1901) \<le> days_before 1970" by (intro days_before_mono) simp
    then show False using gmtime_counts(4) [of t] t(1) by (simp add: days_before_def)
  qed
  show "tm_year (gmtime t) + 1900 < 9999"
  proof (rule ccontr)
    assume "\<not> tm_year (gmtime t) + 1900 < 9999"
    then have "days_before 9999 \<le> days_before (tm_year (gmtime t) + 1900)" by (intro days_before_mono) simp
    moreover have "days_before 9999 = 2932532" by (simp add: days_before_def)
    ultimately show False using gmtime_counts(3) [of t] t(2) by simp
  qed
qed

section \<open>What the date is\<close>

text \<open>The date as the protocol has it, with the calendar year.\<close>

definition http_date :: "tm \<Rightarrow> string" where
  "http_date tm =
     day_name (tm_wday tm) @ '', '' @ two_digits (tm_mday tm) @ '' '' @ month_name (tm_mon tm) @ '' '' @
     itostr (tm_year tm + 1900) @ '' '' @ clock_time tm @ '' GMT''"

lemma strftime_date:
  "strftime_text tm ''%a, %d %b %G %T GMT'' =
     day_name (tm_wday tm) @ '', '' @ two_digits (tm_mday tm) @ '' '' @ month_name (tm_mon tm) @ '' '' @
     itostr (week_year tm) @ '' '' @ clock_time tm @ '' GMT''"
  by (simp add: conversion_def)

lemma itostr_text: "itostr x = IntToString x 10"
  by (simp add: IntToString_def)

lemma itostr_inject: "in_i32 x \<Longrightarrow> in_i32 y \<Longrightarrow> itostr x = itostr y \<longleftrightarrow> x = y"
  using getInt_IntToString [of x 0] getInt_IntToString [of y 0]
  by (metis itostr_text snd_conv)

lemma digits_four: "1000 \<le> n \<Longrightarrow> n < 10000 \<Longrightarrow> length (digits 10 n) = 4"
proof -
  assume "1000 \<le> n" "n < 10000"
  then have "10 \<le> n div 10" "10 \<le> n div 10 div 10" "n div 10 div 10 div 10 < 10"
    by (simp_all add: less_eq_div_iff_mult_less_eq div_less_iff_less_mult)
  then show ?thesis using \<open>1000 \<le> n\<close> by (simp add: digits.simps [of 10])
qed

lemma small_months: "m \<in> {0..11} \<Longrightarrow> m \<in> {0 :: int, 1, 2, 3, 4, 5, 6, 7, 8, 9, 10, 11}"
  by simp presburger

lemma names_three:
  "n \<in> {0..6} \<Longrightarrow> length (day_name n) = 3" "m \<in> {0..11} \<Longrightarrow> length (month_name m) = 3"
proof -
  assume "n \<in> {0..6}"
  then have "n \<in> {0, 1, 2, 3, 4, 5, 6}" by auto
  then show "length (day_name n) = 3" by (auto simp: day_name_def)
next
  assume "m \<in> {0..11}"
  from small_months [OF this] show "length (month_name m) = 3" by (auto simp: month_name_def)
qed

text \<open>The month of a day of the year, at both ends of the year.\<close>

lemma months_prefix:
  assumes "m \<in> {0..11}"
  shows "m \<noteq> 0 \<Longrightarrow> 31 \<le> sum_list (take (nat m) (month_days y))"
    "m \<noteq> 11 \<Longrightarrow> sum_list (take (nat m) (month_days y)) + month_days y ! nat m \<le> year_days y - 31"
    "m = 11 \<Longrightarrow> sum_list (take (nat m) (month_days y)) = year_days y - 31"
proof -
  from small_months [OF assms] show "m \<noteq> 0 \<Longrightarrow> 31 \<le> sum_list (take (nat m) (month_days y))"
    "m \<noteq> 11 \<Longrightarrow> sum_list (take (nat m) (month_days y)) + month_days y ! nat m \<le> year_days y - 31"
    "m = 11 \<Longrightarrow> sum_list (take (nat m) (month_days y)) = year_days y - 31"
    by (auto simp: month_days_def year_days_def)
qed

definition week_day :: "tm \<Rightarrow> int" where
  "week_day tm = (tm_wday tm + 6) mod 7"

lemma week_year_own:
  assumes "valid_tm tm"
  shows "week_year tm = tm_year tm + 1900 \<longleftrightarrow>
    \<not> (tm_mon tm = 0 \<and> tm_mday tm + 2 < week_day tm) \<and> \<not> (tm_mon tm = 11 \<and> 28 + week_day tm < tm_mday tm)"
proof -
  let ?y = "tm_year tm + 1900" and ?m = "tm_mon tm"
  let ?pre = "sum_list (take (nat ?m) (month_days ?y))"
  have v: "?m \<in> {0..11}" "1 \<le> tm_mday tm" "tm_mday tm \<le> month_days ?y ! nat ?m" "tm_yday tm = ?pre + tm_mday tm - 1"
    using assms by (simp_all add: valid_tm_def Let_def)
  have w: "0 \<le> week_day tm" "week_day tm \<le> 6" by (simp_all add: week_day_def)
  note p = months_prefix [OF v(1), of ?y]
  have "tm_yday tm - week_day tm + 3 < 0 \<longleftrightarrow> ?m = 0 \<and> tm_mday tm + 2 < week_day tm"
    using v(2,4) w p(1) by (cases "?m = 0") auto
  moreover have "year_days ?y \<le> tm_yday tm - week_day tm + 3 \<longleftrightarrow> ?m = 11 \<and> 28 + week_day tm < tm_mday tm"
    using v(3,4) w p(2,3) by (cases "?m = 11") auto
  ultimately show ?thesis by (auto simp: week_year_def week_day_def Let_def)
qed

lemma week_year_near: "week_year tm \<in> {tm_year tm + 1899..tm_year tm + 1901}"
  by (simp add: week_year_def Let_def)

text \<open>
  C38. From 1970 to the end of the year 9998, the \<open>Date\<close> of a response is the date of the
  clock, in the form the protocol asks for, except that its year is the year of the week: it is
  wrong exactly on the days of January before a first Monday that is the second, third or
  fourth, and on the days of December from a last Monday that is the 29th, 30th or 31st. The
  text always fits into its buffer.
\<close>

theorem getTime_date:
  assumes "0 \<le> sys_now sys" and "sys_now sys < 253370764800000000" and "tm = gmtime (sys_now sys div 1000000)"
  shows "valid_tm tm \<and> timegm tm = sys_now sys div 1000000 \<and> length (getTime sys) = 29 \<and>
    (getTime sys = http_date tm \<longleftrightarrow>
       \<not> (tm_mon tm = 0 \<and> tm_mday tm + 2 < week_day tm) \<and> \<not> (tm_mon tm = 11 \<and> 28 + week_day tm < tm_mday tm))"
proof -
  have v: "valid_tm tm" "timegm tm = sys_now sys div 1000000" using gmtime_counts by (simp_all add: assms(3))
  have years: "1970 \<le> tm_year tm + 1900" "tm_year tm + 1900 < 9999"
    unfolding assms(3) by (rule gmtime_year; use assms in simp)+
  then have y: "1000 \<le> week_year tm" "week_year tm < 10000" using week_year_near [of tm] by auto
  have "length (day_name (tm_wday tm)) = 3" "length (month_name (tm_mon tm)) = 3"
    using v(1) by (auto simp: valid_tm_def Let_def intro: names_three)
  moreover have "length (itostr (week_year tm)) = 4" using y by (simp add: itostr_def digits_four)
  ultimately have len: "length (strftime_text tm ''%a, %d %b %G %T GMT'') = 29"
    by (simp only: strftime_date) (simp add: two_digits_def clock_time_def)
  then have str: "getTime sys = strftime_text tm ''%a, %d %b %G %T GMT''"
    by (simp only: getTime_def strftime_def assms(3)) simp
  have "in_i32 (week_year tm)" "in_i32 (tm_year tm + 1900)" using y years by (simp_all add: in_i32_def)
  then have "getTime sys = http_date tm \<longleftrightarrow> week_year tm = tm_year tm + 1900"
    unfolding str strftime_date http_date_def by (simp add: itostr_inject)
  with len str week_year_own [OF v(1)] v show ?thesis by simp
qed

definition clock_at :: "int \<Rightarrow> system" where
  "clock_at t =
     \<lparr> sys_stat = (\<lambda>p. None), sys_access = (\<lambda>p m. False), sys_read = (\<lambda>p. None), sys_list = (\<lambda>p. None),
       sys_create = (\<lambda>p. False), sys_stack = [], sys_now = t * 1000000 \<rparr>"

theorem getTime_date_witness:
  "\<exists>tm. timegm tm = 1609459200 \<and> getTime (clock_at 1609459200) \<noteq> http_date tm \<and>
     getTime (clock_at 1609459200) = ''Fri, 01 Jan 2020 00:00:00 GMT''"
proof -
  have now: "sys_now (clock_at 1609459200) = 1609459200000000" by (simp add: clock_at_def)
  have tm: "tm_mon (gmtime 1609459200) = 0" "tm_mday (gmtime 1609459200) = 1" "week_day (gmtime 1609459200) = 4"
    by code_simp+
  have "getTime (clock_at 1609459200) = ''Fri, 01 Jan 2020 00:00:00 GMT''" by code_simp
  then show ?thesis
    using getTime_date [of "clock_at 1609459200" "gmtime 1609459200"] by (auto simp: now tm)
qed

end
