(* ===== verification/Response.thy ===== *)
theory Response
  imports Host_Rules Request_Parser Http_Date
begin

text \<open>
  Responses (includes/Response.hpp, srcs/Response.cpp): the choice of the kind of response
  (\<open>genResponse\<close>), its headers and generated bodies, and the pieces of at most
  \<open>BUFFER_SIZE\<close> bytes it is queued as (\<open>writeResponse\<close>).

  A response keeps a reference to the hints of its request, so writing it takes the hints
  as they are then. A file response holds the bytes of its open stream from the current
  position on. The lemmas show that the pieces are the header block followed by the body,
  that the announced length is the body's, that redirections name their target, and when
  generating a response fails.
\<close>

section \<open>Tables\<close>

definition init_mimes :: "(string \<times> string) list" where
  "init_mimes = [
    (''.html'', ''text/html''), (''.htm'', ''text/html''), (''.shtml'', ''text/html''),
    (''.css'', ''text/css''), (''.xml'', ''text/xml''), (''.gif'', ''image/gif''),
    (''.jpeg'', ''image/jpeg''), (''.jpg'', ''image/jpeg''),
    (''.js'', ''application/javascript''), (''.atom'', ''application/atom+xml''),
    (''.rss'', ''application/rss+xml''), (''.mml'', ''text/mathml''), (''.txt'', ''text/plain''),
    (''.jad'', ''text/vnd.sun.j2me.app-descriptor''), (''.wml'', ''text/vnd.wap.wml''),
    (''.htc'', ''text/x-component''), (''.avif'', ''image/avif''), (''.png'', ''image/png''),
    (''.svg'', ''image/svg+xml''), (''.svgz'', ''image/svg+xml''), (''.tif'', ''image/tiff''),
    (''.tiff'', ''image/''), (''.wbmp'', ''image/vnd.wap.wbmp''), (''.webp'', ''image/webp''),
    (''.ico'', ''image/x-icon''), (''.jng'', ''image/x-jng''), (''.bmp'', ''image/x-ms-bmp''),
    (''.woff'', ''font/woff''), (''.woff2'', ''font/woff2''),
    (''.jar'', ''application/java-archive''), (''.war'', ''application/java-archive''),
    (''.ear'', ''application/java-archive''), (''.json'', ''application/json''),
    (''.hqx'', ''application/mac-binhex40''), (''.doc'', ''application/msword''),
    (''.pdf'', ''application/pdf''), (''.ps'', ''application/postscript''),
    (''.eps'', ''application/postscript''), (''.ai'', ''application/postscript''),
    (''.rtf'', ''application/rtf''), (''.m3u8'', ''application/vnd.apple.mpegurl''),
    (''.kml'', ''application/vnd.google-earth.kml+xml''),
    (''.kmz'', ''application/vnd.google-earth.kmz''), (''.xls'', ''application/vnd.ms-excel''),
    (''.eot'', ''application/vnd.ms-fontobject''), (''.ppt'', ''application/vnd.ms-powerpoint''),
    (''.odg'', ''application/vnd.oasis.opendocument.graphics''),
    (''.odp'', ''application/vnd.oasis.opendocument.presentation''),
    (''.ods'', ''application/vnd.oasis.opendocument.spreadsheet''),
    (''.odt'', ''application/vnd.oasis.opendocument.text''),
    (''.pptx'', ''application/vnd.openxmlformats-officedocument.presentationml.presentation''),
    (''.xlsx'', ''application/vnd.openxmlformats-officedocument.spreadsheetml.sheet''),
    (''.docx'', ''application/vnd.openxmlformats-officedocument.wordprocessingml.document''),
    (''.wmlc'', ''application/vnd.wap.wmlc''), (''.wasm'', ''application/wasm''),
    (''.7z'', ''application/x-7z-compressed''), (''.cco'', ''application/x-cocoa''),
    (''.jardiff'', ''application/x-java-archive-diff''),
    (''.jnlp'', ''application/x-java-jnlp-file''), (''.run'', ''application/x-makeself''),
    (''.pl'', ''application/x-perl''), (''.pm'', ''application/x-perl''),
    (''.prc'', ''application/x-pilot''), (''.pdb'', ''application/x-pilot''),
    (''.rar'', ''application/x-rar-compressed''),
    (''.rpm'', ''application/x-redhat-package-manager''), (''.sea'', ''application/x-sea''),
    (''.swf'', ''application/x-shockwave-flash''), (''.sit'', ''application/x-stuffit''),
    (''.tcl'', ''application/x-tcl''), (''.tk'', ''application/x-tcl''),
    (''.der'', ''application/x-x509-ca-cert''), (''.pem'', ''application/x-x509-ca-cert''),
    (''.crt'', ''application/x-x509-ca-cert''), (''.xpi'', ''application/x-xpinstall''),
    (''.xhtml'', ''application/xhtml+xml''), (''.xspf'', ''application/xspf+xml''),
    (''.zip'', ''application/zip''), (''.bin'', ''application/octet-stream''),
    (''.exe'', ''application/octet-stream''), (''.dll'', ''application/octet-stream''),
    (''.deb'', ''application/octet-stream''), (''.dmg'', ''application/octet-stream''),
    (''.iso'', ''application/octet-stream''), (''.img'', ''application/octet-stream''),
    (''.msi'', ''application/octet-stream''), (''.msp'', ''application/octet-stream''),
    (''.msm'', ''application/octet-stream''), (''.mid'', ''audio/midi''),
    (''.midi'', ''audio/midi''), (''.kar'', ''audio/midi''), (''.mp3'', ''audio/mpeg''),
    (''.ogg'', ''audio/ogg''), (''.m4a'', ''audio/x-m4a''), (''.ra'', ''audio/x-realaudio''),
    (''.3gpp'', ''video/3gpp''), (''.3gp'', ''video/3gpp''), (''.ts'', ''video/mp2t''),
    (''.mp4'', ''video/mp4''), (''.mpeg'', ''video/mpeg''), (''.mpg'', ''video/mpeg''),
    (''.mov'', ''video/quicktime''), (''.webm'', ''video/webm''), (''.flv'', ''video/x-flv''),
    (''.m4v'', ''video/x-m4v''), (''.mng'', ''video/x-mng''), (''.asx'', ''video/x-ms-asf''),
    (''.asf'', ''video/x-ms-asf''), (''.wmv'', ''video/x-ms-wmv''),
    (''.avi'', ''video/x-msvideo'')
    ]"

definition init_response :: "(int \<times> string) list" where
  "init_response = [
    (100, ''Continue''), (200, ''OK''), (201, ''CREATED''), (204, ''No Content''),
    (300, ''Multiple Choices''), (301, ''Move Permanently''), (302, ''Found''),
    (303, ''See other''), (307, ''Temporary Redirect''), (308, ''Permanent Redirect''),
    (400, ''Bad Request''), (401, ''Unauthorized''), (403, ''Forbidden''), (404, ''Not Found''),
    (405, ''Method Not Allowed''), (408, ''Request Timeout''), (413, ''Content Too Large''),
    (414, ''URI Too Long''), (415, ''Unsupported Media Type''), (417, ''Expectation Failed''),
    (500, ''Internal Server Error''), (501, ''Not Implemented''), (503, ''Service Unavailable''),
    (505, ''HTTP Version Not Supported'')
    ]"

text \<open>\<open>mimeType.at(key)\<close>: a later assignment replaces an earlier one.\<close>

definition mimeType :: "string \<Rightarrow> string option" where
  "mimeType key = map_of (rev init_mimes) key"

text \<open>\<open>ResponseLine[status]\<close>: an unknown status reads as the empty string.\<close>

definition ResponseLine :: "int \<Rightarrow> string" where
  "ResponseLine status = (case map_of init_response status of None \<Rightarrow> [] | Some d \<Rightarrow> d)"

section \<open>Pieces\<close>

text \<open>The loops that queue \<open>substr(0, BUFFER_SIZE)\<close> until nothing is left.\<close>

function portions :: "string \<Rightarrow> string list" where
  "portions s = (if s = [] then [] else take BUFFER_SIZE s # portions (drop BUFFER_SIZE s))"
  by pat_completeness auto
termination
  by (relation "measure length") (auto simp: BUFFER_SIZE_def)

declare portions.simps [simp del]

section \<open>Response objects\<close>

datatype AResponse =
    SingleLineResponse (rs_status: int) (rs_description: string) (rs_line: string)
  | FileResponse (rs_status: int) (rs_description: string) (rs_stream: string)
  | DynamicResponse (rs_status: int) (rs_description: string) (rs_body: string)

definition newSingleLineResponse :: "int \<Rightarrow> string \<Rightarrow> AResponse" where
  "newSingleLineResponse status description =
     SingleLineResponse status description (''HTTP/1.1 100 Continue'' @ CRLF)"

definition add_hint_header :: "string \<Rightarrow> string \<Rightarrow> ResHints \<Rightarrow> ResHints" where
  "add_hint_header key val h = h\<lparr>h_headers := map_set i_less key val (h_headers h)\<rparr>"

definition addUniversalHeaders :: "system \<Rightarrow> ResHints \<Rightarrow> ResHints" where
  "addUniversalHeaders sys h =
     add_hint_header ''Date'' (getTime sys)
       (add_hint_header ''Accept-Ranges'' ''none''
         (add_hint_header ''Accept-Encoding'' ''identity'' h))"

text \<open>It inserts every header of the hints into the hints.\<close>

definition addHintHeaders :: "ResHints \<Rightarrow> ResHints" where
  "addHintHeaders h =
     h\<lparr>h_headers := fold (\<lambda>(k, v) m. map_insert i_less k v m) (h_headers h) (h_headers h)\<rparr>"

definition format_response_headers :: "int \<Rightarrow> ResHints \<Rightarrow> string" where
  "format_response_headers status h =
     ''HTTP/1.1 '' @ itostr status @ '' '' @ ResponseLine status @ CRLF @
     concat (map format_header (h_headers h)) @
     concat (map (\<lambda>c. ''Set-Cookie: '' @ c @ CRLF) (h_cookies h)) @ CRLF"

definition write_headers :: "ResHints \<Rightarrow> int \<Rightarrow> string list \<Rightarrow> string list" where
  "write_headers h status outQueue = outQueue @ portions (format_response_headers status h)"

text \<open>
  \<open>writeResponse\<close> of the three classes. \<open>fstream::read\<close> takes \<open>BUFFER_SIZE\<close> bytes
  at a time; the last, empty read is not queued.
\<close>

fun writeResponse :: "ResHints \<Rightarrow> AResponse \<Rightarrow> string list \<Rightarrow> string list" where
  "writeResponse h (SingleLineResponse st d line) q = q @ portions line"
| "writeResponse h (FileResponse st d bytes) q =
     (if h_method h = Some HEAD then write_headers h st q
      else write_headers h st q @ portions bytes)"
| "writeResponse h (DynamicResponse st d body) q =
     (if h_method h = Some HEAD then write_headers h st q
      else write_headers h st q @ portions body)"

section \<open>Generated bodies\<close>

text \<open>\<open>redir[redir.size() - 1]\<close> of an empty string is out of bounds.\<close>

definition getRedirPath :: "string \<Rightarrow> string \<Rightarrow> fault + string" where
  "getRedirPath redir filename =
     (if redir = [] then Inl BadAccess
      else if last redir = CHR ''/'' then Inr (redir @ filename) else Inr redir)"

text \<open>\<open>hints.redirList->front()\<close>\<close>

definition redir_front :: "ResHints \<Rightarrow> fault + string" where
  "redir_front h =
     and_then (deref (h_redirList h)) (\<lambda>rs. case rs of [] \<Rightarrow> Inl BadAccess | r # _ \<Rightarrow> Inr r)"

definition redir_target :: "ResHints \<Rightarrow> fault + string" where
  "redir_target h =
     and_then (redir_front h) (\<lambda>r. getRedirPath r (u_filename (h_parsedUri h)))"

definition status_text :: "ResHints \<Rightarrow> string" where
  "status_text h = itostr (h_status h) @ '' '' @ ResponseLine (h_status h)"

definition generateSimpleRedirBody :: "ResHints \<Rightarrow> fault + string" where
  "generateSimpleRedirBody h =
     and_then (redir_target h) (\<lambda>redir.
       Inr (''<html><head><title> '' @ status_text h @
            '' </title><meta http-equiv=\"refresh\"content=\"0; url='' @ redir @
            ''\"></head><body><style>'' @
            ''#one{color:darkred;text-align:center;font-size:300%;}'' @
            ''#two{text-align:center;font-size:150%;}</style>'' @
            ''<p id=\"one\">'' @ status_text h @ ''</p>'' @
            ''<p id=\"two\"> The document can be found at <a href=\"'' @ redir @ ''\">'' @ redir @
            ''</a></p></body></html>''))"

definition generateVerboseBody :: "ResHints \<Rightarrow> string" where
  "generateVerboseBody h =
     ''<html><head><title> '' @ status_text h @ '' </title></head><body><style>'' @
     ''#one{color:darkred;text-align:center;font-size:300%;}'' @
     ''#two{color:brown;text-align:center;font-size:150%;}</style>'' @
     ''<p id=\"one\">'' @ status_text h @ ''</p>'' @
     ''<p id=\"two\">'' @ h_verboseError h @ ''</p></body></html>''"

fun redir_items :: "string \<Rightarrow> string list \<Rightarrow> fault + string" where
  "redir_items filename [] = Inr []"
| "redir_items filename (r # rs) =
     and_then (getRedirPath r filename) (\<lambda>p.
       and_then (redir_items filename rs) (\<lambda>items.
         Inr (''<li><a href=\"'' @ p @ ''\">'' @ p @ ''</a></li>'' @ items)))"

definition generateListBody :: "ResHints \<Rightarrow> fault + string" where
  "generateListBody h =
     and_then (deref (h_redirList h)) (\<lambda>rs.
       and_then (redir_items (u_filename (h_parsedUri h)) rs) (\<lambda>items.
         Inr (''<html><head><title> '' @ status_text h @ '' </title></head><body><style>'' @
              ''#one{color:darkred;text-align:center;font-size:300%;}'' @
              ''#two{text-align:center;font-size:150%;}</style>'' @
              ''<p id=\"one\">'' @ status_text h @ ''</p>'' @
              ''<p id=\"two\"> The document has been moved to: </p>'' @
              ''<ul>'' @ items @ ''</ul>'' @ ''</body></html>'')))"

definition generateRedirBody :: "ResHints \<Rightarrow> fault + string" where
  "generateRedirBody h =
     (if h_status h mod 100 = 0 \<or> h_status h mod 100 = 8 then generateListBody h
      else generateSimpleRedirBody h)"

text \<open>The name after the last slash that is not the path's last byte.\<close>

definition extractDir :: "string \<Rightarrow> string" where
  "extractDir path =
     (if length path = 1 then ''root''
      else (case rfind_sub ''/'' (butlast path) of
              None \<Rightarrow> path
            | Some idx \<Rightarrow> drop (idx + 1) path))"

definition dir_item :: "string \<times> file_kind \<Rightarrow> string" where
  "dir_item e =
     (case e of (name, kind) \<Rightarrow>
        if kind = Special then []
        else ''<li><a href = \"'' @ name @ (if kind = Directory then ''/'' else []) @ ''\">'' @
             name @ ''</a></li>'')"

definition generateDirListing :: "system \<Rightarrow> ResHints \<Rightarrow> fault + string" where
  "generateDirListing sys h =
     (case sys_list sys (c_str (h_path h)) of
        None \<Rightarrow> Inl OtherException
      | Some files \<Rightarrow>
          Inr (''<html><head><title> dir list </title></head><body><style>'' @
               ''#two{text-align:center;font-size:200%;}'' @
               ''#one{list-style-type:disc; line-height:150%;}</style>'' @
               ''<p id=\"two\"> Contents of '' @ extractDir (h_path h) @ '' </p>'' @
               ''<ul id=\"one\">'' @ concat (map dir_item files) @ ''</ul></body></html>''))"

definition generateBody :: "system \<Rightarrow> ResHints \<Rightarrow> fault + string" where
  "generateBody sys h =
     (if h_status h = RES_OK \<and> h_type h = REQ_TYPE_DIR then generateDirListing sys h
      else if h_status h div 100 = 3 then generateRedirBody h
      else Inr (generateVerboseBody h))"

definition addSpecificHeaders :: "ResHints \<Rightarrow> fault + ResHints" where
  "addSpecificHeaders h =
     (if h_status h div 100 = 3 then
        and_then (redir_target h) (\<lambda>target. Inr (add_hint_header ''Location'' target h))
      else Inr h)"

section \<open>File responses\<close>

definition checkType :: "ResHints \<Rightarrow> ResHints" where
  "checkType h =
     (case mimeType (h_extension h) of
        None \<Rightarrow> h
      | Some type \<Rightarrow> if h_status h < 400 then add_hint_header ''Content-Type'' type h else h)"

text \<open>
  \<open>inspectFile\<close>: the stream's bytes and the hints. Both failures are
  \<open>std::domain_error\<close>. \<open>st_size\<close> is taken to be the number of bytes that can be read, as for a
  regular file, and the announced length is an unsigned difference.
\<close>

definition inspectFile :: "system \<Rightarrow> ResHints \<Rightarrow> fault + string \<times> ResHints" where
  "inspectFile sys h =
     (case stat_kind sys (h_path h) of
        None \<Rightarrow> Inl OtherException
      | Some _ \<Rightarrow>
          (case file_bytes sys (h_path h) of
             None \<Rightarrow> Inl OtherException
           | Some content \<Rightarrow>
               (let len = u64 (int (length content) - h_index h);
                    stream = (if h_index h < 0 then [] else drop (nat (h_index h)) content)
                in Inr (stream, checkType
                     (add_hint_header ''Content-Length'' (itostr len) (h\<lparr>h_index := 0\<rparr>))))))"

section \<open>genResponse\<close>

definition genResponse :: "system \<Rightarrow> ResHints \<Rightarrow> fault + AResponse \<times> ResHints" where
  "genResponse sys h =
     (if h_status h = 100 then Inr (newSingleLineResponse (h_status h) (h_verboseError h), h)
      else if h_path h = [] \<or> (h_status h = RES_OK \<and> h_type h = REQ_TYPE_DIR) then
        and_then (addSpecificHeaders (addHintHeaders (addUniversalHeaders sys h))) (\<lambda>h1.
          and_then (generateBody sys h1) (\<lambda>body.
            Inr (DynamicResponse (h_status h) (h_verboseError h) body,
                 add_hint_header ''Content-Type'' ''text/html''
                   (add_hint_header ''Content-Length'' (itostr (int (length body))) h1))))
      else
        and_then (inspectFile sys (addHintHeaders (addUniversalHeaders sys h))) (\<lambda>(stream, h1).
          Inr (FileResponse (h_status h) (h_verboseError h) stream, h1)))"

section \<open>The bytes of a response\<close>

lemma portions_Nil [simp]: "portions [] = []"
  by (simp add: portions.simps)

lemma concat_portions [simp]: "concat (portions s) = s"
proof (induction s rule: portions.induct)
  case (1 s)
  then show ?case by (cases "s = []") (simp_all add: portions.simps [of s])
qed

lemma portions_bounded:
  "list_all (\<lambda>p. p \<noteq> [] \<and> length p \<le> BUFFER_SIZE) (portions s)"
proof (induction s rule: portions.induct)
  case (1 s)
  then show ?case by (cases "s = []") (simp_all add: portions.simps [of s] BUFFER_SIZE_def)
qed

definition response_bytes :: "ResHints \<Rightarrow> AResponse \<Rightarrow> string" where
  "response_bytes h resp =
     (case resp of
        SingleLineResponse st d line \<Rightarrow> line
      | FileResponse st d bytes \<Rightarrow>
          format_response_headers st h @ (if h_method h = Some HEAD then [] else bytes)
      | DynamicResponse st d body \<Rightarrow>
          format_response_headers st h @ (if h_method h = Some HEAD then [] else body))"

text \<open>
  C40. Whatever the response, its queued pieces put together are the header block and the
  body (no body for a HEAD request); no piece is empty or larger than the buffer, and what
  was queued before stays in front.
\<close>

theorem writeResponse_pieces:
  "\<exists>ps. writeResponse h resp q = q @ ps \<and> concat ps = response_bytes h resp \<and>
     list_all (\<lambda>p. p \<noteq> [] \<and> length p \<le> BUFFER_SIZE) ps"
proof (cases resp)
  case (SingleLineResponse st d line)
  then show ?thesis
    using portions_bounded by (intro exI [of _ "portions line"]) (simp add: response_bytes_def)
next
  case (FileResponse st d b)
  then show ?thesis
    using portions_bounded
    by (cases "h_method h = Some HEAD") (auto simp: response_bytes_def write_headers_def)
next
  case (DynamicResponse st d b)
  then show ?thesis
    using portions_bounded
    by (cases "h_method h = Some HEAD") (auto simp: response_bytes_def write_headers_def)
qed

section \<open>What genResponse announces\<close>

lemma addHintHeaders_id: "map_ordered i_less (h_headers h) \<Longrightarrow> addHintHeaders h = h"
  by (simp add: addHintHeaders_def hdr_map.insert_all_present)

lemma ordered_add [simp]:
  "map_ordered i_less (h_headers h) \<Longrightarrow> map_ordered i_less (h_headers (add_hint_header k v h))"
  by (simp add: add_hint_header_def)

lemma ordered_universal [simp]:
  "map_ordered i_less (h_headers h) \<Longrightarrow> map_ordered i_less (h_headers (addUniversalHeaders sys h))"
  by (simp add: addUniversalHeaders_def)

lemma find_add:
  "map_ordered i_less (h_headers h) \<Longrightarrow>
   map_find i_less k' (h_headers (add_hint_header k v h)) =
     (if ikey k = ikey k' then Some v else map_find i_less k' (h_headers h))"
  by (simp add: add_hint_header_def find_header_set)

lemma ikey_names:
  "ikey ''Content-Type'' \<noteq> ikey ''Content-Length''" "ikey ''Content-Length'' \<noteq> ikey ''Location''"
  "ikey ''Content-Type'' \<noteq> ikey ''Location''"
  by code_simp+

lemma hints_kept [simp]:
  "h_method (add_hint_header k v h) = h_method h" "h_path (add_hint_header k v h) = h_path h"
  "h_status (add_hint_header k v h) = h_status h" "h_type (add_hint_header k v h) = h_type h"
  "h_index (add_hint_header k v h) = h_index h" "h_redirList (add_hint_header k v h) = h_redirList h"
  "h_parsedUri (add_hint_header k v h) = h_parsedUri h"
  by (simp_all add: add_hint_header_def)

lemma universal_kept [simp]:
  "h_method (addUniversalHeaders sys h) = h_method h"
  "h_path (addUniversalHeaders sys h) = h_path h"
  "h_status (addUniversalHeaders sys h) = h_status h"
  "h_type (addUniversalHeaders sys h) = h_type h"
  "h_index (addUniversalHeaders sys h) = h_index h"
  "h_redirList (addUniversalHeaders sys h) = h_redirList h"
  "h_parsedUri (addUniversalHeaders sys h) = h_parsedUri h"
  by (simp_all add: addUniversalHeaders_def)

lemma addSpecificHeaders_result:
  "addSpecificHeaders h = Inr h' \<Longrightarrow>
   h' = h \<or> (\<exists>t. redir_target h = Inr t \<and> h' = add_hint_header ''Location'' t h)"
  by (auto simp: addSpecificHeaders_def and_then_eq_Inr split: if_splits)

lemma genResponse_dynamic:
  assumes "genResponse sys h = Inr (resp, h')" and "map_ordered i_less (h_headers h)"
    and "h_status h \<noteq> 100" and "h_path h = [] \<or> (h_status h = RES_OK \<and> h_type h = REQ_TYPE_DIR)"
  obtains h1 body where "addSpecificHeaders (addUniversalHeaders sys h) = Inr h1"
    and "generateBody sys h1 = Inr body" and "map_ordered i_less (h_headers h1)"
    and "resp = DynamicResponse (h_status h) (h_verboseError h) body"
    and "h' = add_hint_header ''Content-Type'' ''text/html''
                   (add_hint_header ''Content-Length'' (itostr (int (length body))) h1)"
proof -
  from assms obtain h1 body where r: "addSpecificHeaders (addUniversalHeaders sys h) = Inr h1"
    "generateBody sys h1 = Inr body"
    "resp = DynamicResponse (h_status h) (h_verboseError h) body"
    "h' = add_hint_header ''Content-Type'' ''text/html''
                   (add_hint_header ''Content-Length'' (itostr (int (length body))) h1)"
    by (auto simp: genResponse_def addHintHeaders_id and_then_eq_Inr)
  moreover have "map_ordered i_less (h_headers h1)"
    using addSpecificHeaders_result [OF r(1)] assms(2) by auto
  ultimately show ?thesis using that by blast
qed

lemma genResponse_file:
  assumes "genResponse sys h = Inr (resp, h')" and "map_ordered i_less (h_headers h)"
    and "h_status h \<noteq> 100" and "\<not> (h_path h = [] \<or> (h_status h = RES_OK \<and> h_type h = REQ_TYPE_DIR))"
  obtains content where "file_bytes sys (h_path h) = Some content"
    and "resp = FileResponse (h_status h) (h_verboseError h)
           (if h_index h < 0 then [] else drop (nat (h_index h)) content)"
    and "h' = checkType (add_hint_header ''Content-Length''
           (itostr (u64 (int (length content) - h_index h))) ((addUniversalHeaders sys h)\<lparr>h_index := 0\<rparr>))"
  using assms
  by (auto simp: genResponse_def addHintHeaders_id and_then_eq_Inr inspectFile_def Let_def
      split: option.splits)

lemma checkType_length:
  "map_ordered i_less (h_headers h) \<Longrightarrow>
   map_find i_less ''Content-Length'' (h_headers (checkType h)) =
   map_find i_less ''Content-Length'' (h_headers h)"
  by (simp add: checkType_def find_add ikey_names split: option.splits)

lemma checkType_method [simp]: "h_method (checkType h) = h_method h"
  by (simp add: checkType_def split: option.splits)

text \<open>The position a file response starts at lies within the file.\<close>

definition index_ok :: "system \<Rightarrow> ResHints \<Rightarrow> bool" where
  "index_ok sys h =
     (case file_bytes sys (h_path h) of
        None \<Rightarrow> True
      | Some content \<Rightarrow> 0 \<le> h_index h \<and> h_index h \<le> int (length content) \<and> length content < 2 ^ 64)"

text \<open>
  C11. Framing of every generated response but the interim 100 line: the header block
  announces the length of a body; the bytes sent are the block and this body, or for \<open>HEAD\<close>
  the block alone. A file response must start inside its file (\<open>index_ok\<close>).
\<close>

theorem genResponse_framing:
  assumes "genResponse sys h = Inr (resp, h')" and "map_ordered i_less (h_headers h)"
    and "h_status h \<noteq> 100" and "index_ok sys h"
  shows "\<exists>body. concat (writeResponse h' resp []) =
      format_response_headers (h_status h) h' @ (if h_method h = Some HEAD then [] else body) \<and>
    map_find i_less ''Content-Length'' (h_headers h') = Some (itostr (int (length body))) \<and>
    (h_path h \<noteq> [] \<and> \<not> (h_status h = RES_OK \<and> h_type h = REQ_TYPE_DIR) \<longrightarrow>
       file_bytes sys (h_path h) = Some (take (nat (h_index h)) (the (file_bytes sys (h_path h))) @ body))"
proof (cases "h_path h = [] \<or> (h_status h = RES_OK \<and> h_type h = REQ_TYPE_DIR)")
  case True
  from genResponse_dynamic [OF assms(1-3) True] obtain h1 body where
    h1: "addSpecificHeaders (addUniversalHeaders sys h) = Inr h1" "map_ordered i_less (h_headers h1)"
    and r: "resp = DynamicResponse (h_status h) (h_verboseError h) body"
      "h' = add_hint_header ''Content-Type'' ''text/html''
              (add_hint_header ''Content-Length'' (itostr (int (length body))) h1)"
    by metis
  have "h_method h1 = h_method h" using addSpecificHeaders_result [OF h1(1)] by auto
  with True r h1(2) show ?thesis
    by (intro exI [of _ body]) (auto simp: write_headers_def find_add ikey_names)
next
  case False
  from genResponse_file [OF assms(1-3) False] obtain content where
    c: "file_bytes sys (h_path h) = Some content"
    and r: "resp = FileResponse (h_status h) (h_verboseError h)
           (if h_index h < 0 then [] else drop (nat (h_index h)) content)"
    and h': "h' = checkType (add_hint_header ''Content-Length''
           (itostr (u64 (int (length content) - h_index h))) ((addUniversalHeaders sys h)\<lparr>h_index := 0\<rparr>))"
    by metis
  have "u64 (int (length content) - h_index h) = int (length (drop (nat (h_index h)) content))"
    using assms(4) c by (auto simp: index_ok_def u64_nonneg of_nat_diff nat_le_iff)
  with assms(2,4) c r h' show ?thesis
    by (intro exI [of _ "drop (nat (h_index h)) content"])
      (simp add: write_headers_def checkType_length find_add index_ok_def)
qed

theorem genResponse_framing_witness:
  "\<exists>resp h' body. genResponse demo_system (new_ResHints\<lparr>h_status := 404, h_method := Some GET\<rparr>) =
       Inr (resp, h') \<and>
     concat (writeResponse h' resp []) = format_response_headers 404 h' @ body \<and>
     map_find i_less ''Content-Length'' (h_headers h') = Some (itostr (int (length body)))"
proof -
  let ?h = "new_ResHints\<lparr>h_status := 404, h_method := Some GET\<rparr>"
  obtain resp h' where "genResponse demo_system ?h = Inr (resp, h')"
    by (simp add: genResponse_def addSpecificHeaders_def generateBody_def new_ResHints_def
        addHintHeaders_def addUniversalHeaders_def add_hint_header_def RES_OK_def)
  moreover have "index_ok demo_system ?h" by code_simp
  ultimately show ?thesis
    using genResponse_framing [of demo_system ?h resp h'] by (simp add: new_ResHints_def)
qed

text \<open>
  A redirection names its target: for a 3xx status without a file the \<open>Location\<close>
  header is the first address of the list, completed with the file name when the address
  ends in a slash.
\<close>

theorem redirection_names_target:
  assumes "h_status h div 100 = 3" and "h_path h = []" and "h_redirList h = Some (r # rs)"
    and "[] \<notin> set (r # rs)" and "map_ordered i_less (h_headers h)"
  shows "\<exists>resp h'. genResponse sys h = Inr (resp, h') \<and>
    map_find i_less ''Location'' (h_headers h') =
      Some (if last r = CHR ''/'' then r @ u_filename (h_parsedUri h) else r)"
proof -
  let ?t = "if last r = CHR ''/'' then r @ u_filename (h_parsedUri h) else r"
  let ?h1 = "add_hint_header ''Location'' ?t (addUniversalHeaders sys h)"
  have st: "h_status h \<noteq> 100" "h_status h \<noteq> RES_OK" using assms(1) by (auto simp: RES_OK_def)
  have target: "redir_target g = Inr ?t"
    if "h_redirList g = Some (r # rs)" "h_parsedUri g = h_parsedUri h" for g
    using that assms(4) by (auto simp: redir_target_def redir_front_def getRedirPath_def)
  have items: "\<exists>b. redir_items f ls = Inr b" if "[] \<notin> set ls" for f ls
    using that by (induction ls) (auto simp: getRedirPath_def)
  have spec: "addSpecificHeaders (addUniversalHeaders sys h) = Inr ?h1"
    using assms(1,3) target by (simp add: addSpecificHeaders_def)
  obtain b where "redir_items (u_filename (h_parsedUri h)) (r # rs) = Inr b"
    using items assms(4) by blast
  then have "\<exists>body. generateBody sys ?h1 = Inr body"
    using assms(1,3) st target [of ?h1]
    by (simp add: generateBody_def generateRedirBody_def generateListBody_def
        generateSimpleRedirBody_def del: redir_items.simps)
  then obtain body where "generateBody sys ?h1 = Inr body" by blast
  then have "genResponse sys h = Inr (DynamicResponse (h_status h) (h_verboseError h) body,
      add_hint_header ''Content-Type'' ''text/html''
        (add_hint_header ''Content-Length'' (itostr (int (length body))) ?h1))"
    using spec assms(2,5) st(1) by (simp add: genResponse_def addHintHeaders_id)
  then show ?thesis
    using assms(5) by (simp add: find_add ikey_names)
qed

theorem redirection_names_target_witness:
  "\<exists>resp h'. genResponse demo_system (new_ResHints\<lparr>h_status := 301,
       h_redirList := Some [''http://x/''], h_parsedUri := new_URI\<lparr>u_filename := ''f''\<rparr>\<rparr>) = Inr (resp, h') \<and>
    map_find i_less ''Location'' (h_headers h') = Some ''http://x/f''"
  using redirection_names_target [of "new_ResHints\<lparr>h_status := 301,
       h_redirList := Some [''http://x/''], h_parsedUri := new_URI\<lparr>u_filename := ''f''\<rparr>\<rparr>"
       "''http://x/''" "[]" demo_system]
  by (simp add: new_ResHints_def)

lemma genResponse_fault_cases:
  assumes "genResponse sys h = Inl e" and "map_ordered i_less (h_headers h)"
  shows "e = OtherException \<and>
      (stat_kind sys (h_path h) = None \<or> file_bytes sys (h_path h) = None \<or>
       sys_list sys (c_str (h_path h)) = None) \<or>
    h_status h div 100 = 3 \<and>
      (case h_redirList h of
         None \<Rightarrow> e = NullDeref
       | Some rs \<Rightarrow> e = BadAccess \<and> (rs = [] \<or> [] \<in> set rs))"
proof -
  have front: "redir_target g = Inl e \<Longrightarrow>
      (case h_redirList g of None \<Rightarrow> e = NullDeref | Some rs \<Rightarrow> e = BadAccess \<and> (rs = [] \<or> [] \<in> set rs))" for g
    by (cases "h_redirList g")
      (auto simp: redir_target_def redir_front_def getRedirPath_def split: list.splits if_splits)
  have items: "redir_items f ls = Inl e \<Longrightarrow> e = BadAccess \<and> [] \<in> set ls" for f ls
    by (induction ls) (auto simp: getRedirPath_def and_then_eq_Inl split: if_splits)
  have spec: "addSpecificHeaders g = Inl e \<Longrightarrow> h_status g div 100 = 3 \<and> redir_target g = Inl e" for g
    by (auto simp: addSpecificHeaders_def and_then_eq_Inl split: if_splits)
  have kept: "h_redirList g = h_redirList h \<and> h_status g = h_status h \<and> h_path g = h_path h"
    if "addSpecificHeaders (addUniversalHeaders sys h) = Inr g" for g
    using addSpecificHeaders_result [OF that] by auto
  have body: "e = OtherException \<and> sys_list sys (c_str (h_path g)) = None \<or>
      h_status g div 100 = 3 \<and>
      (case h_redirList g of None \<Rightarrow> e = NullDeref | Some rs \<Rightarrow> e = BadAccess \<and> (rs = [] \<or> [] \<in> set rs))"
    if "generateBody sys g = Inl e" for g
    using that front [of g] items
    by (auto simp: generateBody_def generateDirListing_def generateRedirBody_def generateListBody_def
        generateSimpleRedirBody_def and_then_eq_Inl split: if_splits option.splits)
  show ?thesis
  proof (cases "h_path h = [] \<or> (h_status h = RES_OK \<and> h_type h = REQ_TYPE_DIR)")
    case True
    with assms consider "addSpecificHeaders (addUniversalHeaders sys h) = Inl e"
      | g where "addSpecificHeaders (addUniversalHeaders sys h) = Inr g" "generateBody sys g = Inl e"
      by (auto simp: genResponse_def addHintHeaders_id and_then_eq_Inl split: if_splits)
    then show ?thesis
    proof cases
      case 1
      from spec [OF 1] front [of "addUniversalHeaders sys h"] show ?thesis by simp
    next
      case 2
      from kept [OF 2(1)] have g: "h_redirList g = h_redirList h" "h_status g = h_status h" "h_path g = h_path h"
        by simp_all
      show ?thesis using body [OF 2(2)] unfolding g
      proof (elim disjE conjE)
        assume "e = OtherException" "sys_list sys (c_str (h_path h)) = None"
        then show ?thesis by (intro disjI1 conjI disjI2)
      next
        assume a: "h_status h div 100 = 3"
          and b: "case h_redirList h of None \<Rightarrow> e = NullDeref | Some rs \<Rightarrow> e = BadAccess \<and> (rs = [] \<or> [] \<in> set rs)"
        then show ?thesis by (intro disjI2 conjI)
      qed
    qed
  next
    case False
    with assms show ?thesis
      by (auto simp: genResponse_def addHintHeaders_id and_then_eq_Inl inspectFile_def Let_def
          split: if_splits option.splits)
  qed
qed

text \<open>
  When generating a response throws: a file that cannot be examined or opened, a
  directory that cannot be listed, or a redirection without a usable address.
\<close>

theorem genResponse_failure:
  assumes "genResponse sys h = Inl e" and "map_ordered i_less (h_headers h)"
  shows "e = OtherException \<and>
      (stat_kind sys (h_path h) = None \<or> file_bytes sys (h_path h) = None \<or>
       sys_list sys (c_str (h_path h)) = None) \<or>
    h_status h div 100 = 3 \<and>
      (case h_redirList h of
         None \<Rightarrow> e = NullDeref
       | Some rs \<Rightarrow> e = BadAccess \<and> (rs = [] \<or> [] \<in> set rs))"
  using assms by (rule genResponse_fault_cases)

theorem genResponse_failure_witness:
  "genResponse demo_system (new_ResHints\<lparr>h_status := 302, h_redirList := Some []\<rparr>) = Inl BadAccess"
proof -
  let ?h = "new_ResHints\<lparr>h_status := 302, h_redirList := Some []\<rparr>"
  have "isl (genResponse demo_system ?h)" by code_simp
  then obtain e where e: "genResponse demo_system ?h = Inl e"
    by (cases "genResponse demo_system ?h") auto
  have "sys_list demo_system [] = None" by code_simp
  have "case genResponse demo_system ?h of Inl e \<Rightarrow> e \<noteq> OtherException | Inr r \<Rightarrow> True" by code_simp
  with genResponse_failure [OF e] show ?thesis using e by (simp add: new_ResHints_def)
qed

end
