(* ===== verification/Cgi.thy ===== *)
theory Cgi
  imports Response
begin

text \<open>
  CGI scripts (includes/CGIProcess.hpp, srcs/CGIProcess.cpp): reading the headers a script
  printed, deciding what kind of answer it is, waiting for the script, starting it, and the
  command line and environment it is started with.

  Outcomes of \<open>fork\<close>, \<open>waitpid\<close> and the clock are arguments. The lemmas show that the
  header block a script prints is understood and that the body sent is what follows it, and
  that the status a script asks for is not honoured.
\<close>

section \<open>State\<close>

record CGIProcess =
  cg_line :: string
  cg_index :: nat
  cg_headers :: header_map
  cg_pid :: int

definition new_CGIProcess :: CGIProcess where
  "new_CGIProcess = \<lparr> cg_line = [], cg_index = 0, cg_headers = [], cg_pid = 0 \<rparr>"

section \<open>Script output\<close>

text \<open>\<open>_getLine\<close>: the line, and the rest of the buffer, unless no line is complete.\<close>

definition cgi_getLine :: "CGIProcess \<Rightarrow> string \<Rightarrow> (CGIProcess \<times> string) option" where
  "cgi_getLine cg buffer =
     (case find_sub CRLF buffer of
        None \<Rightarrow> None
      | Some idx \<Rightarrow>
          Some (cg\<lparr>cg_line := take idx buffer, cg_index := cg_index cg + idx + 2\<rparr>,
                drop (idx + 2) buffer))"

text \<open>The loop of \<open>isLowerEqual\<close> is the one of \<open>i_less::stricmp\<close>: 0 for equal.\<close>

definition isLowerEqual :: "string \<Rightarrow> string \<Rightarrow> int" where
  "isLowerEqual a b = stricmp (c_str a) (c_str b)"

definition extract_header :: "CGIProcess \<Rightarrow> Request \<Rightarrow> int \<times> CGIProcess \<times> Request" where
  "extract_header cg rq =
     (case find_sub '':'' (cg_line cg) of
        None \<Rightarrow> (500, cg, rq)
      | Some idx \<Rightarrow>
          (let key = take idx (cg_line cg);
               val = dropWhile (\<lambda>c. c = CHR '' '') (drop (idx + 1) (cg_line cg))
           in if isLowerEqual key ''Set-Cookie'' = 0 then
                (0, cg\<lparr>cg_line := []\<rparr>, upd_hints (\<lambda>h. h\<lparr>h_cookies := h_cookies h @ [val]\<rparr>) rq)
              else
                (0, cg\<lparr>cg_line := [], cg_headers := map_set i_less key val (cg_headers cg)\<rparr>, rq)))"

definition retrieveHeader :: "CGIProcess \<Rightarrow> string \<Rightarrow> string option" where
  "retrieveHeader cg key = map_find i_less key (cg_headers cg)"

definition set_hint_header :: "string \<Rightarrow> string \<Rightarrow> Request \<Rightarrow> Request" where
  "set_hint_header key val rq = upd_hints (add_hint_header key val) rq"

text \<open>
  The last branch of \<open>_inspectHeaders\<close>. A \<open>Status\<close> header that is a number is read
  into the status, which is then overwritten with 200.
\<close>

definition inspect_document :: "CGIProcess \<Rightarrow> Request \<Rightarrow> cgi_res \<times> Request" where
  "inspect_document cg rq =
     (if (case retrieveHeader cg ''Status'' of
            None \<Rightarrow> False
          | Some st \<Rightarrow> fst (getInt st 10 (h_status (r_hints rq))) \<noteq> 0)
      then (CGI_RES_DOC, set_status 500 rq)
      else
        (CGI_RES_DOC,
         case retrieveHeader cg ''Content-Type'' of
           Some type \<Rightarrow>
             set_hint_header ''Content-Type'' type
               (upd_hints (\<lambda>h. h\<lparr>h_hasBody := True\<rparr>) (set_status 200 rq))
         | None \<Rightarrow> upd_hints (\<lambda>h. h\<lparr>h_hasBody := False\<rparr>) (set_status 200 rq)))"

definition inspectHeaders :: "CGIProcess \<Rightarrow> Request \<Rightarrow> cgi_res \<times> Request" where
  "inspectHeaders cg rq =
     (if cg_headers cg = [] then (CGI_RES_ERROR, rq)
      else
        (case retrieveHeader cg ''Location'' of
           None \<Rightarrow> inspect_document cg rq
         | Some loc \<Rightarrow>
             if take 7 loc = ''http://'' then
               (let rq1 = set_status 302 (set_hint_header ''Location'' loc rq) in
                (CGI_RES_CLIENT_REDIRECT,
                 case retrieveHeader cg ''Content-Type'' of
                   None \<Rightarrow> rq1
                 | Some type \<Rightarrow>
                     upd_hints (\<lambda>h. h\<lparr>h_hasBody := True\<rparr>) (set_hint_header ''Content-Type'' type rq1)))
             else if char_at loc 0 = CHR ''/'' then
               (CGI_RES_LOCAL_REDIRECT, upd_hints (\<lambda>h. h\<lparr>h_index := 0\<rparr>) (setUri loc rq))
             else inspect_document cg rq))"

text \<open>The loop of \<open>parseHeaders\<close>; \<open>True\<close> when a header is malformed.\<close>

function cgi_lines :: "CGIProcess \<Rightarrow> Request \<Rightarrow> string \<Rightarrow> bool \<times> CGIProcess \<times> Request" where
  "cgi_lines cg rq buffer =
     (case cgi_getLine cg buffer of
        None \<Rightarrow> (False, cg, rq)
      | Some (cg1, buffer1) \<Rightarrow>
          if cg_line cg1 = [] then (False, cg1, rq)
          else
            (case extract_header cg1 rq of (err, cg2, rq2) \<Rightarrow>
               if err \<noteq> 0 then (True, cg2, rq2) else cgi_lines cg2 rq2 buffer1))"
  by pat_completeness auto
termination
  by (relation "measure (\<lambda>(cg, rq, buffer). length buffer)")
    (auto simp: cgi_getLine_def split: option.splits dest!: find_sub_bound)

declare cgi_lines.simps [simp del]

definition cgi_parseHeaders :: "system \<Rightarrow> CGIProcess \<Rightarrow> Request \<Rightarrow> cgi_res \<times> CGIProcess \<times> Request" where
  "cgi_parseHeaders sys cg rq =
     (let output = (case file_bytes sys (h_path (r_hints rq)) of None \<Rightarrow> [] | Some b \<Rightarrow> b);
          buffer = take BUFFER_SIZE output
      in case cgi_lines cg rq buffer of (err, cg1, rq1) \<Rightarrow>
           if err then (CGI_RES_NONE, cg1, set_status 500 rq1)
           else
             (case inspectHeaders cg1 (upd_hints (\<lambda>h. h\<lparr>h_index := i32 (int (cg_index cg1))\<rparr>) rq1) of
                (res, rq2) \<Rightarrow> (res, cg1, rq2)))"

section \<open>Waiting and starting\<close>

definition CGI_TIME_OUT :: int where "CGI_TIME_OUT = 10000"

text \<open>
  \<open>checkEnd\<close>: \<open>wait\<close> is what \<open>waitpid\<close> reports (\<open>None\<close> while the child runs, else
  whether it ended normally with status 0), \<open>elapsed\<close> the milliseconds since the fork. The
  third component is the process that is killed.
\<close>

definition checkEnd :: "bool option \<Rightarrow> int \<Rightarrow> CGIProcess \<Rightarrow> int \<times> CGIProcess \<times> int option" where
  "checkEnd wait elapsed cg =
     (if cg_pid cg = 0 then (-1, cg, None)
      else
        (case wait of
           None \<Rightarrow>
             if CGI_TIME_OUT < elapsed then (-1, cg\<lparr>cg_pid := 0\<rparr>, Some (cg_pid cg))
             else (0, cg, None)
         | Some ok \<Rightarrow> (if ok then 1 else -1, cg\<lparr>cg_pid := 0\<rparr>, None)))"

text \<open>\<open>execCGI\<close> in the server: \<open>fork_pid\<close> is the result of \<open>fork\<close>.\<close>

definition execCGI :: "system \<Rightarrow> int \<Rightarrow> CGIProcess \<Rightarrow> Request \<Rightarrow> int \<times> CGIProcess \<times> Request" where
  "execCGI sys fork_pid cg rq =
     (let rq1 = upd_hints (\<lambda>h. h\<lparr>h_path := generate_name (sys_now sys) None\<rparr>) rq in
      if 0 < fork_pid then (0, cg\<lparr>cg_pid := fork_pid\<rparr>, rq1)
      else if fork_pid < 0 then (1, cg, rq1)
      else (0, cg, rq1))"

section \<open>The child\<close>

text \<open>
  What \<open>_launchCGI\<close> hands to \<open>chdir\<close>, \<open>open\<close> and \<open>execv\<close>: the working directory,
  the file for the standard input, and the argument vector.
\<close>

record launch =
  la_dir :: string
  la_stdin :: "string option"
  la_argv :: "string list"

definition launchCGI :: "string \<Rightarrow> Request \<Rightarrow> fault + launch" where
  "launchCGI work_path rq =
     and_then (deref (cgiRules rq)) (\<lambda>c.
       (let body = h_bodyFileName (r_hints rq);
            script = work_path @ drop 1 (h_scriptPath (r_hints rq))
        in Inr \<lparr> la_dir = work_path @ drop 1 (c_root c),
                 la_stdin = (if body = [] then None else Some (work_path @ drop 1 body)),
                 la_argv = (if c_extension c \<noteq> ''.out'' then [c_exec c, script] else [script]) \<rparr>))"

type_synonym environment = "string \<Rightarrow> string option"

definition setenv :: "string \<Rightarrow> string \<Rightarrow> environment \<Rightarrow> environment" where
  "setenv k v env = env(k \<mapsto> c_str v)"

definition unsetenv :: "string \<Rightarrow> environment \<Rightarrow> environment" where
  "unsetenv k env = env(k := None)"

text \<open>
  \<open>_setVariables\<close>, run after \<open>_launchCGI\<close> has made the script path absolute;
  \<open>addr\<close>, \<open>port\<close> and \<open>bodyFile\<close> are the client's.
\<close>

definition setVariables ::
  "string \<Rightarrow> int \<Rightarrow> string \<Rightarrow> string \<Rightarrow> Request \<Rightarrow> environment \<Rightarrow> fault + environment" where
  "setVariables addr port bodyFile scriptPath rq env =
     and_then (deref (cgiRules rq)) (\<lambda>c.
     and_then (case r_method rq of None \<Rightarrow> Inl BadAccess | Some m \<Rightarrow> Inr (METHOD_STR m)) (\<lambda>m.
       (let e1 = setenv ''SERVER_PORT'' (IntToString port 10)
                  (setenv ''REMOTE_ADDR'' addr
                  (setenv ''SERVER_NAME'' (getHeader rq ''Host'')
                  (setenv ''SERVER_PROTOCOL'' ''HTTP/1.1''
                  (setenv ''GATEWAY_INTERFACE'' ''CGI/1.1''
                  (setenv ''QUERY_STRING'' (u_query (puri rq))
                  (setenv ''REQUEST_METHOD'' m env))))));
            e2 = (if u_pathInfo (puri rq) \<noteq> []
                  then setenv ''PATH_TRANSLATED'' (c_root c @ u_pathInfo (puri rq))
                         (setenv ''PATH_INFO'' (u_pathInfo (puri rq)) e1)
                  else unsetenv ''PATH_TRANSLATED'' (unsetenv ''PATH_INFO'' e1));
            e3 = setenv ''SCRIPT_NAME'' scriptPath e2;
            e4 = (if bodyFile \<noteq> [] \<and> getHeader rq ''Content-Type'' \<noteq> []
                  then setenv ''CONTENT_TYPE'' (getHeader rq ''Content-Type'') e3
                  else unsetenv ''CONTENT_TYPE'' e3)
        in Inr (if getHeader rq ''Cookie'' \<noteq> []
                then setenv ''HTTP_COOKIE'' (getHeader rq ''Cookie'') e4
                else unsetenv ''HTTP_COOKIE'' e4))))"

section \<open>The header block of a script\<close>

definition cgi_header_ok :: "string \<times> string \<Rightarrow> bool" where
  "cgi_header_ok h \<longleftrightarrow>
     (case h of (n, v) \<Rightarrow>
        CHR '':'' \<notin> set n \<and> CHR 0x0D \<notin> set n \<and> CHR 0x0D \<notin> set v \<and>
        dropWhile (\<lambda>c. c = CHR '' '') v = v \<and> ikey n \<noteq> ikey ''Set-Cookie'')"

lemma isLowerEqual_zero: "isLowerEqual a b = 0 \<longleftrightarrow> ikey a = ikey b"
proof -
  have "NUL \<notin> set x \<Longrightarrow> NUL \<notin> set y \<Longrightarrow> stricmp x y = 0 \<longleftrightarrow> map lowercase x = map lowercase y" for x y
  proof (induction x y rule: stricmp.induct)
    case (2 b bs)
    then have "lowercase b \<noteq> NUL" by auto
    from char_code_pos [OF this] show ?case by simp
  next
    case (3 a as)
    then have "lowercase a \<noteq> NUL" by auto
    from char_code_pos [OF this] show ?case by simp
  next
    case (4 a as b bs)
    then show ?case by (auto simp: char_code_inj)
  qed simp
  then show ?thesis by (simp add: isLowerEqual_def ikey_def)
qed

lemma cgi_getLine_here:
  assumes "CHR 0x0D \<notin> set l"
  shows "cgi_getLine cg (l @ CRLF @ t) =
    Some (cg\<lparr>cg_line := l, cg_index := cg_index cg + length l + 2\<rparr>, t)"
proof -
  have "find_sub CRLF (l @ CRLF @ t) = Some (length l)"
    using find_sub_here [OF assms, of "[CHR 0x0A]" t] by (simp add: CRLF_def)
  then show ?thesis by (simp add: cgi_getLine_def)
qed

lemma extract_header_ok:
  assumes "cgi_header_ok (n, v)"
  shows "extract_header (cg\<lparr>cg_line := n @ '': '' @ v\<rparr>) rq =
    (0, cg\<lparr>cg_line := [], cg_headers := map_set i_less n v (cg_headers cg)\<rparr>, rq)"
proof -
  have "find_sub '':'' (n @ '': '' @ v) = Some (length n)"
    using assms find_sub_here [of "CHR '':''" n "[]" "CHR '' '' # v"]
    by (simp add: cgi_header_ok_def)
  with assms show ?thesis
    by (simp add: extract_header_def cgi_header_ok_def isLowerEqual_zero)
qed

lemma length_format_header: "length (format_header (n, v)) = length n + length v + 4"
  by (simp add: format_header_def)

lemma cgi_lines_formatted:
  "list_all cgi_header_ok hs \<Longrightarrow>
   cgi_lines cg rq (concat (map format_header hs) @ CRLF @ rest) =
     (False, cg\<lparr>cg_line := [],
        cg_headers := fold (\<lambda>(n, v). map_set i_less n v) hs (cg_headers cg),
        cg_index := cg_index cg + length (concat (map format_header hs)) + 2\<rparr>, rq)"
proof (induction hs arbitrary: cg)
  case Nil
  from cgi_getLine_here [of "[]" cg rest] show ?case
    by (simp add: cgi_lines.simps [of cg rq "CRLF @ rest"])
next
  case (Cons h hs)
  obtain n v where h: "h = (n, v)" by (cases h)
  let ?t = "concat (map format_header hs) @ CRLF @ rest"
  let ?cg = "cg\<lparr>cg_index := cg_index cg + length (n @ '': '' @ v) + 2\<rparr>"
  have ok: "cgi_header_ok (n, v)" using Cons.prems by (simp add: h)
  then have "CHR 0x0D \<notin> set (n @ '': '' @ v)" by (auto simp: cgi_header_ok_def)
  from cgi_getLine_here [OF this, of cg ?t]
  have gl: "cgi_getLine cg (concat (map format_header (h # hs)) @ CRLF @ rest) =
      Some (?cg\<lparr>cg_line := n @ '': '' @ v\<rparr>, ?t)"
    by (simp add: h format_header_def)
  have "cgi_lines cg rq (concat (map format_header (h # hs)) @ CRLF @ rest) =
      cgi_lines (?cg\<lparr>cg_line := [], cg_headers := map_set i_less n v (cg_headers cg)\<rparr>) rq ?t"
    using extract_header_ok [OF ok, of ?cg rq]
    by (simp only: cgi_lines.simps [of cg rq "concat (map format_header (h # hs)) @ CRLF @ rest"] gl)
      simp
  with Cons show ?case by (simp add: h length_format_header)
qed

lemma fold_map_set_ordered:
  "map_ordered i_less (m @ hs) \<Longrightarrow> fold (\<lambda>(n, v). map_set i_less n v) hs m = m @ hs"
proof (induction hs arbitrary: m)
  case (Cons h hs)
  obtain n v where h: "h = (n, v)" by (cases h)
  have "\<forall>q \<in> set m. i_less (fst q) n"
    using Cons.prems(1) by (auto simp: h map_ordered_def sorted_wrt_append)
  then have "map_set i_less n v m = m @ [(n, v)]" by (induction m) auto
  with Cons show ?case by (simp add: h)
qed simp

text \<open>
  C35. A script that prints at least one header, ordered and well formed, none of them
  \<open>Location\<close> or \<open>Status\<close>, then an empty line and a body is understood, if the headers and
  the empty line are within the 4000 bytes that are read: the answer is a document with status
  200, the script's headers are known, and the file response starts at the first byte of the
  body.
\<close>

theorem cgi_document_understood:
  assumes "file_bytes sys (h_path (r_hints rq)) = Some (concat (map format_header hs) @ CRLF @ body)"
    and "map_ordered i_less hs" and "list_all cgi_header_ok hs" and "hs \<noteq> []"
    and "length (concat (map format_header hs) @ CRLF) \<le> BUFFER_SIZE"
    and "map_find i_less ''Location'' hs = None" and "map_find i_less ''Status'' hs = None"
  shows "\<exists>cg rq'. cgi_parseHeaders sys new_CGIProcess rq = (CGI_RES_DOC, cg, rq') \<and>
    cg_headers cg = hs \<and> h_status (r_hints rq') = 200 \<and>
    drop (nat (h_index (r_hints rq'))) (concat (map format_header hs) @ CRLF @ body) = body"
proof -
  let ?head = "concat (map format_header hs)"
  let ?n = "length ?head + 2"
  let ?cg = "new_CGIProcess\<lparr>cg_headers := hs, cg_index := ?n\<rparr>"
  let ?t = "take (BUFFER_SIZE - ?n) body"
  have "take BUFFER_SIZE (?head @ CRLF @ body) = ?head @ CRLF @ ?t"
    using assms(5) by (simp add: diff_diff_eq)
  moreover have "cgi_lines new_CGIProcess rq (?head @ CRLF @ ?t) = (False, ?cg, rq)"
    using cgi_lines_formatted [OF assms(3), of new_CGIProcess rq ?t]
      fold_map_set_ordered [of "[]" hs] assms(2)
    by (simp add: new_CGIProcess_def)
  ultimately have parse: "cgi_parseHeaders sys new_CGIProcess rq =
      (case inspectHeaders ?cg (upd_hints (\<lambda>h. h\<lparr>h_index := i32 (int (cg_index ?cg))\<rparr>) rq) of
         (res, rq2) \<Rightarrow> (res, ?cg, rq2))"
    by (simp only: cgi_parseHeaders_def Let_def assms(1) option.case prod.case if_False)
  have "i32 (int ?n) = int ?n"
    using assms(5) by (intro i32_nonneg) (simp_all add: BUFFER_SIZE_def)
  then show ?thesis
    using assms(4,6,7)
    by (simp add: parse inspectHeaders_def inspect_document_def retrieveHeader_def
        set_hint_header_def add_hint_header_def split: option.split)
qed

theorem cgi_document_understood_witness:
  "\<exists>cg rq'. cgi_parseHeaders
       (demo_system\<lparr>sys_read := (\<lambda>p. Some (concat (map format_header [(''A'', ''b'')]) @ CRLF @ ''body''))\<rparr>)
       new_CGIProcess new_Request = (CGI_RES_DOC, cg, rq') \<and>
    cg_headers cg = [(''A'', ''b'')] \<and> h_status (r_hints rq') = 200 \<and>
    drop (nat (h_index (r_hints rq'))) (concat (map format_header [(''A'', ''b'')]) @ CRLF @ ''body'') = ''body''"
proof (rule cgi_document_understood)
  show "map_find i_less ''Location'' [(''A'', ''b'')] = None" by code_simp
  show "map_find i_less ''Status'' [(''A'', ''b'')] = None" by code_simp
  show "list_all cgi_header_ok [(''A'', ''b'')]" by code_simp
qed (simp_all add: file_bytes_def map_ordered_def format_header_def BUFFER_SIZE_def)

text \<open>
  A script cannot choose its status: whatever headers it printed, a document is
  answered with 200, or with 500 when its \<open>Status\<close> header is not a bare number.
\<close>

theorem cgi_status_not_honoured:
  assumes "cgi_parseHeaders sys cg rq = (CGI_RES_DOC, cg', rq')"
  shows "h_status (r_hints rq') = 200 \<or> h_status (r_hints rq') = 500"
proof -
  have doc: "h_status (r_hints q') = 200 \<or> h_status (r_hints q') = 500"
    if "inspect_document g q = (r, q')" for g q r q'
    using that by (auto simp: inspect_document_def set_hint_header_def split: if_splits option.splits)
  have "h_status (r_hints q') = 200 \<or> h_status (r_hints q') = 500"
    if "inspectHeaders g q = (CGI_RES_DOC, q')" for g q q'
    using that by (auto simp: inspectHeaders_def Let_def split: if_splits option.splits dest: doc)
  with assms show ?thesis
    by (auto simp: cgi_parseHeaders_def Let_def split: prod.splits if_splits)
qed

theorem cgi_status_not_honoured_witness:
  "\<exists>rq'. (\<exists>cg. cgi_parseHeaders
       (demo_system\<lparr>sys_read := (\<lambda>p. Some (''Status: 404'' @ CRLF @ CRLF))\<rparr>) new_CGIProcess new_Request =
       (CGI_RES_DOC, cg, rq')) \<and> (h_status (r_hints rq') = 200 \<or> h_status (r_hints rq') = 500)"
proof -
  let ?x = "cgi_parseHeaders (demo_system\<lparr>sys_read := (\<lambda>p. Some (''Status: 404'' @ CRLF @ CRLF))\<rparr>)
      new_CGIProcess new_Request"
  have "fst ?x = CGI_RES_DOC" by code_simp
  then obtain cg rq' where "?x = (CGI_RES_DOC, cg, rq')" by (cases ?x) auto
  with cgi_status_not_honoured show ?thesis by blast
qed

text \<open>
  A header line without a colon stops the parser with status 500 and the result that no
  caller handles.
\<close>

lemma cgi_malformed_header_unhandled:
  "fst (cgi_parseHeaders (demo_system\<lparr>sys_read := (\<lambda>p. Some (''bad'' @ CRLF @ CRLF))\<rparr>)
      new_CGIProcess new_Request) = CGI_RES_NONE"
  by code_simp

lemma setenv_apply: "setenv k v env k' = (if k' = k then Some (c_str v) else env k')"
  by (simp add: setenv_def)

lemma unsetenv_apply: "unsetenv k env k' = (if k' = k then None else env k')"
  by (simp add: unsetenv_def)

text \<open>
  The environment of a script: the request's method and query are passed as they are
  (up to a NUL byte), and no path info of an earlier request is left over.
\<close>

theorem setVariables_environment:
  assumes "setVariables addr port bodyFile scriptPath rq env = Inr env'"
  shows "env' ''QUERY_STRING'' = Some (c_str (u_query (puri rq))) \<and>
    env' ''REQUEST_METHOD'' = map_option METHOD_STR (r_method rq) \<and>
    env' ''PATH_INFO'' =
      (if u_pathInfo (puri rq) = [] then None else Some (c_str (u_pathInfo (puri rq)))) \<and>
    env' ''HTTP_COOKIE'' =
      (if getHeader rq ''Cookie'' = [] then None else Some (c_str (getHeader rq ''Cookie''))) \<and>
    env' ''SCRIPT_NAME'' = Some (c_str scriptPath)"
proof -
  obtain c m where c: "cgiRules rq = Some c" and m: "r_method rq = Some m"
    using assms by (cases "cgiRules rq"; cases "r_method rq") (simp_all add: setVariables_def)
  have "c_str (METHOD_STR m) = METHOD_STR m"
    by (cases m) (simp_all add: c_str_def NUL_def)
  moreover note env' = assms [symmetric, unfolded setVariables_def c m Let_def option.case
      deref_simps and_then_simps sum.inject]
  ultimately show ?thesis
    by (simp only: env' m if_distribR setenv_apply unsetenv_apply list.inject char.inject
        list.distinct if_False if_True simp_thms) simp
qed

theorem setVariables_environment_witness:
  "\<exists>env'. setVariables ''1.2.3.4'' 80 [] ''/s'' (demo_request GET ''/a?x=1''
       \<lparr>r_hints := (r_hints (demo_request GET ''/a?x=1''))\<lparr>h_cgiRules := Some new_CGIConfig\<rparr>\<rparr>)
       (\<lambda>_. None) = Inr env' \<and> env' ''REQUEST_METHOD'' = Some ''GET''"
proof -
  let ?rq = "demo_request GET ''/a?x=1''
       \<lparr>r_hints := (r_hints (demo_request GET ''/a?x=1''))\<lparr>h_cgiRules := Some new_CGIConfig\<rparr>\<rparr>"
  have m: "r_method ?rq = Some GET" by code_simp
  then obtain env' where "setVariables ''1.2.3.4'' 80 [] ''/s'' ?rq (\<lambda>_. None) = Inr env'"
    by (auto simp: setVariables_def Let_def)
  from setVariables_environment [OF this] this m show ?thesis by simp
qed

end
