(* ===== verification/Listen.thy ===== *)
theory Listen
  imports Host_Rules
begin

text \<open>
  Listening servers (includes/ListenServer.hpp, srcs/ListenServer.cpp) and the global lists
  that tie servers, hosts and clients together: registering and unregistering hosts,
  choosing the host of a client, accepting and dropping clients.

  Objects are numbers; the static lists are association lists from numbers to records. The
  host and the server a client points to are the \<open>w_links\<close> of the world, its other
  fields are modelled with the client. Dereferencing a pointer to an object that is no
  longer listed is a fault. The lemmas show which host a name leads to, that conflicts of
  names are detected, that the lists stay consistent, and that removing a host that still
  has clients is undefined.
\<close>

section \<open>State\<close>

record ListenServer =
  ls_orphanClients :: "nat list"
  ls_connectedClients :: "nat list"
  ls_sockFd :: int
  ls_hostMap :: "(string, nat) std_map"
  ls_ip :: string
  ls_port :: string
  ls_maxClientNbr :: int
  ls_nbrHost :: int

definition new_ListenServer :: "string \<Rightarrow> string \<Rightarrow> ListenServer" where
  "new_ListenServer hostAddr hostPort =
     \<lparr> ls_orphanClients = [], ls_connectedClients = [], ls_sockFd = 0, ls_hostMap = [],
       ls_ip = hostAddr, ls_port = hostPort, ls_maxClientNbr = 2147483647, ls_nbrHost = 0 \<rparr>"

record world =
  w_servers :: "(nat \<times> ListenServer) list"
  w_hosts :: "(nat \<times> Host) list"
  w_links :: "(nat \<times> nat option \<times> nat) list"
  w_next :: nat

definition empty_world :: world where
  "empty_world = \<lparr> w_servers = [], w_hosts = [], w_links = [], w_next = 0 \<rparr>"

definition upd_assoc :: "nat \<Rightarrow> ('a \<Rightarrow> 'a) \<Rightarrow> (nat \<times> 'a) list \<Rightarrow> (nat \<times> 'a) list" where
  "upd_assoc i f xs = map (\<lambda>(k, x). (k, if k = i then f x else x)) xs"

definition del_assoc :: "nat \<Rightarrow> (nat \<times> 'a) list \<Rightarrow> (nat \<times> 'a) list" where
  "del_assoc i xs = filter (\<lambda>(k, x). k \<noteq> i) xs"

abbreviation host_at :: "world \<Rightarrow> nat \<Rightarrow> Host option" where
  "host_at w i \<equiv> map_of (w_hosts w) i"

abbreviation server_at :: "world \<Rightarrow> nat \<Rightarrow> ListenServer option" where
  "server_at w i \<equiv> map_of (w_servers w) i"

abbreviation upd_host :: "nat \<Rightarrow> (Host \<Rightarrow> Host) \<Rightarrow> world \<Rightarrow> world" where
  "upd_host i f w \<equiv> w\<lparr>w_hosts := upd_assoc i f (w_hosts w)\<rparr>"

abbreviation upd_server :: "nat \<Rightarrow> (ListenServer \<Rightarrow> ListenServer) \<Rightarrow> world \<Rightarrow> world" where
  "upd_server i f w \<equiv> w\<lparr>w_servers := upd_assoc i f (w_servers w)\<rparr>"

section \<open>Hosts of a server\<close>

text \<open>A name that is already taken keeps its host.\<close>

definition assignHost :: "nat \<Rightarrow> string list \<Rightarrow> ListenServer \<Rightarrow> ListenServer" where
  "assignHost i names ls =
     ls\<lparr>ls_hostMap := fold (\<lambda>n m. if map_find str_less n m = None then map_set str_less n i m else m)
                        names (ls_hostMap ls),
        ls_nbrHost := i32 (ls_nbrHost ls + 1)\<rparr>"

definition findHost :: "string \<Rightarrow> ListenServer \<Rightarrow> nat option" where
  "findHost name ls = map_find str_less name (ls_hostMap ls)"

definition findServer :: "string \<Rightarrow> string \<Rightarrow> world \<Rightarrow> nat option" where
  "findServer hostAddr hostPort w =
     map_option fst (List.find (\<lambda>(i, ls). ls_ip ls = hostAddr \<and> ls_port ls = hostPort) (w_servers w))"

definition serverExist :: "string \<Rightarrow> string \<Rightarrow> world \<Rightarrow> bool" where
  "serverExist hostAddr hostPort w = (findServer hostAddr hostPort w \<noteq> None)"

text \<open>\<open>addServer\<close>: \<open>sock\<close> gives the bound socket for an address and port, if there is one.\<close>

definition addServer :: "(string \<Rightarrow> string \<Rightarrow> int option) \<Rightarrow> string \<Rightarrow> string \<Rightarrow> world \<Rightarrow> nat option \<times> world" where
  "addServer sock hostAddr hostPort w =
     (case sock hostAddr hostPort of
        None \<Rightarrow> (None, w)
      | Some fd \<Rightarrow>
          (Some (w_next w),
           w\<lparr>w_servers := w_servers w @
               [(w_next w, (new_ListenServer hostAddr hostPort)\<lparr>ls_sockFd := fd\<rparr>)],
             w_next := w_next w + 1\<rparr>))"

definition addListenServer :: "nat \<Rightarrow> Host \<Rightarrow> Host" where
  "addListenServer s h = h\<lparr>ho_listenServers := List.insert s (ho_listenServers h)\<rparr>"

definition removeListenServer :: "nat \<Rightarrow> Host \<Rightarrow> Host" where
  "removeListenServer s h = h\<lparr>ho_listenServers := removeAll s (ho_listenServers h)\<rparr>"

definition registerHost_port ::
  "(string \<Rightarrow> string \<Rightarrow> int option) \<Rightarrow> nat \<Rightarrow> Host \<Rightarrow> string \<Rightarrow> world \<Rightarrow> int \<times> world" where
  "registerHost_port sock i h port w =
     (case findServer (ho_addr h) port w of
        Some s \<Rightarrow>
          (0, upd_host i (addListenServer s) (upd_server s (assignHost i (ho_server_names h)) w))
      | None \<Rightarrow>
          (case addServer sock (ho_addr h) port w of
             (None, w1) \<Rightarrow> (1, w1)
           | (Some s, w1) \<Rightarrow>
               (0, upd_host i (addListenServer s)
                     (upd_server s (assignHost i (ho_server_names h)) w1))))"

fun registerHost_ports ::
  "(string \<Rightarrow> string \<Rightarrow> int option) \<Rightarrow> nat \<Rightarrow> Host \<Rightarrow> string list \<Rightarrow> world \<Rightarrow> int \<times> world" where
  "registerHost_ports sock i h [] w = (0, w)"
| "registerHost_ports sock i h (p # ps) w =
     (case registerHost_port sock i h p w of (r, w1) \<Rightarrow>
        (case registerHost_ports sock i h ps w1 of (r', w2) \<Rightarrow> (if r \<noteq> 0 then 1 else r', w2)))"

definition registerHost :: "(string \<Rightarrow> string \<Rightarrow> int option) \<Rightarrow> nat \<Rightarrow> Host \<Rightarrow> world \<Rightarrow> int \<times> world" where
  "registerHost sock i h w = registerHost_ports sock i h (ho_ports h) w"

definition addHost :: "(string \<Rightarrow> string \<Rightarrow> int option) \<Rightarrow> Host \<Rightarrow> world \<Rightarrow> int \<times> world" where
  "addHost sock h w =
     registerHost sock (w_next w) h
       (w\<lparr>w_hosts := w_hosts w @ [(w_next w, h)], w_next := w_next w + 1\<rparr>)"

text \<open>\<open>checkServerNames\<close>: no name is taken on any server of the address and ports.\<close>

definition checkServerNames :: "string \<Rightarrow> string list \<Rightarrow> string list \<Rightarrow> world \<Rightarrow> bool" where
  "checkServerNames hostAddr ports serverNames w =
     list_all (\<lambda>p.
       case findServer hostAddr p w of
         None \<Rightarrow> True
       | Some s \<Rightarrow>
           (case server_at w s of
              None \<Rightarrow> True
            | Some ls \<Rightarrow> list_all (\<lambda>n. findHost n ls = None) serverNames)) ports"

section \<open>Clients\<close>

definition ls_removeClient :: "nat \<Rightarrow> ListenServer \<Rightarrow> ListenServer" where
  "ls_removeClient c ls =
     ls\<lparr>ls_orphanClients := removeAll c (ls_orphanClients ls),
        ls_connectedClients := removeAll c (ls_connectedClients ls)\<rparr>"

text \<open>\<open>acceptConnection\<close>: \<open>fd\<close> is what \<open>accept\<close> returns.\<close>

definition acceptConnection :: "int \<Rightarrow> nat \<Rightarrow> world \<Rightarrow> fault + nat option \<times> world" where
  "acceptConnection fd s w =
     and_then (deref (server_at w s)) (\<lambda>ls.
       Inr (if ls_maxClientNbr ls \<le> int (length (ls_connectedClients ls)) then (None, w)
            else if fd < 0 then (None, w)
            else
              (let c = w_next w in
               (Some c,
                upd_server s (\<lambda>ls. ls\<lparr>ls_connectedClients := ls_connectedClients ls @ [c],
                                      ls_orphanClients := ls_orphanClients ls @ [c]\<rparr>)
                  (w\<lparr>w_links := w_links w @ [(c, None, s)], w_next := w_next w + 1\<rparr>)))))"

text \<open>
  \<open>bindClient\<close>: the named host, else the first of the map; the map's \<open>begin()\<close> is
  dereferenced even when the map is empty.
\<close>

definition bindClient :: "nat \<Rightarrow> nat \<Rightarrow> string \<Rightarrow> world \<Rightarrow> fault + nat \<times> world" where
  "bindClient s c hostName w =
     and_then (deref (server_at w s)) (\<lambda>ls.
     and_then
       (case findHost hostName ls of
          Some i \<Rightarrow> Inr i
        | None \<Rightarrow> (case ls_hostMap ls of [] \<Rightarrow> Inl BadAccess | (n, i) # m \<Rightarrow> Inr i)) (\<lambda>i.
     and_then (deref (host_at w i)) (\<lambda>h.
       Inr (i, upd_server s (\<lambda>ls. ls\<lparr>ls_orphanClients := removeAll c (ls_orphanClients ls)\<rparr>)
                 (upd_host i (addClient c) w)))))"

text \<open>
  \<open>Client::setHost\<close>: a client that is bound keeps its host when the name is one of the
  host's names, and changes host otherwise.
\<close>

definition setHost :: "nat \<Rightarrow> string \<Rightarrow> world \<Rightarrow> fault + world" where
  "setHost c hostname w =
     and_then (deref (map_of (w_links w) c)) (\<lambda>(host, s).
       and_then
         (case host of
            None \<Rightarrow> Inr (False, w)
          | Some i \<Rightarrow>
              and_then (deref (host_at w i)) (\<lambda>h.
                Inr (if checkServerName h hostname then (True, w)
                     else (False, upd_host i (removeClient c) w)))) (\<lambda>(keep, w1).
         if keep then Inr w1
         else
           and_then (bindClient s c hostname w1) (\<lambda>(i, w2).
             Inr (w2\<lparr>w_links := upd_assoc c (\<lambda>_. (Some i, s)) (w_links w2)\<rparr>))))"

definition client_host :: "nat \<Rightarrow> world \<Rightarrow> fault + Host" where
  "client_host c w =
     and_then (deref (map_of (w_links w) c)) (\<lambda>(host, s).
       and_then (deref host) (\<lambda>i. deref (host_at w i)))"

text \<open>
  The part of \<open>Client::terminate\<close> that concerns the lists: the client is taken off the list of
  its host, if it has one, and off those of its server. A client whose host or server is gone
  dereferences a dangling pointer.
\<close>

definition drop_client :: "nat \<Rightarrow> world \<Rightarrow> fault + world" where
  "drop_client c w =
     and_then (deref (map_of (w_links w) c)) (\<lambda>(host, s).
     and_then
       (case host of
          None \<Rightarrow> Inr w
        | Some i \<Rightarrow> and_then (deref (host_at w i)) (\<lambda>h. Inr (upd_host i (removeClient c) w))) (\<lambda>w1.
     and_then (deref (server_at w1 s)) (\<lambda>ls.
       Inr ((upd_server s (ls_removeClient c) w1)\<lparr>w_links := del_assoc c (w_links w1)\<rparr>))))"

fun drop_clients :: "nat list \<Rightarrow> world \<Rightarrow> fault + world" where
  "drop_clients [] w = Inr w"
| "drop_clients (c # cs) w = and_then (drop_client c w) (drop_clients cs)"

section \<open>Removing hosts and servers\<close>

text \<open>\<open>server_names.at(0)\<close> throws for a host without a name.\<close>

definition unassignHost :: "nat \<Rightarrow> nat \<Rightarrow> world \<Rightarrow> fault + world" where
  "unassignHost s i w =
     and_then (deref (server_at w s)) (\<lambda>ls.
     and_then (deref (host_at w i)) (\<lambda>h.
     and_then (case ho_server_names h of [] \<Rightarrow> Inl OutOfRange | n # _ \<Rightarrow> Inr n) (\<lambda>name.
       case findHost name ls of
         None \<Rightarrow> Inr w
       | Some j \<Rightarrow>
           and_then (deref (host_at w j)) (\<lambda>owner.
             Inr (upd_host i (removeListenServer s)
               (upd_server s (\<lambda>ls. ls\<lparr>
                   ls_connectedClients :=
                     filter (\<lambda>c. c \<notin> set (ho_clients owner)) (ls_connectedClients ls),
                   ls_hostMap := fold (map_erase str_less) (ho_server_names h) (ls_hostMap ls),
                   ls_nbrHost := i32 (ls_nbrHost ls - 1)\<rparr>) w))))))"

text \<open>
  \<open>Host::shutdown\<close> erases, through \<open>terminate\<close>, the list node its loop stands on, and
  then advances from it.
\<close>

definition removeHost :: "nat \<Rightarrow> world \<Rightarrow> fault + world" where
  "removeHost i w =
     and_then (deref (host_at w i)) (\<lambda>h.
       if ho_clients h \<noteq> [] then Inl BadAccess
       else Inr (w\<lparr>w_hosts := del_assoc i (w_hosts w)\<rparr>))"

text \<open>
  The loop of \<open>removeServer\<close> over the hosts of a server, with
  \<open>UniqueValuesMapIterator\<close>: \<open>entries\<close> are the entries from the iterator on, as they
  were when the loop started, \<open>seen\<close> the hosts already met. The iterator moves to the
  next entry with an unseen host before the host is unassigned; if that erases the entry it
  moved to, it is left dangling.
\<close>

function unassign_from :: "nat \<Rightarrow> nat set \<Rightarrow> (string \<times> nat) list \<Rightarrow> world \<Rightarrow> fault + world" where
  "unassign_from s seen [] w = Inr w"
| "unassign_from s seen ((k, i) # rest) w =
     and_then (deref (server_at w s)) (\<lambda>ls.
       if findHost k ls = None then Inl BadAccess
       else
         (let seen' = insert i seen;
              later = dropWhile (\<lambda>(k', i'). findHost k' ls = None \<or> i' \<in> seen') rest
          in and_then (unassignHost s i w) (unassign_from s seen' later)))"
  by pat_completeness auto
termination
  by (relation "measure (\<lambda>(s, seen, entries, w). length entries)")
    (auto simp: le_imp_less_Suc length_dropWhile_le)

definition shutdown :: "ListenServer \<Rightarrow> ListenServer" where
  "shutdown ls = ls\<lparr>ls_sockFd := 0\<rparr>"

definition removeServer :: "nat \<Rightarrow> world \<Rightarrow> fault + world" where
  "removeServer s w =
     and_then (deref (server_at w s)) (\<lambda>ls.
     and_then
       (drop_clients (ls_orphanClients ls) (if ls_sockFd ls \<noteq> 0 then upd_server s shutdown w else w)) (\<lambda>w1.
     and_then (deref (server_at w1 s)) (\<lambda>ls1.
     and_then (drop_clients (ls_connectedClients ls1) w1) (\<lambda>w2.
     and_then (unassign_from s {} (ls_hostMap ls) w2) (\<lambda>w3.
       Inr (w3\<lparr>w_servers := del_assoc s (w_servers w3)\<rparr>))))))"

definition unregisterHost_port :: "nat \<Rightarrow> string \<Rightarrow> world \<Rightarrow> fault + world" where
  "unregisterHost_port i port w =
     and_then (deref (host_at w i)) (\<lambda>h.
       case findServer (ho_addr h) port w of
         None \<Rightarrow> Inr w
       | Some s \<Rightarrow>
           and_then (unassignHost s i w) (\<lambda>w1.
           and_then (deref (server_at w1 s)) (\<lambda>ls.
           and_then (if ls_hostMap ls = [] then removeServer s w1 else Inr w1) (\<lambda>w2.
           and_then (deref (host_at w2 i)) (\<lambda>h2.
             if ho_listenServers h2 = [] then removeHost i w2 else Inr w2)))))"

text \<open>
  \<open>unregisterHost\<close> over all the servers of a host: the set of servers is a copy, their
  ports are read through the pointers when their turn comes.
\<close>

fun unregister_servers :: "nat \<Rightarrow> nat list \<Rightarrow> world \<Rightarrow> fault + world" where
  "unregister_servers i [] w = Inr w"
| "unregister_servers i (s # ss) w =
     and_then (deref (server_at w s)) (\<lambda>ls.
       and_then (unregisterHost_port i (ls_port ls) w) (unregister_servers i ss))"

definition unregisterHost :: "nat \<Rightarrow> world \<Rightarrow> fault + world" where
  "unregisterHost i w =
     and_then (deref (host_at w i)) (\<lambda>h. unregister_servers i (ho_listenServers h) w)"

definition removeHost_name :: "nat \<Rightarrow> string \<Rightarrow> world \<Rightarrow> fault + int \<times> world" where
  "removeHost_name s serverName w =
     and_then (deref (server_at w s)) (\<lambda>ls.
       case findHost serverName ls of
         None \<Rightarrow> Inr (1, w)
       | Some i \<Rightarrow> and_then (unregisterHost_port i (ls_port ls) w) (\<lambda>w1. Inr (0, w1)))"

text \<open>
  \<open>startServers\<close>: \<open>listens fd\<close> tells whether the socket could be registered and listened
  on; a server that cannot listen is erased from the list, its hosts still point to it.
\<close>

definition startServers :: "(int \<Rightarrow> bool) \<Rightarrow> world \<Rightarrow> int \<times> world" where
  "startServers listens w =
     (if list_all (\<lambda>(i, ls). listens (ls_sockFd ls)) (w_servers w) then 0 else 1,
      w\<lparr>w_servers := filter (\<lambda>(i, ls). listens (ls_sockFd ls)) (w_servers w)\<rparr>)"

definition closeServers :: "world \<Rightarrow> world" where
  "closeServers w = w\<lparr>w_servers := map (\<lambda>(i, ls). (i, shutdown ls)) (w_servers w)\<rparr>"

fun remove_each :: "nat list \<Rightarrow> world \<Rightarrow> fault + world" where
  "remove_each [] w = Inr w"
| "remove_each (s # ss) w = and_then (removeServer s w) (remove_each ss)"

definition removeServers :: "world \<Rightarrow> fault + world" where
  "removeServers w = remove_each (map fst (w_servers w)) w"

section \<open>Which host a name leads to\<close>

lemma map_of_upd_assoc [simp]:
  "map_of (upd_assoc i f xs) k = (if k = i then map_option f (map_of xs k) else map_of xs k)"
  by (induction xs) (auto simp: upd_assoc_def)

lemma map_of_del_assoc [simp]:
  "map_of (del_assoc i xs) k = (if k = i then None else map_of xs k)"
  by (induction xs) (auto simp: del_assoc_def)

lemma keys_upd_assoc [simp]: "map fst (upd_assoc i f xs) = map fst xs"
  by (simp add: upd_assoc_def case_prod_unfold comp_def)

lemma keys_del_assoc: "distinct (map fst xs) \<Longrightarrow> distinct (map fst (del_assoc i xs))"
  by (simp add: del_assoc_def distinct_map_filter)

definition ls_ok :: "ListenServer \<Rightarrow> bool" where
  "ls_ok ls = map_ordered str_less (ls_hostMap ls)"

lemma assign_fold:
  "map_ordered str_less m \<Longrightarrow>
   map_ordered str_less
     (fold (\<lambda>n m. if map_find str_less n m = None then map_set str_less n i m else m) names m) \<and>
   map_find str_less k
     (fold (\<lambda>n m. if map_find str_less n m = None then map_set str_less n i m else m) names m) =
     (case map_find str_less k m of
        Some j \<Rightarrow> Some j | None \<Rightarrow> if k \<in> set names then Some i else None)"
proof (induction names arbitrary: m)
  case Nil
  then show ?case by (simp split: option.split)
next
  case (Cons n names)
  let ?m = "if map_find str_less n m = None then map_set str_less n i m else m"
  have "map_ordered str_less ?m" using Cons.prems by (simp add: str_map.ordered_set)
  moreover have "map_find str_less k ?m =
      (case map_find str_less k m of Some j \<Rightarrow> Some j | None \<Rightarrow> if k = n then Some i else None)"
    using Cons.prems by (auto simp: str_map.find_set same_key_str split: option.split)
  ultimately show ?case using Cons.IH [of ?m] by (auto split: option.split)
qed

lemma findHost_assign:
  "ls_ok ls \<Longrightarrow> ls_ok (assignHost i names ls) \<and>
   findHost k (assignHost i names ls) =
     (case findHost k ls of Some j \<Rightarrow> Some j | None \<Rightarrow> if k \<in> set names then Some i else None)"
  using assign_fold [of "ls_hostMap ls" i names k] by (simp add: ls_ok_def findHost_def assignHost_def)


definition demo_world :: world where
  "demo_world = empty_world\<lparr>
     w_servers := [(0, (new_ListenServer ''localhost'' ''8080'')\<lparr>ls_hostMap := [(''h'', 1)], ls_sockFd := 3\<rparr>)],
     w_hosts := [(1, demo_host\<lparr>ho_listenServers := [0]\<rparr>)], w_next := 2\<rparr>"


section \<open>Clients are listed where they are linked\<close>

text \<open>
  Every client number in a list is linked to the object that lists it, and numbers yet to
  be given are not in use.
\<close>

definition world_ok :: "world \<Rightarrow> bool" where
  "world_ok w \<longleftrightarrow>
     (\<forall>i h c. host_at w i = Some h \<and> c \<in> set (ho_clients h) \<longrightarrow>
        (\<exists>s. map_of (w_links w) c = Some (Some i, s))) \<and>
     (\<forall>s ls c. server_at w s = Some ls \<and> c \<in> set (ls_connectedClients ls @ ls_orphanClients ls) \<longrightarrow>
        (\<exists>host. map_of (w_links w) c = Some (host, s))) \<and>
     (\<forall>c. map_of (w_links w) c \<noteq> None \<longrightarrow> c < w_next w)"

lemma world_okI:
  assumes "\<And>i h c. host_at w i = Some h \<Longrightarrow> c \<in> set (ho_clients h) \<Longrightarrow>
      \<exists>s. map_of (w_links w) c = Some (Some i, s)"
    and "\<And>s ls c. server_at w s = Some ls \<Longrightarrow> c \<in> set (ls_connectedClients ls @ ls_orphanClients ls) \<Longrightarrow>
      \<exists>host. map_of (w_links w) c = Some (host, s)"
    and "\<And>c. map_of (w_links w) c \<noteq> None \<Longrightarrow> c < w_next w"
  shows "world_ok w"
  using assms by (simp add: world_ok_def)

lemma world_okD:
  assumes "world_ok w"
  shows "host_at w i = Some h \<Longrightarrow> c \<in> set (ho_clients h) \<Longrightarrow> \<exists>s. map_of (w_links w) c = Some (Some i, s)"
    and "server_at w s = Some ls \<Longrightarrow> c \<in> set (ls_connectedClients ls) \<or> c \<in> set (ls_orphanClients ls) \<Longrightarrow>
      \<exists>host. map_of (w_links w) c = Some (host, s)"
    and "map_of (w_links w) c \<noteq> None \<Longrightarrow> c < w_next w"
  using assms by (auto simp: world_ok_def)

lemma in_removeClient [simp]:
  "d \<in> set (ho_clients (removeClient c h)) \<longleftrightarrow> d \<in> set (ho_clients h) \<and> d \<noteq> c"
  by (auto simp: removeClient_def)

lemma in_addClient [simp]: "d \<in> set (ho_clients (addClient c h)) \<longleftrightarrow> d \<in> set (ho_clients h) \<or> d = c"
  by (auto simp: addClient_def)

lemma in_ls_removeClient [simp]:
  "d \<in> set (ls_connectedClients (ls_removeClient c ls)) \<longleftrightarrow> d \<in> set (ls_connectedClients ls) \<and> d \<noteq> c"
  "d \<in> set (ls_orphanClients (ls_removeClient c ls)) \<longleftrightarrow> d \<in> set (ls_orphanClients ls) \<and> d \<noteq> c"
  by (auto simp: ls_removeClient_def)

lemma accept_ok:
  assumes "world_ok w" and "acceptConnection fd s w = Inr (r, w')"
  shows "world_ok w'"
proof -
  note D = world_okD [OF assms(1)]
  have fresh: "map_of (w_links w) (w_next w) = None" using D(3) by (metis less_irrefl)
  obtain ls where ls: "server_at w s = Some ls"
    using assms(2) by (cases "server_at w s") (auto simp: acceptConnection_def)
  show ?thesis
  proof (cases "ls_maxClientNbr ls \<le> int (length (ls_connectedClients ls)) \<or> fd < 0")
    case True
    with assms ls show ?thesis by (auto simp: acceptConnection_def split: if_splits)
  next
    case False
    with assms(2) ls have w': "w' = upd_server s (\<lambda>ls. ls\<lparr>ls_connectedClients := ls_connectedClients ls @ [w_next w],
                                      ls_orphanClients := ls_orphanClients ls @ [w_next w]\<rparr>)
                  (w\<lparr>w_links := w_links w @ [(w_next w, None, s)], w_next := w_next w + 1\<rparr>)"
      by (simp add: acceptConnection_def Let_def)
    have links: "map_of (w_links w') c = (if c = w_next w then Some (None, s) else map_of (w_links w) c)" for c
      using fresh by (auto simp: w' map_add_def split: option.split)
    show ?thesis
    proof (rule world_okI, unfold links)
      show "\<exists>t. (if c = w_next w then Some (None, s) else map_of (w_links w) c) = Some (Some i, t)"
        if "host_at w' i = Some h" "c \<in> set (ho_clients h)" for i h c
        using that D(1) [of i h c] fresh by (auto simp: w')
      show "\<exists>host. (if c = w_next w then Some (None, s) else map_of (w_links w) c) = Some (host, t)"
        if "server_at w' t = Some ls'" "c \<in> set (ls_connectedClients ls' @ ls_orphanClients ls')" for t ls' c
        using that D(2) [of t _ c] fresh ls by (auto simp: w' split: if_splits)
      show "c < w_next w'" if "(if c = w_next w then Some (None, s) else map_of (w_links w) c) \<noteq> None" for c
        using that D(3) [of c] by (auto simp: w' split: if_splits)
    qed
  qed
qed

text \<open>The pointers a client holds lead to a host and a server that are still there.\<close>

definition linked :: "nat \<Rightarrow> world \<Rightarrow> bool" where
  "linked c w \<longleftrightarrow>
     (\<exists>host s. map_of (w_links w) c = Some (host, s) \<and> server_at w s \<noteq> None \<and>
        (\<forall>i. host = Some i \<longrightarrow> host_at w i \<noteq> None))"

lemma drop_linked: "linked c w \<longleftrightarrow> (\<exists>w'. drop_client c w = Inr w')"
  by (auto simp: linked_def drop_client_def and_then_eq_Inr deref_def split: option.splits)

text \<open>What is left of the lists when a client has gone.\<close>

lemma drop_cases:
  assumes "drop_client c w = Inr w'"
  obtains host s where "map_of (w_links w) c = Some (host, s)"
    and "\<And>i. host_at w' i = map_option (\<lambda>h. if host = Some i then removeClient c h else h) (host_at w i)"
    and "\<And>t. server_at w' t = map_option (\<lambda>ls. if t = s then ls_removeClient c ls else ls) (server_at w t)"
    and "\<And>d. map_of (w_links w') d = (if d = c then None else map_of (w_links w) d)"
    and "w_next w' = w_next w" and "map fst (w_servers w') = map fst (w_servers w)"
proof -
  from assms obtain host s where l: "map_of (w_links w) c = Some (host, s)"
    by (auto simp: drop_client_def and_then_eq_Inr deref_def split: option.splits)
  define w1 where w1: "w1 = (case host of None \<Rightarrow> w | Some i \<Rightarrow> upd_host i (removeClient c) w)"
  from assms l have w': "w' = (upd_server s (ls_removeClient c) w1)\<lparr>w_links := del_assoc c (w_links w1)\<rparr>"
    by (cases host) (auto simp: w1 drop_client_def and_then_eq_Inr deref_def split: option.splits)
  show ?thesis
  proof (rule that [OF l])
    show "host_at w' i = map_option (\<lambda>h. if host = Some i then removeClient c h else h) (host_at w i)" for i
      by (cases "host_at w i") (auto simp: w' w1 split: option.split)
    show "server_at w' t = map_option (\<lambda>ls. if t = s then ls_removeClient c ls else ls) (server_at w t)" for t
      by (cases "server_at w t") (auto simp: w' w1 split: option.split)
  qed (simp_all add: w' w1 split: option.split)
qed

lemma drop_ok:
  assumes "world_ok w" and "drop_client c w = Inr w'"
  shows "world_ok w' \<and> map_of (w_links w') c = None"
  using assms(2)
proof (rule drop_cases)
  fix host s
  assume l: "map_of (w_links w) c = Some (host, s)"
    and hosts: "\<And>i. host_at w' i = map_option (\<lambda>h. if host = Some i then removeClient c h else h) (host_at w i)"
    and servers: "\<And>t. server_at w' t = map_option (\<lambda>ls. if t = s then ls_removeClient c ls else ls) (server_at w t)"
    and links: "\<And>d. map_of (w_links w') d = (if d = c then None else map_of (w_links w) d)"
    and next_w: "w_next w' = w_next w"
  note D = world_okD [OF assms(1)]
  have "world_ok w'"
  proof (rule world_okI, unfold links)
    show "\<exists>t. (if d = c then None else map_of (w_links w) d) = Some (Some i, t)"
      if "host_at w' i = Some h" "d \<in> set (ho_clients h)" for i h d
    proof -
      from that(1) obtain h0 where h0: "host_at w i = Some h0"
        and h: "h = (if host = Some i then removeClient c h0 else h0)" by (auto simp: hosts)
      from that(2) have "d \<in> set (ho_clients h0)" "host = Some i \<longrightarrow> d \<noteq> c"
        by (simp_all add: h split: if_splits)
      with D(1) [OF h0, of d] l show ?thesis by auto
    qed
    show "\<exists>ho. (if d = c then None else map_of (w_links w) d) = Some (ho, t)"
      if "server_at w' t = Some ls'" "d \<in> set (ls_connectedClients ls' @ ls_orphanClients ls')" for t ls' d
    proof -
      from that(1) obtain ls0 where ls0: "server_at w t = Some ls0"
        and ls': "ls' = (if t = s then ls_removeClient c ls0 else ls0)" by (auto simp: servers)
      from that(2) have "d \<in> set (ls_connectedClients ls0) \<or> d \<in> set (ls_orphanClients ls0)"
        "t = s \<longrightarrow> d \<noteq> c"
        by (auto simp: ls' split: if_splits)
      with D(2) [OF ls0, of d] l show ?thesis by auto
    qed
    show "d < w_next w'" if "(if d = c then None else map_of (w_links w) d) \<noteq> None" for d
      using that D(3) [of d] by (auto simp: next_w split: if_splits)
  qed
  then show ?thesis by (simp add: links)
qed

lemma bindClient_cases:
  assumes "bindClient s c name w = Inr (j, w')"
  shows "host_at w j \<noteq> None \<and>
    w' = upd_server s (\<lambda>ls. ls\<lparr>ls_orphanClients := removeAll c (ls_orphanClients ls)\<rparr>)
           (upd_host j (addClient c) w)"
proof -
  obtain ls where ls: "server_at w s = Some ls"
    using assms by (cases "server_at w s") (auto simp: bindClient_def)
  obtain i h where "host_at w i = Some h"
    "(i, upd_server s (\<lambda>ls. ls\<lparr>ls_orphanClients := removeAll c (ls_orphanClients ls)\<rparr>)
           (upd_host i (addClient c) w)) = (j, w')"
    using assms unfolding bindClient_def ls by (auto simp: and_then_eq_Inr deref_def split: option.splits)
  then show ?thesis by auto
qed

lemma setHost_cases:
  assumes "setHost c name w = Inr w'"
  obtains host s where "map_of (w_links w) c = Some (host, s)" and "w' = w"
  | host s j w1 w2 where "map_of (w_links w) c = Some (host, s)"
      and "w1 = (case host of None \<Rightarrow> w | Some i \<Rightarrow> upd_host i (removeClient c) w)"
      and "bindClient s c name w1 = Inr (j, w2)"
      and "w' = w2\<lparr>w_links := upd_assoc c (\<lambda>_. (Some j, s)) (w_links w2)\<rparr>"
proof -
  note two = that(2)
  obtain l where l: "map_of (w_links w) c = Some l"
    using assms by (cases "map_of (w_links w) c") (auto simp: setHost_def)
  obtain host s where hs: "l = (host, s)" by (cases l)
  have rebind: thesis
    if "and_then (bindClient s c name w1) (\<lambda>(i, w2).
          Inr (w2\<lparr>w_links := upd_assoc c (\<lambda>_. (Some i, s)) (w_links w2)\<rparr>)) = Inr w'"
      and w1: "w1 = (case host of None \<Rightarrow> w | Some i \<Rightarrow> upd_host i (removeClient c) w)" for w1
  proof -
    from that(1) obtain r where "bindClient s c name w1 = Inr r"
      and "(case r of (i, w2) \<Rightarrow>
          Inr (w2\<lparr>w_links := upd_assoc c (\<lambda>_. (Some i, s)) (w_links w2)\<rparr>)) = (Inr w' :: fault + world)"
      unfolding and_then_eq_Inr by blast
    with two [of host s w1 "fst r" "snd r"] l hs w1 show thesis by (cases r) simp
  qed
  show ?thesis
  proof (cases host)
    case None
    with assms l hs show ?thesis by (intro rebind [of w]) (simp_all add: setHost_def)
  next
    case (Some i)
    then obtain h where h: "host_at w i = Some h"
      using assms l hs by (cases "host_at w i") (auto simp: setHost_def)
    show ?thesis
    proof (cases "checkServerName h name")
      case True
      with assms l hs Some h have "w' = w" by (simp add: setHost_def)
      with l hs that(1) show ?thesis by blast
    next
      case False
      with assms l hs Some h show ?thesis
        by (intro rebind [of "upd_host i (removeClient c) w"]) (simp_all add: setHost_def)
    qed
  qed
qed

lemma setHost_ok:
  assumes "world_ok w" and "setHost c name w = Inr w'"
  shows "world_ok w'"
  using assms(2)
proof (cases rule: setHost_cases)
  case 1
  with assms(1) show ?thesis by simp
next
  case (2 host s j w1 w2)
  note D = world_okD [OF assms(1)]
  note w2 = bindClient_cases [OF 2(3), THEN conjunct2]
  have hosts: "host_at w' i = map_option (\<lambda>h. (if i = j then addClient c else id)
        ((if host = Some i then removeClient c else id) h)) (host_at w i)" for i
    by (cases "host_at w i") (auto simp: 2(2,4) w2 split: option.split)
  have servers: "server_at w' t = map_option (\<lambda>ls. if t = s
        then ls\<lparr>ls_orphanClients := removeAll c (ls_orphanClients ls)\<rparr> else ls) (server_at w t)" for t
    by (cases "server_at w t") (auto simp: 2(2,4) w2 split: option.split)
  have links: "map_of (w_links w') d = (if d = c then Some (Some j, s) else map_of (w_links w) d)" for d
    using 2(1) by (auto simp: 2(2,4) w2 split: option.split)
  have next': "w_next w' = w_next w" by (auto simp: 2(2,4) w2 split: option.split)
  show ?thesis
  proof (rule world_okI, unfold links next')
    show "\<exists>t. (if d = c then Some (Some j, s) else map_of (w_links w) d) = Some (Some i, t)"
      if "host_at w' i = Some h" "d \<in> set (ho_clients h)" for i h d
    proof -
      from that(1) obtain h0 where h0: "host_at w i = Some h0"
        and h: "h = (if i = j then addClient c else id) ((if host = Some i then removeClient c else id) h0)"
        by (auto simp: hosts)
      from that(2) have "d = c \<and> i = j \<or> d \<in> set (ho_clients h0) \<and> (host = Some i \<longrightarrow> d \<noteq> c)"
        by (auto simp: h split: if_splits)
      with D(1) [OF h0, of d] 2(1) show ?thesis by auto
    qed
    show "\<exists>ho. (if d = c then Some (Some j, s) else map_of (w_links w) d) = Some (ho, t)"
      if "server_at w' t = Some ls'" "d \<in> set (ls_connectedClients ls' @ ls_orphanClients ls')" for t ls' d
      using that D(2) [of t _ d] 2(1) by (auto simp: servers split: if_splits)
    show "d < w_next w" if "(if d = c then Some (Some j, s) else map_of (w_links w) d) \<noteq> None" for d
      using that D(3) [of d] 2(1) by (auto split: if_splits)
  qed
qed

text \<open>The life of clients: they connect, are bound to hosts, and leave.\<close>

inductive client_step :: "world \<Rightarrow> world \<Rightarrow> bool" where
  accept: "acceptConnection fd s w = Inr (r, w') \<Longrightarrow> client_step w w'"
| bind: "setHost c name w = Inr w' \<Longrightarrow> client_step w w'"
| leave: "drop_client c w = Inr w' \<Longrightarrow> client_step w w'"

inductive_cases client_stepE: "client_step w w'"

lemma client_step_ok: "client_step w w' \<Longrightarrow> world_ok w \<Longrightarrow> world_ok w'"
  by (erule client_stepE) (auto intro: accept_ok setHost_ok dest: drop_ok)

text \<open>
  C23. However clients connect, are bound to hosts and leave, a client on the list of a host
  is linked to that host, is on the list of no other, and its number has been given.
\<close>

theorem clients_listed_where_linked:
  assumes "client_step\<^sup>*\<^sup>* w w'" and "world_ok w"
    and "host_at w' i = Some h" and "host_at w' j = Some g"
    and "c \<in> set (ho_clients h)" and "c \<in> set (ho_clients g)"
  shows "i = j \<and> (\<exists>s. map_of (w_links w') c = Some (Some i, s)) \<and> c < w_next w'"
proof -
  from assms(1,2) have ok: "world_ok w'"
    by (induction rule: rtranclp_induct) (auto intro: client_step_ok)
  from world_okD(1) [OF this assms(3,5)] world_okD(1) [OF this assms(4,6)] show ?thesis
    using world_okD(3) [OF ok, of c] by auto
qed

definition busy_world :: world where
  "busy_world = demo_world\<lparr>
     w_servers := upd_assoc 0 (\<lambda>ls. ls\<lparr>ls_connectedClients := [7]\<rparr>) (w_servers demo_world),
     w_hosts := upd_assoc 1 (addClient 7) (w_hosts demo_world),
     w_links := [(7, Some 1, 0)], w_next := 8\<rparr>"

lemma busy_world_ok: "world_ok busy_world"
  by (rule world_okI) (auto simp: busy_world_def demo_world_def upd_assoc_def empty_world_def
      demo_host_def new_Host_def new_ListenServer_def addClient_def split: if_splits)

lemma busy_world_host:
  "host_at busy_world 1 = Some (addClient 7 (demo_host\<lparr>ho_listenServers := [0]\<rparr>))"
  by (simp add: busy_world_def demo_world_def upd_assoc_def)

theorem clients_listed_where_linked_witness:
  "\<exists>!i. map_option (\<lambda>h. 7 \<in> set (ho_clients h)) (host_at busy_world i) = Some True"
proof (rule ex1I [of _ 1])
  show "map_option (\<lambda>h. 7 \<in> set (ho_clients h)) (host_at busy_world 1) = Some True"
    by (simp add: busy_world_host addClient_def del: One_nat_def)
next
  fix i
  assume "map_option (\<lambda>h. 7 \<in> set (ho_clients h)) (host_at busy_world i) = Some True"
  then obtain h where "host_at busy_world i = Some h" "7 \<in> set (ho_clients h)" by auto
  then show "i = 1"
    using clients_listed_where_linked [OF rtranclp.rtrancl_refl busy_world_ok _ busy_world_host, of i h 7]
    by (simp add: addClient_def)
qed

text \<open>
  When a client leaves, no host and no server lists it any more.
\<close>

theorem drop_client_forgets:
  assumes "world_ok w" and "drop_client c w = Inr w'"
  shows "(host_at w' i = Some h \<longrightarrow> c \<notin> set (ho_clients h)) \<and>
    (server_at w' s = Some ls \<longrightarrow>
      c \<notin> set (ls_connectedClients ls) \<and> c \<notin> set (ls_orphanClients ls))"
proof -
  note ok = drop_ok [OF assms]
  show ?thesis
    using world_okD(1) [OF ok [THEN conjunct1], of i h c]
      world_okD(2) [OF ok [THEN conjunct1], of s ls c] ok [THEN conjunct2] by fastforce
qed

theorem drop_client_forgets_witness:
  "\<exists>w. drop_client 7 busy_world = Inr w \<and> host_at w 1 = Some (demo_host\<lparr>ho_listenServers := [0]\<rparr>) \<and>
     7 \<notin> set (ho_clients demo_host)"
proof -
  obtain w where w: "drop_client 7 busy_world = Inr w" "host_at w 1 = Some (demo_host\<lparr>ho_listenServers := [0]\<rparr>)"
    by (simp add: drop_client_def busy_world_def demo_world_def upd_assoc_def addClient_def
        removeClient_def demo_host_def new_Host_def)
  with drop_client_forgets [OF busy_world_ok w(1), of 1 "demo_host\<lparr>ho_listenServers := [0]\<rparr>"]
  show ?thesis by simp
qed

text \<open>Erasing names one by one.\<close>

lemma erase_fold:
  "map_ordered str_less m \<Longrightarrow>
   map_ordered str_less (fold (map_erase str_less) names m) \<and>
   map_find str_less k (fold (map_erase str_less) names m) =
     (if k \<in> set names then None else map_find str_less k m)"
proof (induction names arbitrary: m)
  case Nil
  then show ?case by simp
next
  case (Cons n names)
  have "map_ordered str_less (map_erase str_less n m)"
    using Cons.prems by (rule str_map.ordered_erase)
  from Cons.IH [OF this] Cons.prems show ?case
    by (auto simp: str_map.find_erase same_key_str)
qed

text \<open>
  A host without clients that is unregistered from its only server is deleted, its names
  become free on that server, and the names of the other hosts still lead where they did.
\<close>

theorem unregister_frees_names:
  assumes "host_at w i = Some h" and "findServer (ho_addr h) port w = Some s"
    and "server_at w s = Some ls" and "ls_ok ls"
    and "ho_server_names h = n # ns" and "findHost n ls = Some i"
    and "k \<notin> set (ho_server_names h)" and "findHost k ls = Some j"
    and "ho_clients h = []" and "ho_listenServers h = [s]"
  shows "\<exists>w' ls'. unregisterHost_port i port w = Inr w' \<and> host_at w' i = None \<and>
    server_at w' s = Some ls' \<and>
    (\<forall>x. findHost x ls' = (if x \<in> set (ho_server_names h) then None else findHost x ls))"
proof -
  let ?m = "fold (map_erase str_less) (ho_server_names h) (ls_hostMap ls)"
  have find: "map_find str_less x ?m = (if x \<in> set (ho_server_names h) then None else findHost x ls)" for x
    using erase_fold [of "ls_hostMap ls" "ho_server_names h" x] assms(4)
    by (simp add: ls_ok_def findHost_def)
  then have "?m \<noteq> []" using assms(7,8) by (metis map_find.simps(1) option.distinct(1))
  with assms find show ?thesis
    by (auto simp: unregisterHost_port_def unassignHost_def removeHost_def removeListenServer_def
        findHost_def simp del: fold_simps)
qed

theorem unregister_frees_names_witness:
  "\<exists>w' ls'. unregisterHost_port 1 ''8080'' (busy_world\<lparr>w_servers := [(0, (new_ListenServer ''localhost'' ''8080'')
       \<lparr>ls_hostMap := [(''a'', 1), (''b'', 2)]\<rparr>)],
     w_hosts := [(1, demo_host\<lparr>ho_server_names := [''a''], ho_listenServers := [0]\<rparr>), (2, demo_host)]\<rparr>) = Inr w' \<and>
     server_at w' 0 = Some ls' \<and> findHost ''a'' ls' = None \<and> findHost ''b'' ls' = Some 2"
proof -
  let ?h = "demo_host\<lparr>ho_server_names := [''a''], ho_listenServers := [0]\<rparr>"
  let ?ls = "(new_ListenServer ''localhost'' ''8080'')\<lparr>ls_hostMap := [(''a'', 1), (''b'', 2)]\<rparr>"
  let ?w = "busy_world\<lparr>w_servers := [(0, ?ls)], w_hosts := [(1, ?h), (2, demo_host)]\<rparr>"
  have "findServer (ho_addr ?h) ''8080'' ?w = Some 0" "findHost ''a'' ?ls = Some 1"
    "findHost ''b'' ?ls = Some 2" "ho_clients ?h = []" by code_simp+
  moreover have "ls_ok ?ls" by (simp add: ls_ok_def map_ordered_def) code_simp
  ultimately show ?thesis
    using unregister_frees_names [of ?w 1 ?h "''8080''" 0 ?ls "''a''" "[]" "''b''" 2] by auto
qed

text \<open>
  Removing, from the console, a host that has a client: the client has been taken off the
  server's list before the server closes its clients, so it is still on the host's list
  when the host is shut down, whose loop erases the list node it stands on.
\<close>

lemma kill_host_with_client_undefined:
  "unregisterHost_port 1 ''8080'' busy_world = Inl BadAccess"
  by code_simp

end
