(* ===== verification/Client.thy ===== *)
theory Client
  imports Body Cgi Listen
begin

text \<open>
  A connected client (includes/Client.hpp, srcs/Client.cpp): its request and response in
  progress, its input and output buffers, the file its request body goes to, its CGI
  process, and how it is reset and closed.

  A session is a client with the world of hosts and servers it lives in, the configured
  directory of default error pages, and the log of the system calls made on its behalf, in
  order. The client's own pointers to its host and server are the \<open>w_links\<close> of the world.
\<close>

section \<open>State\<close>

datatype header_progress = HEADER_STATUS_ONGOING | HEADER_STATUS_READY | HEADER_STATUS_DONE

datatype body_progress = BODY_STATUS_NONE | BODY_STATUS_ONGOING | BODY_STATUS_DONE

datatype client_mode = CLIENT_MODE_READ | CLIENT_MODE_WRITE | CLIENT_MODE_ERROR

record Client =
  cl_id :: nat
  cl_fd :: int
  cl_addressStr :: string
  cl_port :: int
  cl_request :: "Request option"
  cl_response :: "AResponse option"
  cl_headerStatus :: header_progress
  cl_bodyStatus :: body_progress
  cl_mode :: client_mode
  cl_buffer :: string
  cl_bodyFileName :: string
  cl_bodyStream :: "ofstream option"
  cl_outBuffers :: "string list"
  cl_cgiProcess :: "CGIProcess option"

definition new_Client :: "nat \<Rightarrow> int \<Rightarrow> Client" where
  "new_Client c fd =
     \<lparr> cl_id = c, cl_fd = fd, cl_addressStr = [], cl_port = 0, cl_request = None,
       cl_response = None, cl_headerStatus = HEADER_STATUS_ONGOING,
       cl_bodyStatus = BODY_STATUS_NONE, cl_mode = CLIENT_MODE_READ, cl_buffer = [],
       cl_bodyFileName = [], cl_bodyStream = None, cl_outBuffers = [], cl_cgiProcess = None \<rparr>"

datatype syscall =
    Unlink string
  | Truncate string
  | Kill int
  | EpollDel int
  | Close int
  | Send int string

record session =
  s_client :: Client
  s_world :: world
  s_error_pages :: string
  s_log :: "syscall list"
  s_alive :: bool

definition new_session :: "Client \<Rightarrow> world \<Rightarrow> string \<Rightarrow> session" where
  "new_session c w pages =
     \<lparr> s_client = c, s_world = w, s_error_pages = pages, s_log = [], s_alive = True \<rparr>"

abbreviation upd_client :: "(Client \<Rightarrow> Client) \<Rightarrow> session \<Rightarrow> session" where
  "upd_client f s \<equiv> s\<lparr>s_client := f (s_client s)\<rparr>"

abbreviation set_request :: "Request \<Rightarrow> session \<Rightarrow> session" where
  "set_request rq s \<equiv> upd_client (\<lambda>c. c\<lparr>cl_request := Some rq\<rparr>) s"

definition syscall :: "syscall \<Rightarrow> session \<Rightarrow> session" where
  "syscall call s = s\<lparr>s_log := s_log s @ [call]\<rparr>"

lemma syscall_simps [simp]:
  "s_client (syscall x s) = s_client s" "s_world (syscall x s) = s_world s"
  "s_log (syscall x s) = s_log s @ [x]" "s_alive (syscall x s) = s_alive s"
  "s_error_pages (syscall x s) = s_error_pages s"
  by (simp_all add: syscall_def)

section \<open>Operations\<close>

text \<open>\<open>getRequest\<close> allocates a request when there is none.\<close>

definition getRequest :: "session \<Rightarrow> Request" where
  "getRequest s = (case cl_request (s_client s) of None \<Rightarrow> new_Request | Some rq \<Rightarrow> rq)"

definition setMode :: "client_mode \<Rightarrow> session \<Rightarrow> session" where
  "setMode m s = upd_client (\<lambda>c. c\<lparr>cl_mode := m\<rparr>) s"

definition setHeaderStatus :: "header_progress \<Rightarrow> session \<Rightarrow> session" where
  "setHeaderStatus st s = upd_client (\<lambda>c. c\<lparr>cl_headerStatus := st\<rparr>) s"

definition setBodyStatus :: "body_progress \<Rightarrow> session \<Rightarrow> session" where
  "setBodyStatus st s = upd_client (\<lambda>c. c\<lparr>cl_bodyStatus := st\<rparr>) s"

definition setResponse :: "AResponse option \<Rightarrow> session \<Rightarrow> session" where
  "setResponse r s = upd_client (\<lambda>c. c\<lparr>cl_response := r\<rparr>) s"

text \<open>\<open>setBodyFile\<close>: opening the stream truncates the file; it may fail.\<close>

definition setBodyFile :: "system \<Rightarrow> string \<Rightarrow> session \<Rightarrow> fault + session" where
  "setBodyFile sys path s =
     and_then (deref (cl_request (s_client s))) (\<lambda>rq.
       (let s1 = set_request (upd_hints (\<lambda>h. h\<lparr>h_bodyFileName := path\<rparr>) rq) s in
        if path \<noteq> [] then
          Inr (syscall (Truncate (c_str path))
            (upd_client (\<lambda>c. c\<lparr>cl_bodyFileName := path,
               cl_bodyStream := Some \<lparr>os_open = sys_create sys (c_str path), os_data = []\<rparr>\<rparr>) s1))
        else Inr (upd_client (\<lambda>c. c\<lparr>cl_bodyFileName := [], cl_bodyStream := None\<rparr>) s1)))"

text \<open>\<open>parseRequest\<close>: what was received is appended to the client's buffer first.\<close>

definition parseRequest :: "string \<Rightarrow> session \<Rightarrow> fault + int \<times> session" where
  "parseRequest bufferIn s =
     (let rq = getRequest s;
          c = s_client s;
          buffer = cl_buffer c @ bufferIn
      in if cl_headerStatus c = HEADER_STATUS_ONGOING then
           and_then (parseHeaders rq buffer) (\<lambda>(res, rq1, buffer1).
             (let s1 = upd_client (\<lambda>c. c\<lparr>cl_request := Some rq1, cl_buffer := buffer1\<rparr>) s in
              Inr (res, if res < 0 then setHeaderStatus HEADER_STATUS_READY s1 else s1)))
         else if cl_headerStatus c = HEADER_STATUS_DONE \<and> cl_bodyStatus c = BODY_STATUS_ONGOING then
           (case parseInput (rq, cl_bodyStream c) buffer of (res, (rq1, fs1), buffer1) \<Rightarrow>
              (let s1 = upd_client (\<lambda>c. c\<lparr>cl_request := Some rq1, cl_buffer := buffer1,
                                        cl_bodyStream := fs1\<rparr>) s
               in Inr (res, if res < 0 then setBodyStatus BODY_STATUS_DONE s1 else s1)))
         else Inr (0, upd_client (\<lambda>c. c\<lparr>cl_request := Some rq, cl_buffer := buffer\<rparr>) s))"

text \<open>
  \<open>deleteBodyStream\<close>: the file is removed when it was temporary or when the request
  failed.
\<close>

definition deleteBodyStream :: "session \<Rightarrow> session" where
  "deleteBodyStream s =
     (if cl_bodyStream (s_client s) = None then s
      else
        (let s1 = upd_client (\<lambda>c. c\<lparr>cl_bodyStream := None\<rparr>) s in
         case cl_request (s_client s) of
           None \<Rightarrow> s1
         | Some rq \<Rightarrow>
             if h_unlink (r_hints rq) \<or> 300 \<le> h_status (r_hints rq)
             then syscall (Unlink (c_str (cl_bodyFileName (s_client s)))) s1
             else s1))"

text \<open>The destructor of the CGI process removes the file of the script's output.\<close>

definition deleteCGIProcess :: "session \<Rightarrow> fault + session" where
  "deleteCGIProcess s =
     (if cl_cgiProcess (s_client s) = None then Inr s
      else
        and_then (deref (cl_request (s_client s))) (\<lambda>rq.
          Inr (syscall (Unlink (c_str (h_path (r_hints rq))))
                 (upd_client (\<lambda>c. c\<lparr>cl_cgiProcess := None\<rparr>) s))))"

definition clearResponse :: "session \<Rightarrow> session" where
  "clearResponse s = setResponse None s"

definition clear :: "session \<Rightarrow> fault + session" where
  "clear s =
     and_then (deleteCGIProcess (deleteBodyStream s)) (\<lambda>s1.
       Inr (upd_client (\<lambda>c. c\<lparr>cl_request := None, cl_response := None, cl_bodyFileName := [],
                             cl_bodyStatus := BODY_STATUS_NONE,
                             cl_headerStatus := HEADER_STATUS_ONGOING\<rparr>) s1))"

definition terminate :: "session \<Rightarrow> fault + session" where
  "terminate s =
     (let c = s_client s;
          s1 = (case cl_cgiProcess c of
                  None \<Rightarrow> s
                | Some cg \<Rightarrow> if 0 < cg_pid cg then syscall (Kill (cg_pid cg)) s else s)
      in and_then (clear (syscall (EpollDel (cl_fd c)) s1)) (\<lambda>s2.
         and_then (drop_client (cl_id c) (s_world s2)) (\<lambda>w.
           Inr ((syscall (Close (cl_fd c)) s2)\<lparr>s_world := w, s_alive := False\<rparr>))))"

text \<open>The status of the request, and the buffers taken out of and put back into the client.\<close>

definition getRequestStatus :: "session \<Rightarrow> int" where
  "getRequestStatus s =
     (case cl_request (s_client s) of Some rq \<Rightarrow> int (final_rank (r_final_status rq)) | None \<Rightarrow> -1)"

definition stashBuffer :: "string \<Rightarrow> session \<Rightarrow> session" where
  "stashBuffer str s = upd_client (\<lambda>c. c\<lparr>cl_buffer := cl_buffer c @ str\<rparr>) s"

definition clearBuffer :: "session \<Rightarrow> session" where
  "clearBuffer s = upd_client (\<lambda>c. c\<lparr>cl_buffer := []\<rparr>) s"

definition retrieveBuffer :: "string \<Rightarrow> session \<Rightarrow> string \<times> session" where
  "retrieveBuffer str s = (str @ cl_buffer (s_client s), clearBuffer s)"

definition clearBuffers :: "session \<Rightarrow> session" where
  "clearBuffers s = upd_client (\<lambda>c. c\<lparr>cl_outBuffers := []\<rparr>) s"

lemma retrieve_stashed:
  "retrieveBuffer str (stashBuffer buffer (clearBuffer s)) = (str @ buffer, clearBuffer s)"
  by (simp add: retrieveBuffer_def stashBuffer_def clearBuffer_def)

section \<open>Properties\<close>

text \<open>A CGI process belongs to the client's request.\<close>

definition cgi_has_request :: "session \<Rightarrow> bool" where
  "cgi_has_request s \<longleftrightarrow> (cl_cgiProcess (s_client s) \<noteq> None \<longrightarrow> cl_request (s_client s) \<noteq> None)"

lemma deleteBodyStream_keeps:
  "cl_request (s_client (deleteBodyStream s)) = cl_request (s_client s)"
  "cl_cgiProcess (s_client (deleteBodyStream s)) = cl_cgiProcess (s_client s)"
  "cl_bodyStream (s_client (deleteBodyStream s)) = None"
  "cl_buffer (s_client (deleteBodyStream s)) = cl_buffer (s_client s)"
  "cl_outBuffers (s_client (deleteBodyStream s)) = cl_outBuffers (s_client s)"
  "cl_mode (s_client (deleteBodyStream s)) = cl_mode (s_client s)"
  "cl_id (s_client (deleteBodyStream s)) = cl_id (s_client s)"
  "s_world (deleteBodyStream s) = s_world s" "s_alive (deleteBodyStream s) = s_alive s"
  by (auto simp: deleteBodyStream_def Let_def split: option.split)

text \<open>The files removed when a client is reset: its body file and its script's output.\<close>

definition unlinked_by_clear :: "session \<Rightarrow> syscall list" where
  "unlinked_by_clear s =
     (let c = s_client s in
      case cl_request c of
        None \<Rightarrow> []
      | Some rq \<Rightarrow>
          (if cl_bodyStream c \<noteq> None \<and> (h_unlink (r_hints rq) \<or> 300 \<le> h_status (r_hints rq))
           then [Unlink (c_str (cl_bodyFileName c))] else []) @
          (if cl_cgiProcess c \<noteq> None then [Unlink (c_str (h_path (r_hints rq)))] else []))"

lemma clear_result:
  assumes "cgi_has_request s"
  shows "\<exists>s'. clear s = Inr s' \<and> cl_request (s_client s') = None \<and> cl_response (s_client s') = None \<and>
    cl_cgiProcess (s_client s') = None \<and> cl_bodyStream (s_client s') = None \<and>
    cl_headerStatus (s_client s') = HEADER_STATUS_ONGOING \<and>
    cl_bodyStatus (s_client s') = BODY_STATUS_NONE \<and>
    cl_buffer (s_client s') = cl_buffer (s_client s) \<and>
    cl_mode (s_client s') = cl_mode (s_client s) \<and> cl_id (s_client s') = cl_id (s_client s) \<and>
    s_world s' = s_world s \<and> s_alive s' = s_alive s \<and>
    s_log s' = s_log s @ unlinked_by_clear s"
  using assms
  by (cases "cl_request (s_client s)"; cases "cl_cgiProcess (s_client s)")
    (auto simp: clear_def cgi_has_request_def deleteCGIProcess_def deleteBodyStream_def Let_def
      unlinked_by_clear_def)

text \<open>
  Resetting a client for its next request forgets the request, the response, the CGI
  process and the body stream, keeps the bytes already received, and removes exactly the
  temporary or failed body file and the script's output.
\<close>

theorem clear_resets:
  assumes "cgi_has_request s"
  shows "\<exists>s'. clear s = Inr s' \<and> cl_request (s_client s') = None \<and> cl_response (s_client s') = None \<and>
    cl_cgiProcess (s_client s') = None \<and> cl_bodyStream (s_client s') = None \<and>
    cl_headerStatus (s_client s') = HEADER_STATUS_ONGOING \<and>
    cl_bodyStatus (s_client s') = BODY_STATUS_NONE \<and>
    cl_buffer (s_client s') = cl_buffer (s_client s) \<and>
    s_log s' = s_log s @ unlinked_by_clear s"
  using clear_result [OF assms] by blast

definition demo_session :: session where
  "demo_session = new_session (new_Client 7 5) busy_world ''./err/''"

lemma demo_linked: "linked (cl_id (s_client demo_session)) (s_world demo_session)"
  by (simp add: demo_session_def new_session_def new_Client_def linked_def busy_world_def demo_world_def upd_assoc_def)

theorem clear_resets_witness:
  "\<exists>s'. clear (upd_client (\<lambda>c. c\<lparr>cl_request := Some (set_status 404 new_Request), cl_bodyFileName := ''up/x'',
       cl_bodyStream := Some \<lparr>os_open = True, os_data = ''ab''\<rparr>\<rparr>) demo_session) = Inr s' \<and>
     s_log s' = [Unlink ''up/x'']"
  using clear_resets [of "upd_client (\<lambda>c. c\<lparr>cl_request := Some (set_status 404 new_Request),
       cl_bodyFileName := ''up/x'', cl_bodyStream := Some \<lparr>os_open = True, os_data = ''ab''\<rparr>\<rparr>) demo_session"]
  by (auto simp: cgi_has_request_def unlinked_by_clear_def demo_session_def new_session_def
      new_Client_def new_Request_def new_ResHints_def c_str_def NUL_def)

lemma terminate_result:
  assumes "cgi_has_request s" and "linked (cl_id (s_client s)) (s_world s)"
  shows "\<exists>s'. terminate s = Inr s' \<and> \<not> s_alive s' \<and>
    drop_client (cl_id (s_client s)) (s_world s) = Inr (s_world s') \<and>
    s_log s' = s_log s @
      (case cl_cgiProcess (s_client s) of
         Some cg \<Rightarrow> if 0 < cg_pid cg then [Kill (cg_pid cg)] else []
       | None \<Rightarrow> []) @
      [EpollDel (cl_fd (s_client s))] @ unlinked_by_clear s @ [Close (cl_fd (s_client s))]"
proof -
  let ?s1 = "case cl_cgiProcess (s_client s) of
                  None \<Rightarrow> s
                | Some cg \<Rightarrow> if 0 < cg_pid cg then syscall (Kill (cg_pid cg)) s else s"
  let ?s2 = "syscall (EpollDel (cl_fd (s_client s))) ?s1"
  have s2: "s_client ?s2 = s_client s" "s_world ?s2 = s_world s"
    "s_log ?s2 = s_log s @ (case cl_cgiProcess (s_client s) of
         Some cg \<Rightarrow> if 0 < cg_pid cg then [Kill (cg_pid cg)] else []
       | None \<Rightarrow> []) @ [EpollDel (cl_fd (s_client s))]"
    by (auto split: option.split)
  have u: "unlinked_by_clear ?s2 = unlinked_by_clear s"
    using s2(1) by (simp add: unlinked_by_clear_def)
  from assms(2) obtain w where w: "drop_client (cl_id (s_client s)) (s_world s) = Inr w"
    unfolding drop_linked by blast
  have "cgi_has_request ?s2" using assms(1) s2(1) by (simp add: cgi_has_request_def)
  from clear_result [OF this] obtain s3 where
    "clear ?s2 = Inr s3" "s_world s3 = s_world s"
    "s_log s3 = s_log ?s2 @ unlinked_by_clear s"
    unfolding u s2(2) by blast
  then show ?thesis
    using w by (simp add: terminate_def Let_def s2(3) del: syscall_simps(3)) (simp add: syscall_def)
qed

text \<open>
  Closing a client closes its descriptor after removing it from the event loop, kills
  the script it was waiting for, and takes it off every list of hosts and servers, if the
  host and the server it points to are still there.
\<close>

theorem terminate_closes:
  assumes "cgi_has_request s" and "linked (cl_id (s_client s)) (s_world s)"
  shows "\<exists>s'. terminate s = Inr s' \<and> \<not> s_alive s' \<and>
    drop_client (cl_id (s_client s)) (s_world s) = Inr (s_world s') \<and>
    s_log s' = s_log s @
      (case cl_cgiProcess (s_client s) of
         Some cg \<Rightarrow> if 0 < cg_pid cg then [Kill (cg_pid cg)] else []
       | None \<Rightarrow> []) @
      [EpollDel (cl_fd (s_client s))] @ unlinked_by_clear s @ [Close (cl_fd (s_client s))]"
  using assms by (rule terminate_result)

theorem terminate_closes_witness:
  "\<exists>s'. terminate demo_session = Inr s' \<and> s_log s' = [EpollDel 5, Close 5] \<and> \<not> s_alive s'"
  using terminate_closes [OF _ demo_linked]
  by (auto simp: cgi_has_request_def unlinked_by_clear_def demo_session_def new_session_def new_Client_def)

end
