(* ===== verification/Control.thy ===== *)
theory Control
  imports Client
begin

text \<open>
  The controller of srcs/IControl.cpp: what an event on a client's socket does. Requests
  are read and checked (\<open>handleClientIn\<close>, \<open>handleRequestHeaders\<close>), bodies are directed
  to their file (\<open>defineBodyParsing\<close>), responses are generated (\<open>generateResponse\<close>) and
  sent piece by piece (\<open>handleClientOut\<close>), scripts are started and waited for
  (\<open>handleCGIProcess\<close>).

  Results of system calls are an argument, \<open>inputs\<close>. A fault is an exception that reaches
  \<open>main\<close>, or undefined behaviour.
\<close>

record inputs =
  in_hup :: bool
  in_in :: bool
  in_out :: bool
  in_read :: "string option"
  in_write :: int
  in_wait :: "bool option"
  in_elapsed :: int
  in_fork :: int

section \<open>Checks on the headers\<close>

text \<open>
  The host a client points to, if any. A pointer to a host that is gone is a fault, although
  the code only copies it here.
\<close>

definition getHost :: "session \<Rightarrow> fault + Host option" where
  "getHost s =
     and_then (deref (map_of (w_links (s_world s)) (cl_id (s_client s)))) (\<lambda>(host, srv).
       case host of
         None \<Rightarrow> Inr None
       | Some i \<Rightarrow> and_then (deref (host_at (s_world s) i)) (\<lambda>h. Inr (Some h)))"

definition set_verbose :: "string \<Rightarrow> Request \<Rightarrow> Request" where
  "set_verbose v rq = upd_hints (\<lambda>h. h\<lparr>h_verboseError := v\<rparr>) rq"

definition checkForbiddenHeaders :: "Request \<Rightarrow> int \<times> Request" where
  "checkForbiddenHeaders rq =
     (if getHeader rq ''accept-ranges'' \<noteq> [] then
        (RES_NOT_IMPLEMENTED,
         set_status RES_NOT_IMPLEMENTED (set_verbose ''accept-range header not implemented'' rq))
      else if checkHeader rq ''content-encoding'' \<and> getHeader rq ''content-encoding'' \<noteq> ''identity'' then
        (RES_UNSUPPORTED_MEDIA_TYPE, set_status RES_UNSUPPORTED_MEDIA_TYPE rq)
      else if checkHeader rq ''transfer-encoding'' \<and> getHeader rq ''transfer-encoding'' \<noteq> ''chunked'' then
        (RES_NOT_IMPLEMENTED,
         set_status RES_NOT_IMPLEMENTED
           (set_verbose ''chunked is the only value supported for transfer-encoding'' rq))
      else (0, rq))"

definition assignHost :: "session \<Rightarrow> fault + int \<times> session" where
  "assignHost s =
     (let rq = getRequest s in
      if \<not> checkHeader rq ''host'' then
        Inr (RES_BAD_REQUEST,
             set_request (set_status RES_BAD_REQUEST
               (set_verbose ''request must include an host header'' rq)) s)
      else
        and_then (setHost (cl_id (s_client s)) (getHeader rq ''host'') (s_world s)) (\<lambda>w.
          Inr (0, s\<lparr>s_world := w\<rparr>)))"

text \<open>The result of \<open>getInt\<close> is not checked: a value it rejects counts as -1 or as stored.\<close>

definition checkBodyLength :: "session \<Rightarrow> fault + int \<times> session" where
  "checkBodyLength s =
     (let rq = getRequest s;
          has = checkHeader rq ''content-length'';
          bodyLength = (if has then snd (getInt (getHeader rq ''content-length'') 10 (-1)) else -1);
          chunked = (getHeader rq ''transfer-encoding'' = ''chunked'')
      in and_then (getHost s) (\<lambda>host.
           (let rq1 = (if has \<and> 0 < bodyLength then rq\<lparr>r_content_length := bodyLength\<rparr> else rq) in
         and_then (if has \<or> 0 < bodyLength \<or> chunked then
                     and_then (deref host) (\<lambda>h. Inr (ho_body_max_size h)) else Inr 0) (\<lambda>max.
           Inr (if has \<and> max < bodyLength then
                  (RES_REQUEST_ENTITY_TOO_LARGE,
                   set_request (set_status RES_REQUEST_ENTITY_TOO_LARGE rq) s)
                else if 0 < bodyLength \<or> chunked then
                  (0, setBodyStatus BODY_STATUS_ONGOING
                        (set_request (rq1\<lparr>r_chunked := chunked \<or> r_chunked rq1,
                                          r_body_max_size := max\<rparr>) s))
                else (0, set_request rq1 s))))))"

definition checkContinue :: "session \<Rightarrow> int \<times> session" where
  "checkContinue s =
     (let rq = getRequest s in
      if getHeader rq ''expect'' = ''100-continue'' then
        (if cl_bodyStatus (s_client s) = BODY_STATUS_NONE then
           (RES_BAD_REQUEST,
            set_request (removeHeader ''expect''
              (set_verbose ''Expect continue without entity'' (set_status RES_BAD_REQUEST rq))) s)
         else (RES_CONTINUE, s))
      else if getHeader rq ''expect'' \<noteq> [] then
        (RES_EXPECTATION_FAILED,
         set_request (removeHeader ''expect'' (set_status RES_EXPECTATION_FAILED rq)) s)
      else (0, s))"

section \<open>Where the body goes\<close>

datatype fileSituation = FILE_DONT_EXIT | FILE_EXIST | FILE_IS_NOT_REG

definition checkFileExist :: "system \<Rightarrow> string \<Rightarrow> fileSituation" where
  "checkFileExist sys path =
     (case stat_kind sys path of
        None \<Rightarrow> FILE_DONT_EXIT
      | Some Regular \<Rightarrow> FILE_EXIST
      | Some _ \<Rightarrow> FILE_IS_NOT_REG)"

definition forward_content_type :: "session \<Rightarrow> session" where
  "forward_content_type s =
     (let rq = getRequest s in
      if checkHeader rq ''content-type''
      then set_request (set_hint_header ''content-type'' (getHeader rq ''content-type'') rq) s
      else s)"

definition set_unlink :: "bool \<Rightarrow> session \<Rightarrow> session" where
  "set_unlink b s = set_request (upd_hints (\<lambda>h. h\<lparr>h_unlink := b\<rparr>) (getRequest s)) s"

definition upload_path :: "Location \<Rightarrow> Request \<Rightarrow> string" where
  "upload_path l rq =
     (if l_upload_root l \<noteq> [] then l_upload_root l else l_root l) @ u_path (puri rq)"

definition start_upload :: "system \<Rightarrow> string \<Rightarrow> bool \<Rightarrow> int \<Rightarrow> session \<Rightarrow> fault + int \<times> session" where
  "start_upload sys path exists st s =
     and_then (setBodyFile sys path
         (set_request (upd_hints (\<lambda>h. h\<lparr>h_alreadyExist := exists, h_status := st, h_path := path\<rparr>)
            (getRequest s)) s)) (\<lambda>s1.
       Inr (0, forward_content_type (set_unlink False s1)))"

definition defineBodyParsing :: "system \<Rightarrow> session \<Rightarrow> fault + int \<times> session" where
  "defineBodyParsing sys s =
     (let rq = getRequest s in
      if r_type rq = REQ_TYPE_CGI then
        and_then
          (if cl_bodyStatus (s_client s) \<noteq> BODY_STATUS_NONE then
             and_then (getHost s) (\<lambda>host. and_then (deref host) (\<lambda>h.
               case ho_server_names h of
                 [] \<Rightarrow> Inl BadAccess
               | n # _ \<Rightarrow> setBodyFile sys (generate_name (sys_now sys) (Some n)) s))
           else setBodyFile sys [] s) (\<lambda>s1.
          Inr (0, forward_content_type (set_unlink True s1)))
      else if r_type rq = REQ_TYPE_STATIC \<and> (r_method rq = Some POST \<or> r_method rq = Some PUT) then
        and_then (deref (locationRules rq)) (\<lambda>l.
          (let path = upload_path l rq;
               forbidden = Inr (RES_FORBIDDEN, set_request (set_status RES_FORBIDDEN rq) s)
           in case checkFileExist sys path of
                FILE_DONT_EXIT \<Rightarrow> start_upload sys path False RES_CREATED s
              | FILE_EXIST \<Rightarrow>
                  if \<not> sys_access sys (c_str path) W_OK then forbidden
                  else start_upload sys path True RES_OK s
              | FILE_IS_NOT_REG \<Rightarrow> forbidden))
      else
        and_then (setBodyFile sys [] s) (\<lambda>s1. Inr (0, forward_content_type s1)))"

section \<open>Responses\<close>

definition fillErrorPage :: "string \<Rightarrow> Host option \<Rightarrow> ResHints \<Rightarrow> ResHints" where
  "fillErrorPage pages host h =
     (if (400 < h_status h \<and> h_status h < 418) \<or> h_status h = 505 then
        add_hint_header ''content-type'' ''text/html''
          (h\<lparr>h_path := (case host of Some ho \<Rightarrow> ho_dir_errors ho | None \<Rightarrow> pages) @
                        IntToString (h_status h) 10 @ ''.html'',
             h_unlink := False\<rparr>)
      else h)"

definition fillAdditionnalHeaders :: "Request \<Rightarrow> Request" where
  "fillAdditionnalHeaders rq =
     (if 200 \<le> h_status (r_hints rq) \<and> h_status (r_hints rq) < 300 then
        (if checkHeader rq ''connection''
         then set_hint_header ''connection'' (getHeader rq ''connection'') rq
         else set_hint_header ''connection'' ''keep-alive'' rq)
      else set_hint_header ''connection'' ''close'' rq)"

text \<open>The methods both rule sets allow, separated by commas; a missing set allows all.\<close>

definition allows_list :: "int \<Rightarrow> int \<Rightarrow> string" where
  "allows_list locMethod cgiMethod =
     fold (\<lambda>m acc. if method_allowed locMethod m \<and> method_allowed cgiMethod m
                   then acc @ (if acc \<noteq> [] then '','' else []) @ METHOD_STR m else acc)
       all_methods []"

definition fillVerboseError :: "Request \<Rightarrow> Request" where
  "fillVerboseError rq =
     (let st = h_status (r_hints rq) in
      if st = RES_METHOD_NOT_ALLOWED then
        set_hint_header ''Allow''
          (allows_list (case locationRules rq of Some l \<Rightarrow> l_methods l | None \<Rightarrow> 2147483647)
                       (case cgiRules rq of Some c \<Rightarrow> c_methods c | None \<Rightarrow> 2147483647)) rq
      else if st = RES_INTERNAL_ERROR then
        upd_hints (\<lambda>h. h\<lparr>h_unlink := False, h_path := [], h_verboseError := ''Internal error''\<rparr>) rq
      else if st = RES_SERVICE_UNAVAILABLE then
        upd_hints (\<lambda>h. h\<lparr>h_unlink := False, h_path := [],
                         h_verboseError := ''Service temporarly unavailable.''\<rparr>) rq
      else if st = RES_BAD_REQUEST then
        upd_hints (\<lambda>h. h\<lparr>h_path := [], h_unlink := False\<rparr>) rq
      else rq)"

definition fillResponse :: "string \<Rightarrow> Host option \<Rightarrow> Request \<Rightarrow> Request" where
  "fillResponse pages host rq =
     (let rq1 = fillVerboseError (fillAdditionnalHeaders (upd_hints (fillErrorPage pages host) rq)) in
      upd_hints (\<lambda>h. h\<lparr>h_type := r_type rq1, h_extension := u_extension (h_parsedUri h),
                       h_method := r_method rq1\<rparr>) rq1)"

definition generateContinueResponse :: "session \<Rightarrow> session" where
  "generateContinueResponse s =
     (let resp = newSingleLineResponse 100 ''100-continue'' in
      setMode CLIENT_MODE_WRITE
        (upd_client (\<lambda>c. c\<lparr>cl_response := Some resp,
             cl_outBuffers := writeResponse (r_hints (getRequest s)) resp (cl_outBuffers c)\<rparr>) s))"

text \<open>The exceptions \<open>catch(const std::exception&)\<close> catches.\<close>

definition is_exception :: "fault \<Rightarrow> bool" where
  "is_exception e = (e = OutOfRange \<or> e = LogicError \<or> e = OtherException)"

text \<open>
  One pass of \<open>generateResponse\<close>; \<open>False\<close> when the response could not be generated. What
  \<open>genResponse\<close> changed before it threw is overwritten by the next pass.
\<close>

definition attempt :: "system \<Rightarrow> int \<Rightarrow> session \<Rightarrow> fault + bool \<times> session" where
  "attempt sys status s =
     (let rq = getRequest s;
          rq1 = (if status \<noteq> 0 then set_status status rq else rq)
      in and_then (getHost s) (\<lambda>host.
           (let rq2 = fillResponse (s_error_pages s) host rq1 in
            case genResponse sys (r_hints rq2) of
              Inr (resp, hints) \<Rightarrow>
                Inr (True, setMode CLIENT_MODE_WRITE
                  (upd_client (\<lambda>c. c\<lparr>cl_request := Some (rq2\<lparr>r_hints := hints\<rparr>),
                       cl_outBuffers := writeResponse hints resp (cl_outBuffers c),
                       cl_response := Some resp\<rparr>) s))
            | Inl e \<Rightarrow>
                if is_exception e then Inr (False, clearResponse (set_request rq2 s)) else Inl e)))"

text \<open>
  \<open>generateResponse\<close>. The recursive call of the handler is for status 500, which is then
  the status of the request, so it does not recur again.
\<close>

definition generateResponse :: "system \<Rightarrow> int \<Rightarrow> session \<Rightarrow> fault + int \<times> session" where
  "generateResponse sys status s =
     (let s0 = set_request (getRequest s) s in
      if cl_response (s_client s0) \<noteq> None then Inr (0, s0)
      else
        and_then (attempt sys status s0) (\<lambda>(ok, s1).
          if ok then Inr (0, s1)
          else if h_status (r_hints (getRequest s1)) = RES_INTERNAL_ERROR then Inr (-1, s1)
          else
            and_then (attempt sys RES_INTERNAL_ERROR s1) (\<lambda>(ok2, s2).
              Inr (if ok2 then 0 else -1, s2))))"

text \<open>\<open>generateCGIProcess\<close>\<close>

definition generateCGIProcess :: "system \<Rightarrow> inputs \<Rightarrow> session \<Rightarrow> fault + int \<times> session" where
  "generateCGIProcess sys inp s =
     (case execCGI sys (in_fork inp) new_CGIProcess (getRequest s) of (res, cg, rq) \<Rightarrow>
        (let s1 = upd_client (\<lambda>c. c\<lparr>cl_request := Some rq, cl_cgiProcess := Some cg\<rparr>) s in
         if res \<noteq> 0 then
           and_then (deleteCGIProcess s1) (\<lambda>s2. Inr (RES_INTERNAL_ERROR, s2))
         else Inr (0, setMode CLIENT_MODE_WRITE s1)))"

section \<open>Handling a request\<close>

text \<open>\<open>handleRequestHeaders\<close>: the checks in order, each returning early on an error.\<close>

definition pass :: "int \<times> session \<Rightarrow> (session \<Rightarrow> fault + int \<times> session) \<Rightarrow> fault + int \<times> session" where
  "pass r f = (if fst r \<noteq> 0 then Inr r else f (snd r))"

definition on_request :: "(Request \<Rightarrow> fault + int \<times> Request) \<Rightarrow> session \<Rightarrow> fault + int \<times> session" where
  "on_request f s =
     and_then (f (getRequest s)) (\<lambda>(res, rq). Inr (res, set_request rq s))"

definition finish_headers :: "system \<Rightarrow> session \<Rightarrow> fault + int \<times> session" where
  "finish_headers sys s =
     (case checkContinue s of (res, s1) \<Rightarrow>
        if res \<noteq> 0 \<and> res \<noteq> RES_CONTINUE then Inr (res, s1)
        else
          and_then (if h_cgiRedir (r_hints (getRequest s1)) = CGI_RES_NONE
                    then defineBodyParsing sys s1 else Inr (0, s1)) (\<lambda>(_, s2).
            (let s3 = setHeaderStatus HEADER_STATUS_DONE s2 in
             Inr (if res = RES_CONTINUE then (0, generateContinueResponse s3) else (res, s3)))))"

definition check_host_request :: "system \<Rightarrow> session \<Rightarrow> fault + int \<times> session" where
  "check_host_request sys s =
     and_then (getHost s) (\<lambda>host. and_then (deref host) (\<lambda>h. on_request (checkRequest sys h) s))"

definition handleRequestHeaders :: "system \<Rightarrow> session \<Rightarrow> fault + int \<times> session" where
  "handleRequestHeaders sys s =
     and_then (assignHost s) (\<lambda>r1.
     and_then (pass r1 (on_request (\<lambda>rq. Inr (parseURI rq)))) (\<lambda>r2.
     and_then (pass r2 (on_request (\<lambda>rq. Inr (checkForbiddenHeaders rq)))) (\<lambda>r3.
     and_then (pass r3 (\<lambda>s3. if h_cgiRedir (r_hints (getRequest s3)) = CGI_RES_NONE
                            then checkBodyLength s3 else Inr (0, s3))) (\<lambda>r4.
     and_then (pass r4 (check_host_request sys)) (\<lambda>r5.
     pass r5 (finish_headers sys))))))"

text \<open>\<open>handleRequestBodyDone\<close>: deletes the file of a \<open>DELETE\<close> request.\<close>

definition handleRequestBodyDone :: "session \<Rightarrow> int \<times> session" where
  "handleRequestBodyDone s =
     (let rq = getRequest s in
      if r_type rq = REQ_TYPE_STATIC then
        (if r_method rq = Some POST \<or> r_method rq = Some PUT then
           (if 0 < getBodySize rq then (h_status (r_hints rq), s) else (RES_NO_CONTENT, s))
         else if r_method rq = Some DELETE then
           (RES_NO_CONTENT,
            set_request (upd_hints (\<lambda>h. h\<lparr>h_path := []\<rparr>) rq)
              (syscall (Unlink (c_str (h_path (r_hints rq)))) s))
         else (RES_OK, s))
      else (RES_OK, s))"

text \<open>
  \<open>handleClientIn\<close>: \<open>Some bytes\<close> is a successful read, \<open>None\<close> an error or the end of the
  connection; without an incoming event the client's buffer is parsed as it is.
\<close>

definition after_parse :: "system \<Rightarrow> int \<Rightarrow> session \<Rightarrow> fault + int \<times> session" where
  "after_parse sys res s =
     (if 0 \<le> res then Inr (res, s)
      else
        and_then
          (if cl_headerStatus (s_client s) = HEADER_STATUS_READY then
             and_then (handleRequestHeaders sys (setBodyStatus BODY_STATUS_NONE s)) (\<lambda>(r, s1).
               if r \<noteq> 0 then Inr (True, r, s1)
               else if cl_bodyStatus (s_client s1) \<noteq> BODY_STATUS_NONE then
                 and_then (parseRequest [] s1) (\<lambda>(r', s2). Inr (False, r', s2))
               else Inr (False, 0, s1))
           else Inr (False, res, s)) (\<lambda>(stop, r, s1).
          Inr (if stop then (r, s1)
               else if r \<le> 0 \<and> cl_bodyStatus (s_client s1) \<noteq> BODY_STATUS_ONGOING
               then handleRequestBodyDone s1 else (r, s1))))"

definition handleClientIn :: "system \<Rightarrow> inputs \<Rightarrow> bool \<Rightarrow> session \<Rightarrow> fault + int \<times> session" where
  "handleClientIn sys inp incoming s =
     (case (if incoming then in_read inp else Some []) of
        None \<Rightarrow> Inr (-1, s)
      | Some bytes \<Rightarrow>
          and_then (parseRequest bytes s) (\<lambda>(res, s1). after_parse sys res s1))"

datatype sent = SITUATION_PENDING | SITUATION_CLOSE | SITUATION_KEEP_ALIVE | SITUATION_CONTINUE

text \<open>
  \<open>handleClientOut\<close>: \<open>in_write\<close> is the result of \<open>write\<close>. The piece is dropped from
  the queue whatever part of it was written.
\<close>

definition after_write :: "session \<Rightarrow> fault + sent \<times> session" where
  "after_write s =
     (if cl_outBuffers (s_client s) \<noteq> [] then Inr (SITUATION_PENDING, s)
      else
        (let rq = getRequest s; s0 = set_request rq s in
         and_then (if getHeader rq ''expect'' = ''100-continue'' then
                     and_then (deref (cl_response (s_client s))) (\<lambda>r. Inr (rs_status r = RES_CONTINUE))
                   else Inr False) (\<lambda>continue.
           Inr (if continue then (SITUATION_CONTINUE, set_request (removeHeader ''expect'' rq) s0)
                else
                  (let conn = map_at i_less [] ''connection'' (h_headers (r_hints rq));
                       s1 = set_request (upd_hints (\<lambda>h. h\<lparr>h_headers :=
                              map_insert i_less ''connection'' [] (h_headers h)\<rparr>) rq) s0
                   in (if conn = ''close'' then SITUATION_CLOSE else SITUATION_KEEP_ALIVE, s1))))))"

definition handleClientOut :: "inputs \<Rightarrow> session \<Rightarrow> fault + sent \<times> session" where
  "handleClientOut inp s =
     (case cl_outBuffers (s_client s) of
        [] \<Rightarrow> after_write s
      | piece # rest \<Rightarrow>
          if in_write inp < 0 then Inr (SITUATION_CLOSE, s)
          else
            after_write
              (syscall (Send (cl_fd (s_client s)) (take (nat (in_write inp)) piece))
                (upd_client (\<lambda>c. c\<lparr>cl_outBuffers := rest\<rparr>) s)))"

definition handleClientResponse :: "system \<Rightarrow> inputs \<Rightarrow> int \<Rightarrow> session \<Rightarrow> fault + int \<times> session" where
  "handleClientResponse sys inp response s =
     (if r_type (getRequest s) \<noteq> REQ_TYPE_CGI \<or> response \<noteq> RES_OK
      then generateResponse sys response s
      else
        and_then (generateCGIProcess sys inp s) (\<lambda>(res, s1).
          if res \<noteq> 0 then generateResponse sys RES_INTERNAL_ERROR s1 else Inr (0, s1)))"

text \<open>\<open>handleCGIProcess\<close>\<close>

definition local_redirect :: "system \<Rightarrow> inputs \<Rightarrow> session \<Rightarrow> fault + int \<times> session" where
  "local_redirect sys inp s =
     and_then (deleteCGIProcess s) (\<lambda>s1.
     and_then (handleRequestHeaders sys s1) (\<lambda>(res, s2).
       if res \<noteq> 0 then generateResponse sys res s2
       else if r_type (getRequest s2) \<noteq> REQ_TYPE_CGI then generateResponse sys res s2
       else
         and_then (generateCGIProcess sys inp s2) (\<lambda>(res', s3).
           if res' \<noteq> 0 then
             and_then (deleteCGIProcess s3) (generateResponse sys RES_INTERNAL_ERROR)
           else Inr (res', s3))))"

definition handleCGIProcess :: "system \<Rightarrow> inputs \<Rightarrow> session \<Rightarrow> fault + int \<times> session" where
  "handleCGIProcess sys inp s =
     and_then (deref (cl_cgiProcess (s_client s))) (\<lambda>cg.
       case checkEnd (in_wait inp) (in_elapsed inp) cg of (ended, cg1, killed) \<Rightarrow>
         (let s1 = (case killed of None \<Rightarrow> id | Some pid \<Rightarrow> syscall (Kill pid))
                     (upd_client (\<lambda>c. c\<lparr>cl_cgiProcess := Some cg1\<rparr>) s)
          in if ended = 0 then Inr (0, s1)
             else if ended < 0 then
               and_then (deleteCGIProcess s1) (generateResponse sys RES_SERVICE_UNAVAILABLE)
             else
               (case cgi_parseHeaders sys cg1 (getRequest s1) of (kind, cg2, rq) \<Rightarrow>
                 (let s2 = upd_client (\<lambda>c. c\<lparr>cl_cgiProcess := Some cg2,
                          cl_request := Some (upd_hints (\<lambda>h. h\<lparr>h_cgiRedir := kind\<rparr>) rq)\<rparr>) s1
                  in case kind of
                       CGI_RES_ERROR \<Rightarrow>
                         and_then (deleteCGIProcess s2) (generateResponse sys RES_SERVICE_UNAVAILABLE)
                     | CGI_RES_LOCAL_REDIRECT \<Rightarrow> local_redirect sys inp s2
                     | CGI_RES_NONE \<Rightarrow>
                         and_then (deleteCGIProcess s2) (\<lambda>s3. Inr (0, s3))
                     | _ \<Rightarrow>
                         and_then (generateResponse sys 0 s2) (\<lambda>(res, s3).
                           and_then (deleteCGIProcess s3) (\<lambda>s4. Inr (res, s4)))))))"

section \<open>Events\<close>

definition on_sent :: "system \<Rightarrow> inputs \<Rightarrow> sent \<times> session \<Rightarrow> fault + int \<times> session" where
  "on_sent sys inp r =
     (case r of
        (SITUATION_PENDING, s) \<Rightarrow> Inr (0, s)
      | (SITUATION_KEEP_ALIVE, s) \<Rightarrow>
          and_then (clear s) (\<lambda>s1.
          and_then (handleClientIn sys inp False (setMode CLIENT_MODE_READ s1)) (\<lambda>(res, s2).
            if 0 < res then handleClientResponse sys inp res s2 else Inr (res, s2)))
      | (SITUATION_CONTINUE, s) \<Rightarrow> Inr (0, setMode CLIENT_MODE_READ (clearResponse s))
      | (SITUATION_CLOSE, s) \<Rightarrow> and_then (terminate s) (\<lambda>s1. Inr (0, s1)))"

definition handleClientEvent :: "system \<Rightarrow> inputs \<Rightarrow> session \<Rightarrow> fault + int \<times> session" where
  "handleClientEvent sys inp s =
     (let c = s_client s in
      if in_hup inp \<or> cl_mode c = CLIENT_MODE_ERROR then
        and_then (terminate s) (\<lambda>s1. Inr (0, s1))
      else if in_in inp \<and> (cl_mode c = CLIENT_MODE_READ \<or> cl_bodyStatus c \<noteq> BODY_STATUS_ONGOING) then
        and_then (handleClientIn sys inp True s) (\<lambda>(res, s1).
          if 0 < res then handleClientResponse sys inp res s1
          else Inr (if res < 0 then -1 else 0, s1))
      else if in_out inp \<and> cl_mode c = CLIENT_MODE_WRITE then
        and_then (if cl_cgiProcess c \<noteq> None then handleCGIProcess sys inp s else Inr (0, s)) (\<lambda>(res, s1).
          if res \<noteq> 0 then Inr (-1, s1)
          else if cl_response (s_client s1) = None then Inr (0, s1)
          else and_then (handleClientOut inp s1) (on_sent sys inp))
      else Inr (0, s))"

text \<open>\<open>handleEpoll\<close> closes the client when handling its event failed.\<close>

definition client_event :: "system \<Rightarrow> inputs \<Rightarrow> session \<Rightarrow> fault + session" where
  "client_event sys inp s =
     and_then (handleClientEvent sys inp s) (\<lambda>(res, s1).
       if res < 0 then terminate s1 else Inr s1)"

text \<open>\<open>Client::checkTO\<close>, for one client that has been silent for \<open>elapsed\<close> milliseconds.\<close>

definition CLIENT_TIME_OUT :: int where "CLIENT_TIME_OUT = 10000"

definition checkTO :: "system \<Rightarrow> int \<Rightarrow> session \<Rightarrow> fault + session" where
  "checkTO sys elapsed s =
     (if cl_mode (s_client s) = CLIENT_MODE_READ \<and> CLIENT_TIME_OUT < elapsed then
        (case cl_request (s_client s) of
           None \<Rightarrow> terminate s
         | Some rq \<Rightarrow>
             and_then (generateResponse sys 408
               (set_request (snd (fillError 408 [] (rq\<lparr>r_final_status := COMPLETE\<rparr>)))
                 (setMode CLIENT_MODE_WRITE s))) (\<lambda>(_, s1). Inr s1))
      else Inr s)"

section \<open>A response is always generated\<close>

lemma getHost_upd [simp]:
  "cl_id c = cl_id (s_client s) \<Longrightarrow> getHost (s\<lparr>s_client := c\<rparr>) = getHost s"
  by (simp add: getHost_def cong del: option.case_cong_weak)

lemma getRequest_set [simp]: "getRequest (set_request rq s) = rq"
  by (simp add: getRequest_def)

lemma set_hint_header_kept [simp]:
  "h_status (r_hints (set_hint_header k v rq)) = h_status (r_hints rq)"
  "h_path (r_hints (set_hint_header k v rq)) = h_path (r_hints rq)"
  "h_redirList (r_hints (set_hint_header k v rq)) = h_redirList (r_hints rq)"
  "r_type (set_hint_header k v rq) = r_type rq" "r_method (set_hint_header k v rq) = r_method rq"
  "locationRules (set_hint_header k v rq) = locationRules rq"
  "cgiRules (set_hint_header k v rq) = cgiRules rq" "puri (set_hint_header k v rq) = puri rq"
  "r_headers (set_hint_header k v rq) = r_headers rq"
  by (simp_all add: set_hint_header_def add_hint_header_def)

definition hints_ordered :: "Request \<Rightarrow> bool" where
  "hints_ordered rq = map_ordered i_less (h_headers (r_hints rq))"

lemma ordered_set_hint [simp]: "hints_ordered rq \<Longrightarrow> hints_ordered (set_hint_header k v rq)"
  by (simp add: hints_ordered_def set_hint_header_def)

lemma fillErrorPage_status [simp]: "h_status (fillErrorPage pages host h) = h_status h"
  by (simp add: fillErrorPage_def)

lemma fillErrorPage_ordered:
  "map_ordered i_less (h_headers h) \<Longrightarrow> map_ordered i_less (h_headers (fillErrorPage pages host h))"
  by (simp add: fillErrorPage_def)

lemma fillAdditionnalHeaders_facts:
  "h_status (r_hints (fillAdditionnalHeaders rq)) = h_status (r_hints rq)"
  "hints_ordered rq \<Longrightarrow> hints_ordered (fillAdditionnalHeaders rq)"
  by (simp_all add: fillAdditionnalHeaders_def)

lemma fillVerboseError_facts:
  "h_status (r_hints (fillVerboseError rq)) = h_status (r_hints rq)"
  "hints_ordered rq \<Longrightarrow> hints_ordered (fillVerboseError rq)"
  "h_status (r_hints rq) = RES_INTERNAL_ERROR \<Longrightarrow> h_path (r_hints (fillVerboseError rq)) = []"
  by (simp_all add: fillVerboseError_def Let_def hints_ordered_def set_hint_header_def res_defs)

lemma fillResponse_status [simp]: "h_status (r_hints (fillResponse pages host rq)) = h_status (r_hints rq)"
  by (simp add: fillResponse_def Let_def fillVerboseError_facts fillAdditionnalHeaders_facts)

text \<open>A redirection that can be answered has addresses, and none is empty.\<close>

definition usable_redirection :: "Request \<Rightarrow> bool" where
  "usable_redirection rq =
     (case h_redirList (r_hints rq) of None \<Rightarrow> False | Some rs \<Rightarrow> rs \<noteq> [] \<and> [] \<notin> set rs)"

lemma fillResponse_redirection [simp]:
  "usable_redirection (fillResponse pages host rq) = usable_redirection rq"
  "usable_redirection (set_status status rq) = usable_redirection rq"
  by (simp_all add: usable_redirection_def fillResponse_def fillVerboseError_def fillAdditionnalHeaders_def
      fillErrorPage_def set_hint_header_def add_hint_header_def Let_def)

lemma fillResponse_ordered: "hints_ordered rq \<Longrightarrow> hints_ordered (fillResponse pages host rq)"
proof -
  assume "hints_ordered rq"
  then have "hints_ordered (upd_hints (fillErrorPage pages host) rq)"
    by (simp add: hints_ordered_def fillErrorPage_ordered)
  from fillVerboseError_facts(2) [OF fillAdditionnalHeaders_facts(2) [OF this]]
  show ?thesis by (simp add: fillResponse_def Let_def hints_ordered_def)
qed

lemma fillResponse_500:
  "h_status (r_hints rq) = RES_INTERNAL_ERROR \<Longrightarrow> h_path (r_hints (fillResponse pages host rq)) = []"
  by (simp add: fillResponse_def Let_def fillVerboseError_facts fillAdditionnalHeaders_facts)

text \<open>A verbose error page cannot fail.\<close>

lemma genResponse_500:
  assumes "h_status h = RES_INTERNAL_ERROR" and "h_path h = []"
  shows "\<exists>r. genResponse sys h = Inr r"
  using assms
  by (simp add: genResponse_def addSpecificHeaders_def generateBody_def res_defs addHintHeaders_def
      add_hint_header_def addUniversalHeaders_def)

text \<open>The status a call of \<open>generateResponse\<close> answers with.\<close>

definition answered_status :: "int \<Rightarrow> Request \<Rightarrow> int" where
  "answered_status status rq = (if status \<noteq> 0 then status else h_status (r_hints rq))"

lemma attempt_request:
  "h_status (r_hints (if status \<noteq> 0 then set_status status rq else rq)) = answered_status status rq"
  "hints_ordered rq \<Longrightarrow> hints_ordered (if status \<noteq> 0 then set_status status rq else rq)"
  by (simp_all add: answered_status_def hints_ordered_def)

lemma attempt_500:
  assumes "getHost s = Inr host" and "answered_status status (getRequest s) = RES_INTERNAL_ERROR"
  shows "\<exists>s'. attempt sys status s = Inr (True, s') \<and> cl_response (s_client s') \<noteq> None \<and>
    cl_mode (s_client s') = CLIENT_MODE_WRITE"
proof -
  let ?rq1 = "if status \<noteq> 0 then set_status status (getRequest s) else getRequest s"
  let ?rq = "fillResponse (s_error_pages s) host ?rq1"
  have st: "h_status (r_hints ?rq1) = RES_INTERNAL_ERROR"
    using attempt_request(1) assms(2) by simp
  obtain r where "genResponse sys (r_hints ?rq) = Inr r"
    using genResponse_500 [of "r_hints ?rq" sys] fillResponse_500 [OF st] st by auto
  with assms(1) show ?thesis
    by (cases r) (simp add: attempt_def Let_def setMode_def)
qed

lemma attempt_cases:
  assumes "getHost s = Inr host" and "hints_ordered (getRequest s)"
    and "answered_status status (getRequest s) div 100 = 3 \<longrightarrow> usable_redirection (getRequest s)"
  obtains s' where "attempt sys status s = Inr (True, s')" and "cl_response (s_client s') \<noteq> None"
      and "cl_mode (s_client s') = CLIENT_MODE_WRITE"
  | s' where "attempt sys status s = Inr (False, s')" and "getHost s' = Inr host"
      and "h_status (r_hints (getRequest s')) = answered_status status (getRequest s)"
proof -
  let ?rq1 = "if status \<noteq> 0 then set_status status (getRequest s) else getRequest s"
  let ?rq = "fillResponse (s_error_pages s) host ?rq1"
  have ord: "hints_ordered ?rq" using attempt_request(2) [OF assms(2)] by (rule fillResponse_ordered)
  have st: "h_status (r_hints ?rq) = answered_status status (getRequest s)"
    by (simp add: attempt_request)
  show ?thesis
  proof (cases "genResponse sys (r_hints ?rq)")
    case (Inl e)
    have "h_status (r_hints ?rq) div 100 = 3 \<longrightarrow> usable_redirection ?rq"
      using assms(3) st by simp
    with genResponse_fault_cases [OF Inl] ord have "e = OtherException"
      by (auto simp: hints_ordered_def usable_redirection_def split: option.splits)
    then have "attempt sys status s = Inr (False, clearResponse (set_request ?rq s))"
      using assms(1) Inl by (simp add: attempt_def Let_def is_exception_def)
    moreover have "getHost (clearResponse (set_request ?rq s)) = Inr host"
      using assms(1) by (simp add: clearResponse_def setResponse_def)
    moreover have "getRequest (clearResponse (set_request ?rq s)) = ?rq"
      by (simp add: clearResponse_def setResponse_def getRequest_def)
    ultimately show ?thesis using that(2) st by simp
  next
    case (Inr r)
    have "\<exists>s'. attempt sys status s = Inr (True, s') \<and> cl_response (s_client s') \<noteq> None \<and>
        cl_mode (s_client s') = CLIENT_MODE_WRITE"
      using Inr assms(1) by (cases r) (simp add: attempt_def Let_def setMode_def)
    with that(1) show ?thesis by blast
  qed
qed

lemma generateResponse_responds:
  assumes "getHost s = Inr host" and "cl_response (s_client s) = None"
    and "hints_ordered (getRequest s)"
    and "answered_status status (getRequest s) div 100 = 3 \<longrightarrow> usable_redirection (getRequest s)"
  shows "\<exists>s'. generateResponse sys status s = Inr (0, s') \<and> cl_response (s_client s') \<noteq> None \<and>
    cl_mode (s_client s') = CLIENT_MODE_WRITE"
proof -
  let ?s = "set_request (getRequest s) s"
  have host: "getHost ?s = Inr host" using assms(1) by simp
  have st: "answered_status status (getRequest ?s) = answered_status status (getRequest s)" by simp
  show ?thesis
  proof (cases rule: attempt_cases [OF host, of status sys])
    case 1
    show ?case using assms(3) by simp
  next
    case 2
    show ?case using assms(4) by simp
  next
    case (3 s1)
    with assms(2) show ?thesis by (simp add: generateResponse_def)
  next
    case (4 s1)
    have n500: "h_status (r_hints (getRequest s1)) \<noteq> RES_INTERNAL_ERROR"
      using attempt_500 [OF host, of status sys] 4 by auto
    have "answered_status RES_INTERNAL_ERROR (getRequest s1) = RES_INTERNAL_ERROR"
      by (simp add: answered_status_def res_defs)
    from attempt_500 [OF 4(2) this, of sys] 4(1) n500 assms(2) show ?thesis
      by (auto simp: generateResponse_def)
  qed
qed

text \<open>
  C6. \<open>generateResponse\<close> always gives the client a response to write: whatever files are
  missing, the result is 0, with a response and the client in writing mode, after at most one
  retry with status 500; a redirection must have addresses, none of them empty.
\<close>

theorem generateResponse_always_responds:
  assumes "getHost s = Inr host" and "cl_response (s_client s) = None"
    and "hints_ordered (getRequest s)"
    and "answered_status status (getRequest s) div 100 = 3 \<longrightarrow> usable_redirection (getRequest s)"
  shows "\<exists>s'. generateResponse sys status s = Inr (0, s') \<and> cl_response (s_client s') \<noteq> None \<and>
    cl_mode (s_client s') = CLIENT_MODE_WRITE"
  using assms by (rule generateResponse_responds)

lemma demo_session_host: "\<exists>h. getHost demo_session = Inr (Some h)"
  by (simp add: getHost_def demo_session_def new_session_def new_Client_def busy_world_def
      demo_world_def upd_assoc_def)

theorem generateResponse_always_responds_witness:
  "\<exists>s'. generateResponse demo_system 404 demo_session = Inr (0, s') \<and> cl_response (s_client s') \<noteq> None \<and>
    cl_mode (s_client s') = CLIENT_MODE_WRITE"
proof -
  obtain h where "getHost demo_session = Inr (Some h)" using demo_session_host by blast
  then show ?thesis
    by (rule generateResponse_always_responds)
      (simp_all add: demo_session_def new_session_def new_Client_def getRequest_def hints_ordered_def
        new_Request_def new_ResHints_def answered_status_def)
qed

section \<open>Errors close the connection\<close>

lemma connection_close:
  assumes "h_status (r_hints rq) < 200 \<or> 300 \<le> h_status (r_hints rq)" and "hints_ordered rq"
  shows "map_find i_less ''connection'' (h_headers (r_hints (fillResponse pages host rq))) = Some ''close''"
proof -
  let ?rq = "upd_hints (fillErrorPage pages host) rq"
  have ord: "hints_ordered ?rq" using assms(2) by (simp add: hints_ordered_def fillErrorPage_ordered)
  have allow: "ikey ''Allow'' \<noteq> ikey ''connection''" by code_simp
  have "map_find i_less ''connection'' (h_headers (r_hints (fillAdditionnalHeaders ?rq))) = Some ''close''"
    using assms(1) ord
    by (auto simp: fillAdditionnalHeaders_def set_hint_header_def find_add hints_ordered_def)
  moreover have "hints_ordered (fillAdditionnalHeaders ?rq)"
    using ord by (rule fillAdditionnalHeaders_facts)
  ultimately have "map_find i_less ''connection''
      (h_headers (r_hints (fillVerboseError (fillAdditionnalHeaders ?rq)))) = Some ''close''"
    using allow by (simp add: fillVerboseError_def Let_def set_hint_header_def find_add hints_ordered_def)
  then show ?thesis by (simp add: fillResponse_def Let_def)
qed

lemma ikey_connection:
  "ikey ''Accept-Encoding'' \<noteq> ikey ''connection''" "ikey ''Accept-Ranges'' \<noteq> ikey ''connection''"
  "ikey ''Date'' \<noteq> ikey ''connection''" "ikey ''Content-Length'' \<noteq> ikey ''connection''"
  "ikey ''Content-Type'' \<noteq> ikey ''connection''" "ikey ''Location'' \<noteq> ikey ''connection''"
  by code_simp+

lemma find_universal:
  "map_ordered i_less (h_headers h) \<Longrightarrow>
   map_find i_less ''connection'' (h_headers (addUniversalHeaders sys h)) =
   map_find i_less ''connection'' (h_headers h)"
  by (simp add: addUniversalHeaders_def find_add ikey_connection)

lemma genResponse_connection:
  assumes "genResponse sys h = Inr (resp, h')" and "map_ordered i_less (h_headers h)"
  shows "map_find i_less ''connection'' (h_headers h') = map_find i_less ''connection'' (h_headers h)"
proof (cases "h_status h = 100")
  case True
  with assms(1) show ?thesis by (simp add: genResponse_def)
next
  case n100: False
  show ?thesis
  proof (cases "h_path h = [] \<or> (h_status h = RES_OK \<and> h_type h = REQ_TYPE_DIR)")
    case True
    obtain h1 body where
      h1: "addSpecificHeaders (addUniversalHeaders sys h) = Inr h1"
      and "generateBody sys h1 = Inr body" and ord: "map_ordered i_less (h_headers h1)"
      and "resp = DynamicResponse (h_status h) (h_verboseError h) body"
      and h': "h' = add_hint_header ''Content-Type'' ''text/html''
              (add_hint_header ''Content-Length'' (itostr (int (length body))) h1)"
      using assms n100 True by (rule genResponse_dynamic)
    from addSpecificHeaders_result [OF h1] ord assms(2) show ?thesis
      by (auto simp: h' find_add ikey_connection find_universal)
  next
    case False
    obtain content where "file_bytes sys (h_path h) = Some content"
      and "resp = FileResponse (h_status h) (h_verboseError h)
             (if h_index h < 0 then [] else drop (nat (h_index h)) content)"
      and h': "h' = checkType (add_hint_header ''Content-Length''
           (itostr (u64 (int (length content) - h_index h))) ((addUniversalHeaders sys h)\<lparr>h_index := 0\<rparr>))"
      using assms n100 False by (rule genResponse_file)
    show ?thesis
      using assms(2)
      by (simp add: h' checkType_def find_add ikey_connection find_universal split: option.split)
  qed
qed

lemma genResponse_status: "genResponse sys h = Inr (resp, h') \<Longrightarrow> rs_status resp = h_status h"
  by (auto simp: genResponse_def newSingleLineResponse_def and_then_eq_Inr split: if_splits)

text \<open>A response that makes the client be closed when it has been sent.\<close>

definition closing_response :: "session \<Rightarrow> bool" where
  "closing_response s \<longleftrightarrow>
     (\<exists>resp. cl_response (s_client s) = Some resp \<and> rs_status resp \<noteq> RES_CONTINUE) \<and>
     map_find i_less ''connection'' (h_headers (r_hints (getRequest s))) = Some ''close''"

lemma attempt_closing:
  assumes "attempt sys status s = Inr (ok, s')" and "hints_ordered (getRequest s)"
    and "400 \<le> answered_status status (getRequest s)"
  shows "if ok then closing_response s' else hints_ordered (getRequest s')"
proof -
  let ?rq1 = "if status \<noteq> 0 then set_status status (getRequest s) else getRequest s"
  obtain host where host: "getHost s = Inr host"
    using assms(1) by (cases "getHost s") (auto simp: attempt_def Let_def)
  let ?rq = "fillResponse (s_error_pages s) host ?rq1"
  have ord1: "hints_ordered ?rq1" by (rule attempt_request(2) [OF assms(2)])
  then have ord: "hints_ordered ?rq" by (rule fillResponse_ordered)
  have st: "400 \<le> h_status (r_hints ?rq1)" using attempt_request(1) assms(3) by simp
  have close: "map_find i_less ''connection'' (h_headers (r_hints ?rq)) = Some ''close''"
    using st by (intro connection_close [OF _ ord1]) simp
  show ?thesis
  proof (cases "genResponse sys (r_hints ?rq)")
    case (Inl e)
    with assms(1) host have "s' = clearResponse (set_request ?rq s)" "\<not> ok"
      by (auto simp: attempt_def Let_def split: if_splits)
    with ord show ?thesis
      by (simp add: clearResponse_def setResponse_def getRequest_def)
  next
    case (Inr r)
    obtain resp h' where r: "r = (resp, h')" by (cases r)
    have "rs_status resp \<noteq> RES_CONTINUE"
      using genResponse_status [OF Inr [unfolded r]] st by (simp add: RES_CONTINUE_def)
    moreover have "map_find i_less ''connection'' (h_headers h') = Some ''close''"
      using genResponse_connection [OF Inr [unfolded r]] ord close by (simp add: hints_ordered_def)
    moreover have "ok" and s': "s' = setMode CLIENT_MODE_WRITE
        (upd_client (\<lambda>c. c\<lparr>cl_request := Some (?rq\<lparr>r_hints := h'\<rparr>),
           cl_outBuffers := writeResponse h' resp (cl_outBuffers c), cl_response := Some resp\<rparr>) s)"
      using assms(1) host Inr r by (auto simp: attempt_def Let_def)
    moreover have "cl_response (s_client s') = Some resp \<and> r_hints (getRequest s') = h'"
      by (simp add: s' setMode_def getRequest_def)
    ultimately show ?thesis by (simp add: closing_response_def)
  qed
qed

lemma generateResponse_closing:
  assumes "generateResponse sys status s = Inr (0, s')" and "cl_response (s_client s) = None"
    and "hints_ordered (getRequest s)" and "400 \<le> answered_status status (getRequest s)"
  shows "closing_response s'"
proof -
  let ?s = "set_request (getRequest s) s"
  obtain ok s1 where a: "attempt sys status ?s = Inr (ok, s1)"
    using assms(1,2) by (auto simp: generateResponse_def and_then_eq_Inr)
  have c1: "if ok then closing_response s1 else hints_ordered (getRequest s1)"
    by (rule attempt_closing [OF a]) (simp_all add: assms(3,4))
  show ?thesis
  proof (cases ok)
    case True
    with assms(1,2) a c1 show ?thesis by (simp add: generateResponse_def)
  next
    case False
    then obtain ok2 s2 where b: "attempt sys RES_INTERNAL_ERROR s1 = Inr (ok2, s2)"
      using assms(1,2) a by (auto simp: generateResponse_def and_then_eq_Inr split: if_splits)
    have "if ok2 then closing_response s2 else hints_ordered (getRequest s2)"
      using c1 False by (intro attempt_closing [OF b]) (simp_all add: answered_status_def res_defs)
    with assms(1,2) a b False show ?thesis
      by (auto simp: generateResponse_def split: if_splits)
  qed
qed

definition demo_inputs :: inputs where
  "demo_inputs = \<lparr> in_hup = False, in_in = False, in_out = True, in_read = None, in_write = 4000,
                   in_wait = None, in_elapsed = 0, in_fork = 1 \<rparr>"

lemma demo_session_facts:
  "cl_response (s_client demo_session) = None" "hints_ordered (getRequest demo_session)"
  "answered_status 404 (getRequest demo_session) = 404"
  by (simp_all add: demo_session_def new_session_def new_Client_def getRequest_def hints_ordered_def
      new_Request_def new_ResHints_def answered_status_def)

section \<open>Deleting and uploading files\<close>

text \<open>
  C24. A \<open>DELETE\<close> that passed \<open>checkRequest\<close>: if the request is for a file, it removes one
  file, the regular file under the root of a location of the host that allows the method, and
  the answer is 204; if it is for a directory or a script, nothing is removed and the answer
  is 200.
\<close>

theorem delete_removes_checked_file:
  assumes "checkRequest sys h rq = Inr (0, rq')" and "r_method rq = Some DELETE"
  shows "if r_type rq' = REQ_TYPE_STATIC
    then \<exists>l s'. l \<in> snd ` set (ho_locationMap h) \<and> method_allowed (l_methods l) DELETE \<and>
      stat_kind sys (l_root l @ u_path (puri rq')) = Some Regular \<and>
      handleRequestBodyDone (set_request rq' s) = (RES_NO_CONTENT, s') \<and>
      s_log s' = s_log s @ [Unlink (c_str (l_root l @ u_path (puri rq')))]
    else handleRequestBodyDone (set_request rq' s) = (RES_OK, set_request rq' s)"
proof (cases "r_type rq' = REQ_TYPE_STATIC")
  case False
  then show ?thesis by (simp add: handleRequestBodyDone_def Let_def)
next
  case static: True
  have "admitted sys h DELETE rq'" using assms(1,2) by (rule checkRequest_admitted)
  then have "\<exists>l. locationRules rq' = Some l \<and> h_path (r_hints rq') = l_root l @ u_path (puri rq') \<and>
      checkRessourcePath sys (h_path (r_hints rq')) REQ_TYPE_STATIC R_OK = 0"
    and rules: "\<forall>l. locationRules rq' = Some l \<longrightarrow>
      l \<in> snd ` set (ho_locationMap h) \<and> method_allowed (l_methods l) DELETE"
    using static by (simp_all add: admitted_def)
  then obtain l where loc: "locationRules rq' = Some l"
    and path: "h_path (r_hints rq') = l_root l @ u_path (puri rq')"
    and "checkRessourcePath sys (h_path (r_hints rq')) REQ_TYPE_STATIC R_OK = 0" by blast
  then have st: "stat_kind sys (l_root l @ u_path (puri rq')) = Some Regular"
    by (simp add: checkRessourcePath_ok)
  have l: "l \<in> snd ` set (ho_locationMap h)" "method_allowed (l_methods l) DELETE"
    using rules loc by blast+
  have "r_method rq' = Some DELETE"
    using checkRequest_method [OF assms(1)] assms(2) by simp
  with static path have "handleRequestBodyDone (set_request rq' s) =
      (RES_NO_CONTENT, set_request (upd_hints (\<lambda>h. h\<lparr>h_path := []\<rparr>) rq')
        (syscall (Unlink (c_str (l_root l @ u_path (puri rq')))) (set_request rq' s)))"
    by (simp add: handleRequestBodyDone_def Let_def)
  moreover have "s_log (set_request r (syscall c (set_request rq' s))) = s_log s @ [c]" for r c
    by (simp add: syscall_def)
  ultimately show ?thesis using l st static by auto
qed

theorem delete_removes_checked_file_witness:
  "\<exists>rq' s'. checkRequest demo_system (demo_host\<lparr>ho_locationMap := [(''*'', demo_location\<lparr>l_methods := 8\<rparr>)]\<rparr>)
      (demo_request DELETE ''/a'') = Inr (0, rq') \<and>
    handleRequestBodyDone (set_request rq' demo_session) = (RES_NO_CONTENT, s') \<and>
    s_log s' = [Unlink ''www/a'']"
proof -
  let ?h = "demo_host\<lparr>ho_locationMap := [(''*'', demo_location\<lparr>l_methods := 8\<rparr>)]\<rparr>"
  have "case checkRequest demo_system ?h (demo_request DELETE ''/a'') of
      Inl e \<Rightarrow> False | Inr (res, rq') \<Rightarrow> res = 0 \<and> r_type rq' = REQ_TYPE_STATIC \<and> u_path (puri rq') = ''a''"
    by code_simp
  then obtain rq' where c: "checkRequest demo_system ?h (demo_request DELETE ''/a'') = Inr (0, rq')"
    and t: "r_type rq' = REQ_TYPE_STATIC" "u_path (puri rq') = ''a''"
    by (auto split: sum.splits prod.splits)
  have "r_method (demo_request DELETE ''/a'') = Some DELETE" by code_simp
  from delete_removes_checked_file [OF c this, of demo_session] c t show ?thesis
    by (auto simp: demo_host_def demo_location_def demo_session_def new_session_def c_str_def NUL_def)
qed

lemma forward_content_type_log [simp]: "s_log (forward_content_type s) = s_log s"
  by (simp add: forward_content_type_def Let_def)

lemma set_unlink_log [simp]: "s_log (set_unlink b s) = s_log s"
  by (simp add: set_unlink_def)

lemma setBodyFile_log:
  "setBodyFile sys path s = Inr s' \<Longrightarrow>
   s_log s' = s_log s @ (if path = [] then [] else [Truncate (c_str path)])"
  by (cases "cl_request (s_client s)"; cases "path = []") (auto simp: setBodyFile_def Let_def)

lemma start_upload_result:
  assumes "start_upload sys path exists st s = Inr (r, s')" and "path \<noteq> []"
  shows "r = 0 \<and> s_log s' = s_log s @ [Truncate (c_str path)]"
proof -
  let ?s = "set_request (upd_hints (\<lambda>h. h\<lparr>h_alreadyExist := exists, h_status := st, h_path := path\<rparr>)
            (getRequest s)) s"
  obtain s1 where s1: "setBodyFile sys path ?s = Inr s1" and "r = 0"
    and s': "s' = forward_content_type (set_unlink False s1)"
    using assms(1) unfolding start_upload_def and_then_eq_Inr by blast
  with setBodyFile_log [OF s1] assms(2) show ?thesis by simp
qed

text \<open>
  C25. An upload that is accepted opens one file for writing, the one the request's path
  names under the upload directory (or the root) of its location, and only if nothing or a
  writable regular file is there; otherwise no file is opened.
\<close>

theorem upload_opens_its_file:
  assumes "defineBodyParsing sys s = Inr (res, s')" and "r_type (getRequest s) = REQ_TYPE_STATIC"
    and "r_method (getRequest s) = Some POST \<or> r_method (getRequest s) = Some PUT"
    and "locationRules (getRequest s) = Some l" and "upload_path l (getRequest s) \<noteq> []"
  shows "if res = 0
    then s_log s' = s_log s @ [Truncate (c_str (upload_path l (getRequest s)))] \<and>
      (stat_kind sys (upload_path l (getRequest s)) = None \<or>
       stat_kind sys (upload_path l (getRequest s)) = Some Regular \<and>
       sys_access sys (c_str (upload_path l (getRequest s))) W_OK)
    else res = RES_FORBIDDEN \<and> s_log s' = s_log s"
proof -
  let ?p = "upload_path l (getRequest s)"
  let ?bad = "Inr (RES_FORBIDDEN, set_request (set_status RES_FORBIDDEN (getRequest s)) s) :: fault + int \<times> session"
  have unf: "defineBodyParsing sys s =
      (case checkFileExist sys ?p of
         FILE_DONT_EXIT \<Rightarrow> start_upload sys ?p False RES_CREATED s
       | FILE_EXIST \<Rightarrow> if \<not> sys_access sys (c_str ?p) W_OK then ?bad else start_upload sys ?p True RES_OK s
       | FILE_IS_NOT_REG \<Rightarrow> ?bad)"
    using assms(2-4) by (auto simp: defineBodyParsing_def Let_def split: fileSituation.split)
  show ?thesis
  proof (cases "checkFileExist sys ?p")
    case FILE_DONT_EXIT
    then have "stat_kind sys ?p = None"
      by (auto simp: checkFileExist_def split: option.splits file_kind.splits)
    with assms(1) FILE_DONT_EXIT start_upload_result [OF _ assms(5)] show ?thesis
      by (simp add: unf)
  next
    case FILE_EXIST
    then have "stat_kind sys ?p = Some Regular"
      by (auto simp: checkFileExist_def split: option.splits file_kind.splits)
    with assms(1) FILE_EXIST start_upload_result [OF _ assms(5)] show ?thesis
      by (auto simp: unf res_defs split: if_splits)
  next
    case FILE_IS_NOT_REG
    with assms(1) show ?thesis by (auto simp: unf res_defs)
  qed
qed

definition upload_session :: session where
  "upload_session = set_request
     ((demo_request POST ''/new'')\<lparr>r_type := REQ_TYPE_STATIC,
        r_hints := (r_hints (demo_request POST ''/new''))\<lparr>h_locationRules := Some demo_location\<rparr>\<rparr>)
     demo_session"

theorem upload_opens_its_file_witness:
  "\<exists>s'. defineBodyParsing demo_system upload_session = Inr (0, s') \<and>
     s_log s' = [Truncate ''www/new'']"
proof -
  have "case defineBodyParsing demo_system upload_session of Inl e \<Rightarrow> False | Inr (res, s') \<Rightarrow> res = 0"
    by code_simp
  then obtain s' where d: "defineBodyParsing demo_system upload_session = Inr (0, s')"
    by (auto split: sum.splits prod.splits)
  have rq: "r_type (getRequest upload_session) = REQ_TYPE_STATIC"
    "r_method (getRequest upload_session) = Some POST"
    "upload_path demo_location (getRequest upload_session) = ''www/new''"
    by code_simp+
  have "locationRules (getRequest upload_session) = Some demo_location"
    by (simp add: upload_session_def)
  from upload_opens_its_file [OF d rq(1) _ this] rq(2,3) d show ?thesis
    by (auto simp: upload_session_def demo_session_def new_session_def c_str_def NUL_def)
qed

section \<open>Limits\<close>

text \<open>
  A request whose headers announce a measured body gets a body only if its length is
  positive and within the limit of its host.
\<close>

theorem body_within_host_limit:
  assumes "checkBodyLength s = Inr (0, s')" and "cl_bodyStatus (s_client s) = BODY_STATUS_NONE"
    and "cl_bodyStatus (s_client s') = BODY_STATUS_ONGOING" and "\<not> r_chunked (getRequest s')"
    and "getHost s = Inr (Some h)"
  shows "0 < r_content_length (getRequest s') \<and> r_content_length (getRequest s') \<le> ho_body_max_size h"
  using assms
  by (auto simp: checkBodyLength_def Let_def and_then_eq_Inr setBodyStatus_def getRequest_def
      split: if_splits)

theorem body_within_host_limit_witness:
  "\<exists>s'. checkBodyLength (set_request (new_Request\<lparr>r_headers := [(''content-length'', ''12'')]\<rparr>) demo_session) =
       Inr (0, s') \<and> 0 < r_content_length (getRequest s')"
proof -
  let ?s = "set_request (new_Request\<lparr>r_headers := [(''content-length'', ''12'')]\<rparr>) demo_session"
  have "case checkBodyLength ?s of Inl e \<Rightarrow> False
      | Inr (res, s') \<Rightarrow> res = 0 \<and> cl_bodyStatus (s_client s') = BODY_STATUS_ONGOING \<and> \<not> r_chunked (getRequest s')"
    by code_simp
  then obtain s' where c: "checkBodyLength ?s = Inr (0, s')"
    and b: "cl_bodyStatus (s_client s') = BODY_STATUS_ONGOING" "\<not> r_chunked (getRequest s')"
    by (auto split: sum.splits prod.splits)
  obtain h where "getHost demo_session = Inr (Some h)" using demo_session_host by blast
  then have "getHost ?s = Inr (Some h)" by simp
  from body_within_host_limit [OF c _ b this] c show ?thesis
    by (auto simp: demo_session_def new_session_def new_Client_def)
qed

section \<open>A client without a response\<close>

text \<open>Waiting to write, with nothing to write and nothing that could produce it.\<close>

definition stuck :: "session \<Rightarrow> bool" where
  "stuck s \<longleftrightarrow>
     (let c = s_client s in
      cl_mode c = CLIENT_MODE_WRITE \<and> cl_response c = None \<and> cl_cgiProcess c = None \<and>
      cl_headerStatus c = HEADER_STATUS_DONE \<and> cl_bodyStatus c \<noteq> BODY_STATUS_ONGOING)"

lemma stuck_step:
  assumes "stuck s" and "\<not> in_hup inp" and "in_read inp \<noteq> None"
  shows "\<exists>s'. client_event sys inp s = Inr s' \<and> stuck s' \<and> s_log s' = s_log s \<and> s_alive s' = s_alive s"
proof -
  obtain bytes where b: "in_read inp = Some bytes" using assms(3) by blast
  have parse: "parseRequest bytes s = Inr (0, upd_client (\<lambda>c. c\<lparr>cl_request := Some (getRequest s),
      cl_buffer := cl_buffer c @ bytes\<rparr>) s)"
    using assms(1) by (simp add: stuck_def Let_def parseRequest_def)
  show ?thesis
  proof (cases "in_in inp")
    case True
    with assms b parse show ?thesis
      by (auto simp: client_event_def handleClientEvent_def handleClientIn_def after_parse_def
          stuck_def Let_def)
  next
    case False
    with assms show ?thesis
      by (auto simp: client_event_def handleClientEvent_def stuck_def Let_def)
  qed
qed

fun run_events :: "system \<Rightarrow> inputs list \<Rightarrow> session \<Rightarrow> fault + session" where
  "run_events sys [] s = Inr s"
| "run_events sys (i # is) s = and_then (client_event sys i s) (run_events sys is)"

text \<open>
  C26. A client left in writing mode without a response and without a script never gets an
  answer: whatever it sends, whatever happens on its socket short of a hang-up or an error,
  and however long it waits, nothing is sent and it is not closed.
\<close>

theorem stuck_client_never_answered:
  assumes "stuck s" and "list_all (\<lambda>i. \<not> in_hup i \<and> in_read i \<noteq> None) is"
  shows "\<exists>s'. run_events sys is s = Inr s' \<and> stuck s' \<and> s_log s' = s_log s \<and> s_alive s' = s_alive s \<and>
    checkTO sys elapsed s' = Inr s'"
  using assms
proof (induction "is" arbitrary: s)
  case Nil
  then show ?case by (simp add: stuck_def checkTO_def Let_def)
next
  case (Cons i "is")
  from stuck_step [OF Cons.prems(1), of i sys] Cons.prems(2) obtain s1 where
    "client_event sys i s = Inr s1" "stuck s1" "s_log s1 = s_log s" "s_alive s1 = s_alive s"
    by auto
  with Cons.IH [of s1] Cons.prems(2) show ?case by auto
qed

text \<open>A script that prints a header line without a colon leaves its client in this state.\<close>

definition bad_script_session :: session where
  "bad_script_session = upd_client (\<lambda>c. c\<lparr>cl_request := Some new_Request, cl_mode := CLIENT_MODE_WRITE,
     cl_headerStatus := HEADER_STATUS_DONE, cl_cgiProcess := Some (new_CGIProcess\<lparr>cg_pid := 9\<rparr>)\<rparr>) demo_session"

definition bad_script_output :: system where
  "bad_script_output = demo_system\<lparr>sys_read := (\<lambda>p. Some (''bad'' @ CRLF @ CRLF))\<rparr>"

lemma bad_script_leaves_stuck:
  "case client_event bad_script_output (demo_inputs\<lparr>in_wait := Some True\<rparr>) bad_script_session of
     Inl e \<Rightarrow> False | Inr s' \<Rightarrow> stuck s'"
  by code_simp

theorem stuck_client_never_answered_witness:
  "\<exists>s s'. client_event bad_script_output (demo_inputs\<lparr>in_wait := Some True\<rparr>) bad_script_session = Inr s \<and>
     run_events bad_script_output [demo_inputs\<lparr>in_read := Some ''x''\<rparr>] s = Inr s' \<and> stuck s'"
proof -
  obtain s where "client_event bad_script_output (demo_inputs\<lparr>in_wait := Some True\<rparr>) bad_script_session = Inr s"
    and "stuck s"
    using bad_script_leaves_stuck by (auto split: sum.splits)
  with stuck_client_never_answered [of s "[demo_inputs\<lparr>in_read := Some ''x''\<rparr>]" bad_script_output 0]
  show ?thesis by (auto simp: demo_inputs_def)
qed

section \<open>Accepted headers\<close>

text \<open>What \<open>admitted\<close> reads of a request.\<close>

definition agrees :: "http_method \<Rightarrow> Request \<Rightarrow> Request \<Rightarrow> bool" where
  "agrees m rq rq' \<longleftrightarrow>
     locationRules rq' = locationRules rq \<and> cgiRules rq' = cgiRules rq \<and> puri rq' = puri rq \<and>
     r_type rq' = r_type rq \<and> r_method rq' = r_method rq \<and>
     h_scriptPath (r_hints rq') = h_scriptPath (r_hints rq) \<and>
     (m \<noteq> POST \<and> m \<noteq> PUT \<longrightarrow> h_path (r_hints rq') = h_path (r_hints rq))"

lemma admitted_agrees: "agrees m rq rq' \<Longrightarrow> admitted sys h m rq \<Longrightarrow> admitted sys h m rq'"
  by (auto simp: agrees_def admitted_def split: if_splits)

lemma agrees_trans: "agrees m r1 r2 \<Longrightarrow> agrees m r2 r3 \<Longrightarrow> agrees m r1 r3"
  by (simp add: agrees_def)

text \<open>Two sessions of the same client, with the same rules for its request.\<close>

definition same_case :: "http_method \<Rightarrow> session \<Rightarrow> session \<Rightarrow> bool" where
  "same_case m s s' \<longleftrightarrow> getHost s' = getHost s \<and> agrees m (getRequest s) (getRequest s')"

lemma same_case_trans: "same_case m s1 s2 \<Longrightarrow> same_case m s2 s3 \<Longrightarrow> same_case m s1 s3"
  by (auto simp: same_case_def intro: agrees_trans)

lemma same_case_refl: "same_case m s s"
  by (simp add: same_case_def agrees_def)

lemma same_case_request: "agrees m (getRequest s) rq \<Longrightarrow> same_case m s (set_request rq s)"
  by (simp add: same_case_def)

lemma getHost_syscall [simp]: "getHost (syscall x s) = getHost s"
  by (simp add: getHost_def cong del: option.case_cong_weak)

lemma getRequest_syscall [simp]: "getRequest (syscall x s) = getRequest s"
  by (simp add: getRequest_def)

lemma same_case_forward: "same_case m s (forward_content_type s)"
  by (auto simp: forward_content_type_def Let_def set_hint_header_def add_hint_header_def same_case_refl agrees_def intro!: same_case_request)

lemma same_case_unlink: "same_case m s (set_unlink b s)"
  by (auto simp: set_unlink_def agrees_def intro!: same_case_request)

lemma same_case_bodyFile:
  "setBodyFile sys path s = Inr s' \<Longrightarrow> same_case m s s'"
  by (cases "cl_request (s_client s)"; cases "path = []")
    (auto simp: setBodyFile_def Let_def same_case_def agrees_def getRequest_def)

lemma same_case_upload:
  assumes "start_upload sys path exists st s = Inr (r, s')" and "m = POST \<or> m = PUT"
  shows "same_case m s s'"
proof -
  let ?s = "set_request (upd_hints (\<lambda>h. h\<lparr>h_alreadyExist := exists, h_status := st, h_path := path\<rparr>)
            (getRequest s)) s"
  obtain s1 where s1: "setBodyFile sys path ?s = Inr s1"
    and s': "s' = forward_content_type (set_unlink False s1)"
    using assms(1) unfolding start_upload_def and_then_eq_Inr by blast
  have "same_case m s ?s" using assms(2) by (auto simp: agrees_def intro!: same_case_request)
  from same_case_trans [OF this same_case_bodyFile [OF s1]] show ?thesis
    unfolding s' using same_case_unlink same_case_forward same_case_trans by meson
qed

lemma same_case_defineBody:
  assumes "defineBodyParsing sys s = Inr (r, s')" and "r_method (getRequest s) = Some m"
  shows "same_case m s s'"
proof -
  have store: "same_case m s s2"
    if "setBodyFile sys p s = Inr s1" and "s2 = forward_content_type s1 \<or> s2 = forward_content_type (set_unlink True s1)"
    for p s1 s2
    using that same_case_bodyFile same_case_unlink same_case_forward same_case_trans by meson
  consider (cgi) "r_type (getRequest s) = REQ_TYPE_CGI"
    | (up) "r_type (getRequest s) = REQ_TYPE_STATIC" "m = POST \<or> m = PUT"
    | (other) "r_type (getRequest s) \<noteq> REQ_TYPE_CGI"
        "\<not> (r_type (getRequest s) = REQ_TYPE_STATIC \<and> (m = POST \<or> m = PUT))"
    by blast
  then show ?thesis
  proof cases
    case cgi
    with assms(1) show ?thesis
      by (auto simp: defineBodyParsing_def Let_def and_then_eq_Inr neq_Nil_conv intro: store
          split: if_splits list.splits)
  next
    case up
    with assms show ?thesis
      by (auto simp: defineBodyParsing_def Let_def and_then_eq_Inr agrees_def
          intro: same_case_upload intro!: same_case_request split: if_splits fileSituation.splits)
  next
    case other
    with assms show ?thesis
      by (auto simp: defineBodyParsing_def Let_def and_then_eq_Inr intro: store)
  qed
qed

lemma same_case_continue:
  "checkContinue s = (r, s') \<Longrightarrow> same_case m s s'"
  by (auto simp: checkContinue_def Let_def same_case_refl agrees_def removeHeader_def set_verbose_def
      intro!: same_case_request split: if_splits)

lemma same_case_done:
  "same_case m s (setHeaderStatus st s)" "same_case m s (generateContinueResponse s)"
  by (simp_all add: same_case_def setHeaderStatus_def generateContinueResponse_def Let_def setMode_def
      getRequest_def agrees_def)

lemma same_case_finish:
  assumes "finish_headers sys s = Inr (res, s')" and "r_method (getRequest s) = Some m"
  shows "same_case m s s'"
proof (cases "checkContinue s")
  case (Pair r s1)
  have s1: "same_case m s s1" using Pair by (rule same_case_continue)
  then have m1: "r_method (getRequest s1) = Some m" using assms(2) by (simp add: same_case_def agrees_def)
  show ?thesis
  proof (cases "r \<noteq> 0 \<and> r \<noteq> RES_CONTINUE")
    case True
    with assms(1) Pair s1 show ?thesis by (simp add: finish_headers_def)
  next
    case False
    then obtain r2 s2 where
      s2: "(if h_cgiRedir (r_hints (getRequest s1)) = CGI_RES_NONE
            then defineBodyParsing sys s1 else Inr (0, s1)) = Inr (r2, s2)"
      and s': "s' = setHeaderStatus HEADER_STATUS_DONE s2 \<or>
         s' = generateContinueResponse (setHeaderStatus HEADER_STATUS_DONE s2)"
      using assms(1) Pair by (auto simp: finish_headers_def Let_def and_then_eq_Inr split: if_splits)
    have "same_case m s1 s2"
      using s2 same_case_defineBody [OF _ m1] by (auto simp: same_case_refl split: if_splits)
    with s1 s' same_case_done same_case_trans show ?thesis by meson
  qed
qed

lemma pass_zero:
  assumes "pass r f = Inr (0, s')"
  obtains s where "r = (0, s)" and "f s = Inr (0, s')"
  using assms by (cases r) (auto simp: pass_def split: if_splits)

text \<open>The checks before the rules of the host keep the method.\<close>

lemma parsed_uri_method: "parseURI rq = (r, rq') \<Longrightarrow> r_method rq' = r_method rq"
  by (auto simp: parseURI_def Let_def fillError_def split: prod.splits if_splits)

lemma assignHost_method:
  "assignHost s = Inr (0, s') \<Longrightarrow> r_method (getRequest s') = r_method (getRequest s)"
  by (auto simp: assignHost_def Let_def and_then_eq_Inr res_defs getRequest_def split: if_splits)

lemma checkForbidden_method: "checkForbiddenHeaders rq = (0, rq') \<Longrightarrow> r_method rq' = r_method rq"
  by (auto simp: checkForbiddenHeaders_def res_defs split: if_splits)

lemma checkBodyLength_method:
  "checkBodyLength s = Inr (0, s') \<Longrightarrow> r_method (getRequest s') = r_method (getRequest s)"
  by (auto simp: checkBodyLength_def Let_def and_then_eq_Inr res_defs setBodyStatus_def getRequest_def
      split: if_splits option.splits)

lemma headers_admitted:
  assumes "handleRequestHeaders sys s = Inr (0, s')" and "r_method (getRequest s) = Some m"
  shows "\<exists>h. getHost s' = Inr (Some h) \<and> admitted sys h m (getRequest s')"
proof -
  obtain r1 r2 r3 r4 r5 where a: "assignHost s = Inr r1"
    and b: "pass r1 (on_request (\<lambda>rq. Inr (parseURI rq))) = Inr r2"
    and c: "pass r2 (on_request (\<lambda>rq. Inr (checkForbiddenHeaders rq))) = Inr r3"
    and d: "pass r3 (\<lambda>s3. if h_cgiRedir (r_hints (getRequest s3)) = CGI_RES_NONE
                            then checkBodyLength s3 else Inr (0, s3)) = Inr r4"
    and e: "pass r4 (check_host_request sys) = Inr r5"
    and f: "pass r5 (finish_headers sys) = Inr (0, s')"
    using assms(1) unfolding handleRequestHeaders_def and_then_eq_Inr by blast
  from f obtain s5 where r5: "r5 = (0, s5)" and f: "finish_headers sys s5 = Inr (0, s')"
    by (rule pass_zero)
  from e [unfolded r5] obtain s4 where r4: "r4 = (0, s4)" and e: "check_host_request sys s4 = Inr (0, s5)"
    by (rule pass_zero)
  from d [unfolded r4] obtain s3 where r3: "r3 = (0, s3)"
    and d: "(if h_cgiRedir (r_hints (getRequest s3)) = CGI_RES_NONE
             then checkBodyLength s3 else Inr (0, s3)) = Inr (0, s4)"
    by (rule pass_zero)
  from c [unfolded r3] obtain s2 where r2: "r2 = (0, s2)"
    and c: "on_request (\<lambda>rq. Inr (checkForbiddenHeaders rq)) s2 = Inr (0, s3)"
    by (rule pass_zero)
  from b [unfolded r2] obtain s1 where r1: "r1 = (0, s1)"
    and b: "on_request (\<lambda>rq. Inr (parseURI rq)) s1 = Inr (0, s2)"
    by (rule pass_zero)
  have "r_method (getRequest s1) = Some m" using assignHost_method a assms(2) by (simp add: r1)
  then have "r_method (getRequest s2) = Some m"
    using b parsed_uri_method by (auto simp: on_request_def split: prod.splits)
  then have "r_method (getRequest s3) = Some m"
    using c checkForbidden_method by (auto simp: on_request_def split: prod.splits)
  then have m4: "r_method (getRequest s4) = Some m"
    using d checkBodyLength_method by (auto split: if_splits)
  obtain h rq5 where h: "getHost s4 = Inr (Some h)"
    and ck: "checkRequest sys h (getRequest s4) = Inr (0, rq5)" and s5: "s5 = set_request rq5 s4"
    using e by (auto simp: check_host_request_def on_request_def and_then_eq_Inr deref_def split: option.splits)
  have adm: "admitted sys h m rq5" using ck m4 by (rule checkRequest_admitted)
  have m5: "r_method (getRequest s5) = Some m" using checkRequest_method [OF ck] m4 by (simp add: s5)
  have "same_case m s5 s'" using f m5 by (rule same_case_finish)
  with adm h show ?thesis
    by (auto simp: same_case_def s5 intro: admitted_agrees)
qed

text \<open>
  C1. A request whose headers are accepted is permitted by the host its client is bound
  to: the method is allowed by the matched location (and script rules) of that host, an
  upload is only accepted where uploads are on, and the resource exists with the rights
  needed. This composes all the checks of \<open>handleRequestHeaders\<close>, the binding to the host
  that the \<open>Host\<close> header names included.
\<close>

theorem accepted_headers_permitted:
  assumes "handleRequestHeaders sys s = Inr (0, s')" and "r_method (getRequest s) = Some m"
  shows "\<exists>h. getHost s' = Inr (Some h) \<and> admitted sys h m (getRequest s')"
  using assms by (rule headers_admitted)

theorem accepted_headers_permitted_witness:
  "\<exists>h s'. handleRequestHeaders demo_system
       (set_request ((demo_request GET ''/a'')\<lparr>r_headers := [(''host'', ''a.com'')]\<rparr>) demo_session) = Inr (0, s') \<and>
     getHost s' = Inr (Some h) \<and> admitted demo_system h GET (getRequest s')"
proof -
  let ?s = "set_request ((demo_request GET ''/a'')\<lparr>r_headers := [(''host'', ''a.com'')]\<rparr>) demo_session"
  have "case handleRequestHeaders demo_system ?s of Inl e \<Rightarrow> False | Inr (res, s') \<Rightarrow> res = 0"
    by code_simp
  then obtain s' where h: "handleRequestHeaders demo_system ?s = Inr (0, s')"
    by (auto split: sum.splits prod.splits)
  have "r_method (getRequest ?s) = Some GET" by code_simp
  from accepted_headers_permitted [OF h this] h show ?thesis by blast
qed

section \<open>A response is delivered\<close>

text \<open>The socket takes a whole piece.\<close>

definition takes :: "inputs \<Rightarrow> string \<Rightarrow> bool" where
  "takes inp piece \<longleftrightarrow> \<not> in_hup inp \<and> \<not> in_in inp \<and> in_out inp \<and> in_write inp = int (length piece)"

text \<open>
  A client whose complete answer, the last on its connection, is being sent; the host and the
  server it points to are still there.
\<close>

definition sending :: "session \<Rightarrow> bool" where
  "sending s \<longleftrightarrow> closing_response s \<and> cl_mode (s_client s) = CLIENT_MODE_WRITE \<and>
     cl_cgiProcess (s_client s) = None \<and> linked (cl_id (s_client s)) (s_world s)"

lemma getRequest_outBuffers [simp]:
  "getRequest (upd_client (\<lambda>c. c\<lparr>cl_outBuffers := b\<rparr>) s) = getRequest s"
  by (simp add: getRequest_def)

lemma send_piece:
  assumes "sending s" and "takes inp piece" and "cl_outBuffers (s_client s) = piece # next # rest"
  shows "client_event sys inp s = Inr (syscall (Send (cl_fd (s_client s)) piece)
    (upd_client (\<lambda>c. c\<lparr>cl_outBuffers := next # rest\<rparr>) s))"
proof -
  obtain r where "cl_response (s_client s) = Some r"
    using assms(1) by (auto simp: sending_def closing_response_def)
  with assms show ?thesis
    by (simp add: sending_def takes_def client_event_def handleClientEvent_def Let_def
        handleClientOut_def after_write_def on_sent_def)
qed

lemma send_last:
  assumes "sending s" and "takes inp piece" and "cl_outBuffers (s_client s) = [piece]"
  shows "\<exists>s'. client_event sys inp s = Inr s' \<and> \<not> s_alive s' \<and>
    s_log s' = s_log s @ [Send (cl_fd (s_client s)) piece, EpollDel (cl_fd (s_client s))] @
      unlinked_by_clear s @ [Close (cl_fd (s_client s))]"
proof -
  obtain resp where r: "cl_response (s_client s) = Some resp" "rs_status resp \<noteq> RES_CONTINUE"
    and c: "map_find i_less ''connection'' (h_headers (r_hints (getRequest s))) = Some ''close''"
    using assms(1) by (auto simp: sending_def closing_response_def)
  let ?s = "syscall (Send (cl_fd (s_client s)) piece) (upd_client (\<lambda>c. c\<lparr>cl_outBuffers := []\<rparr>) s)"
  let ?rq = "upd_hints (\<lambda>h. h\<lparr>h_headers :=
      map_insert i_less ''connection'' [] (h_headers h)\<rparr>) (getRequest s)"
  have out: "handleClientOut inp s = Inr (SITUATION_CLOSE, set_request ?rq ?s)"
    using assms(2,3) r c by (simp add: takes_def handleClientOut_def after_write_def Let_def map_at_def)
  have "client_event sys inp s = terminate (set_request ?rq ?s)"
    using assms r out
    by (auto simp: sending_def takes_def client_event_def handleClientEvent_def Let_def on_sent_def
        and_then_def split: sum.splits)
  moreover have "cgi_has_request (set_request ?rq ?s)" by (simp add: cgi_has_request_def)
  moreover have "unlinked_by_clear (set_request ?rq ?s) = unlinked_by_clear s"
    using c by (cases "cl_request (s_client s)")
      (auto simp: unlinked_by_clear_def getRequest_def new_Request_def new_ResHints_def)
  ultimately show ?thesis
    using terminate_result [of "set_request ?rq ?s"] assms(1) by (auto simp: sending_def)
qed

text \<open>One event per piece sends the queue and then closes the connection.\<close>

lemma answer_delivered:
  assumes "sending s" and "cl_outBuffers (s_client s) = pieces" and "pieces \<noteq> []"
    and "list_all2 takes inps pieces"
  shows "\<exists>s'. run_events sys inps s = Inr s' \<and> \<not> s_alive s' \<and>
    s_log s' = s_log s @ map (Send (cl_fd (s_client s))) pieces @
      [EpollDel (cl_fd (s_client s))] @ unlinked_by_clear s @ [Close (cl_fd (s_client s))]"
  using assms
proof (induction pieces arbitrary: s inps)
  case Nil
  then show ?case by simp
next
  case (Cons piece rest)
  from Cons.prems(4) obtain i is' where inps: "inps = i # is'" "takes i piece" "list_all2 takes is' rest"
    by (auto simp: list_all2_Cons2)
  show ?case
  proof (cases rest)
    case Nil
    with send_last [OF Cons.prems(1) inps(2), of sys] Cons.prems(2) inps show ?thesis by auto
  next
    case (Cons nxt more)
    let ?s = "syscall (Send (cl_fd (s_client s)) piece)
      (upd_client (\<lambda>c. c\<lparr>cl_outBuffers := nxt # more\<rparr>) s)"
    have "client_event sys i s = Inr ?s"
      using Cons.prems(1) inps(2) Cons.prems(2) Cons by (intro send_piece) simp_all
    moreover have "sending ?s"
      using Cons.prems(1) by (simp add: sending_def closing_response_def getRequest_def)
    moreover have "unlinked_by_clear ?s = unlinked_by_clear s"
      by (simp add: unlinked_by_clear_def Let_def split: option.split)
    ultimately show ?thesis
      using Cons.IH [of ?s is'] inps Cons by auto
  qed
qed

text \<open>
  C10. The answer that closes a connection, a complete one whose \<open>Connection\<close> header is
  \<open>close\<close>, is delivered: if no script runs, the host and the server of the client are there and
  the socket takes each piece whole, then after one event per piece exactly the queued pieces
  have been sent, in order, before the connection is closed.
\<close>

theorem closing_answer_delivered:
  assumes "sending s" and "cl_outBuffers (s_client s) = pieces" and "pieces \<noteq> []"
    and "list_all2 takes inps pieces"
  shows "\<exists>s'. run_events sys inps s = Inr s' \<and> \<not> s_alive s' \<and>
    s_log s' = s_log s @ map (Send (cl_fd (s_client s))) pieces @
      [EpollDel (cl_fd (s_client s))] @ unlinked_by_clear s @ [Close (cl_fd (s_client s))]"
  using assms by (rule answer_delivered)

definition sending_session :: session where
  "sending_session = upd_client (\<lambda>c. c\<lparr>cl_mode := CLIENT_MODE_WRITE,
     cl_response := Some (DynamicResponse 404 [] ''no''),
     cl_request := Some (upd_hints (\<lambda>h. h\<lparr>h_headers := [(''connection'', ''close'')]\<rparr>) new_Request),
     cl_outBuffers := [''head'', ''body'']\<rparr>) demo_session"

theorem closing_answer_delivered_witness:
  "\<exists>s'. run_events demo_system [demo_inputs\<lparr>in_write := 4\<rparr>, demo_inputs\<lparr>in_write := 4\<rparr>] sending_session = Inr s' \<and>
     \<not> s_alive s' \<and> s_log s' = [Send 5 ''head'', Send 5 ''body'', EpollDel 5, Close 5]"
proof -
  have "map_find i_less ''connection'' [(''connection'', ''close'')] = Some ''close''" by code_simp
  then have "sending sending_session"
    by (simp add: sending_def closing_response_def sending_session_def getRequest_def res_defs
        demo_session_def new_session_def new_Client_def linked_def busy_world_def demo_world_def upd_assoc_def)
  from closing_answer_delivered [OF this, of "[''head'', ''body'']"
      "[demo_inputs\<lparr>in_write := 4\<rparr>, demo_inputs\<lparr>in_write := 4\<rparr>]" demo_system]
  show ?thesis
    by (auto simp: sending_session_def takes_def demo_inputs_def demo_session_def new_session_def
        new_Client_def unlinked_by_clear_def new_Request_def new_ResHints_def)
qed

section \<open>An error answer is sent and closes the connection\<close>

lemma linked_getHost: "linked (cl_id (s_client s)) (s_world s) \<Longrightarrow> \<exists>host. getHost s = Inr host"
  by (auto simp: linked_def getHost_def deref_def and_then_def split: option.splits)

lemma genResponse_class:
  "genResponse sys h = Inr (resp, h') \<Longrightarrow> h_status h \<noteq> 100 \<Longrightarrow> \<forall>st d line. resp \<noteq> SingleLineResponse st d line"
  by (auto simp: genResponse_def and_then_eq_Inr split: if_splits)

lemma queue_not_empty: "\<forall>st d line. resp \<noteq> SingleLineResponse st d line \<Longrightarrow> writeResponse h resp q \<noteq> []"
  by (cases resp) (simp_all add: write_headers_def format_response_headers_def portions.simps)

text \<open>What generating an answer leaves as it was.\<close>

definition same_place :: "session \<Rightarrow> session \<Rightarrow> bool" where
  "same_place s s' \<longleftrightarrow> s_world s' = s_world s \<and> s_log s' = s_log s \<and>
     cl_id (s_client s') = cl_id (s_client s) \<and> cl_fd (s_client s') = cl_fd (s_client s) \<and>
     cl_cgiProcess (s_client s') = cl_cgiProcess (s_client s)"

text \<open>The queue holds an error answer and nothing else.\<close>

definition error_queued :: "session \<Rightarrow> bool" where
  "error_queued s \<longleftrightarrow> cl_mode (s_client s) = CLIENT_MODE_WRITE \<and> cl_outBuffers (s_client s) \<noteq> [] \<and>
     (\<exists>resp. cl_response (s_client s) = Some resp \<and> 400 \<le> rs_status resp \<and>
        concat (cl_outBuffers (s_client s)) = response_bytes (r_hints (getRequest s)) resp)"

lemma queue_bytes: "concat (writeResponse h resp q) = concat q @ response_bytes h resp"
  by (cases resp) (simp_all add: write_headers_def response_bytes_def)

lemma attempt_queued:
  assumes "attempt sys status s = Inr (ok, s')" and "400 \<le> answered_status status (getRequest s)"
    and "cl_outBuffers (s_client s) = []"
  shows "same_place s s' \<and> (if ok then error_queued s' else cl_outBuffers (s_client s') = [])"
proof -
  let ?rq1 = "if status \<noteq> 0 then set_status status (getRequest s) else getRequest s"
  obtain host where host: "getHost s = Inr host"
    using assms(1) by (cases "getHost s") (auto simp: attempt_def Let_def)
  let ?rq = "fillResponse (s_error_pages s) host ?rq1"
  have st: "400 \<le> h_status (r_hints ?rq)" using assms(2) by (simp add: attempt_request)
  show ?thesis
  proof (cases "genResponse sys (r_hints ?rq)")
    case (Inl e)
    with assms(1,3) host show ?thesis
      by (auto simp: attempt_def Let_def clearResponse_def setResponse_def same_place_def split: if_splits)
  next
    case (Inr r)
    obtain resp h' where r: "r = (resp, h')" by (cases r)
    have "400 \<le> rs_status resp" using genResponse_status [OF Inr [unfolded r]] st by simp
    moreover have "writeResponse h' resp [] \<noteq> []"
      using genResponse_class [OF Inr [unfolded r]] st by (intro queue_not_empty) simp
    moreover have "ok" and "s' = setMode CLIENT_MODE_WRITE
        (upd_client (\<lambda>c. c\<lparr>cl_request := Some (?rq\<lparr>r_hints := h'\<rparr>),
           cl_outBuffers := writeResponse h' resp (cl_outBuffers c), cl_response := Some resp\<rparr>) s)"
      using assms(1) host Inr r by (auto simp: attempt_def Let_def)
    ultimately show ?thesis
      using assms(3) by (simp add: setMode_def same_place_def error_queued_def getRequest_def queue_bytes)
  qed
qed

lemma generateResponse_queued:
  assumes "generateResponse sys status s = Inr (0, s')" and "cl_response (s_client s) = None"
    and "400 \<le> answered_status status (getRequest s)" and "cl_outBuffers (s_client s) = []"
  shows "same_place s s' \<and> error_queued s'"
proof -
  let ?s = "set_request (getRequest s) s"
  obtain ok s1 where a: "attempt sys status ?s = Inr (ok, s1)"
    using assms(1,2) by (auto simp: generateResponse_def and_then_eq_Inr)
  have q1: "same_place ?s s1 \<and> (if ok then error_queued s1 else cl_outBuffers (s_client s1) = [])"
    by (rule attempt_queued [OF a]) (simp_all add: assms(3,4))
  have s: "same_place s t" if "same_place ?s t" for t using that by (simp add: same_place_def)
  show ?thesis
  proof (cases ok)
    case True
    with assms(1,2) a q1 s show ?thesis by (simp add: generateResponse_def)
  next
    case False
    then obtain ok2 s2 where b: "attempt sys RES_INTERNAL_ERROR s1 = Inr (ok2, s2)"
      using assms(1,2) a by (auto simp: generateResponse_def and_then_eq_Inr split: if_splits)
    have "same_place s1 s2 \<and> (if ok2 then error_queued s2 else cl_outBuffers (s_client s2) = [])"
      using q1 False by (intro attempt_queued [OF b]) (simp_all add: answered_status_def res_defs)
    with assms(1,2) a b False q1 show ?thesis
      by (auto simp: generateResponse_def same_place_def split: if_splits)
  qed
qed

text \<open>
  C34. An error answer ends the connection. When a client with nothing queued, no response and
  no script is answered with a status of 400 or more, \<open>generateResponse\<close> succeeds and queues
  the bytes of an error response; if the socket takes each piece whole, one event per piece
  sends exactly these bytes, takes the client off epoll and the lists, and closes its socket.
\<close>

theorem error_response_closes:
  assumes "cl_response (s_client s) = None" and "cl_outBuffers (s_client s) = []"
    and "hints_ordered (getRequest s)" and "400 \<le> answered_status status (getRequest s)"
    and "cl_cgiProcess (s_client s) = None" and "linked (cl_id (s_client s)) (s_world s)"
  shows "\<exists>s'. generateResponse sys status s = Inr (0, s') \<and> error_queued s' \<and>
    (\<forall>inps. list_all2 takes inps (cl_outBuffers (s_client s')) \<longrightarrow>
       (\<exists>s''. run_events sys inps s' = Inr s'' \<and> \<not> s_alive s'' \<and>
          s_log s'' = s_log s @ map (Send (cl_fd (s_client s))) (cl_outBuffers (s_client s')) @
            [EpollDel (cl_fd (s_client s))] @ unlinked_by_clear s' @ [Close (cl_fd (s_client s))]))"
proof -
  obtain host where "getHost s = Inr host" using linked_getHost [OF assms(6)] by blast
  moreover have "answered_status status (getRequest s) div 100 \<noteq> 3" using assms(4) by linarith
  ultimately obtain s' where g: "generateResponse sys status s = Inr (0, s')"
    using generateResponse_responds [OF _ assms(1,3), of host status sys] by blast
  have place: "same_place s s'" and q: "error_queued s'"
    using generateResponse_queued [OF g assms(1,4,2)] by simp_all
  have "sending s'"
    using generateResponse_closing [OF g assms(1,3,4)] q place assms(5,6)
    by (simp add: sending_def error_queued_def same_place_def)
  from answer_delivered [OF this refl] g q place show ?thesis
    by (auto simp: error_queued_def same_place_def)
qed

theorem error_response_closes_witness:
  "\<exists>s' inps s''. generateResponse demo_system 404 demo_session = Inr (0, s') \<and> error_queued s' \<and>
     run_events demo_system inps s' = Inr s'' \<and> \<not> s_alive s''"
proof -
  have takes: "list_all2 takes (map (\<lambda>p. demo_inputs\<lparr>in_write := int (length p)\<rparr>) q) q" for q
    by (simp add: list_all2_map1 takes_def demo_inputs_def list_all2_refl)
  have d: "cl_outBuffers (s_client demo_session) = []" "cl_cgiProcess (s_client demo_session) = None"
    "linked (cl_id (s_client demo_session)) (s_world demo_session)"
    by (simp_all add: demo_session_def new_session_def new_Client_def linked_def busy_world_def demo_world_def upd_assoc_def)
  have "400 \<le> answered_status 404 (getRequest demo_session)" by (simp add: demo_session_facts(3))
  from error_response_closes [OF demo_session_facts(1) d(1) demo_session_facts(2) this d(2,3), of demo_system]
  obtain s' where g: "generateResponse demo_system 404 demo_session = Inr (0, s')" "error_queued s'"
    and runs: "\<forall>inps. list_all2 takes inps (cl_outBuffers (s_client s')) \<longrightarrow>
      (\<exists>s''. run_events demo_system inps s' = Inr s'' \<and> \<not> s_alive s'')"
    by blast
  from runs takes g show ?thesis by blast
qed

end
