(* ===== verification/Request_Maps.thy ===== *)
theory Request_Maps
  imports Control
begin

text \<open>
  What parsing and checking a request do to its two header maps, the one received and the one of
  the answer: they stay ordered, as \<open>std::map\<close> keeps them, and the checks of a host leave both
  alone.
\<close>

section \<open>Requests\<close>

text \<open>The maps of a request, as \<open>std::map\<close> keeps them.\<close>

definition request_ok :: "Request \<Rightarrow> bool" where
  "request_ok rq \<longleftrightarrow> hints_ordered rq \<and> map_ordered i_less (r_headers rq)"

named_theorems request_ok_intros

text \<open>An operation that leaves the headers of the request and of its answer alone.\<close>

definition same_maps :: "Request \<Rightarrow> Request \<Rightarrow> bool" where
  "same_maps rq rq' \<longleftrightarrow>
     h_headers (r_hints rq') = h_headers (r_hints rq) \<and> r_headers rq' = r_headers rq"

lemma same_maps_ok: "same_maps rq rq' \<Longrightarrow> request_ok rq' = request_ok rq"
  by (simp add: same_maps_def request_ok_def hints_ordered_def)

lemma same_maps_trans: "same_maps r1 r2 \<Longrightarrow> same_maps r2 r3 \<Longrightarrow> same_maps r1 r3"
  by (simp add: same_maps_def)

lemma same_maps_refl [simp]: "same_maps rq rq"
  by (simp add: same_maps_def)

lemma fillError_maps [simp]: "fillError st msg rq = (e, rq') \<Longrightarrow> same_maps rq rq'"
  by (auto simp: fillError_def same_maps_def)

lemma request_ok_simps [simp]:
  "request_ok (rq\<lparr>r_line := l\<rparr>) = request_ok rq" "request_ok (rq\<lparr>r_status := ps\<rparr>) = request_ok rq"
  "request_ok (rq\<lparr>r_method := m\<rparr>) = request_ok rq" "request_ok (rq\<lparr>r_uri := u\<rparr>) = request_ok rq"
  "request_ok (rq\<lparr>r_final_status := f\<rparr>) = request_ok rq" "request_ok (rq\<lparr>r_b_status := b\<rparr>) = request_ok rq"
  "request_ok (rq\<lparr>r_len := n\<rparr>) = request_ok rq" "request_ok (rq\<lparr>r_header_size := n\<rparr>) = request_ok rq"
  "request_ok (rq\<lparr>r_chunked_body_size := n\<rparr>) = request_ok rq"
  "request_ok (rq\<lparr>r_chunked_status := c\<rparr>) = request_ok rq"
  "request_ok (rq\<lparr>r_trailer_status := t\<rparr>) = request_ok rq"
  "request_ok (rq\<lparr>r_trailer_size := n\<rparr>) = request_ok rq"
  "request_ok (rq\<lparr>r_content_length := n\<rparr>) = request_ok rq"
  "request_ok (rq\<lparr>r_chunked := c\<rparr>) = request_ok rq" "request_ok (rq\<lparr>r_body_max_size := n\<rparr>) = request_ok rq"
  "request_ok (rq\<lparr>r_type := ty\<rparr>) = request_ok rq"
  "request_ok (set_status st rq) = request_ok rq" "request_ok (set_verbose v rq) = request_ok rq"
  "request_ok (set_uri_parts up rq) = request_ok rq"
  by (simp_all add: request_ok_def hints_ordered_def set_verbose_def)

lemma fillError_ok [simp]: "fillError st msg rq = (e, rq') \<Longrightarrow> request_ok rq' = request_ok rq"
  by (auto simp: fillError_def request_ok_def hints_ordered_def)

lemma getLine_ok: "getLine rq b = (r, rq', b') \<Longrightarrow> request_ok rq' = request_ok rq"
  by (auto simp: getLine_def Let_def split: option.splits)

lemma checkSizes_ok: "checkSizes rq = (r, rq') \<Longrightarrow> request_ok rq' = request_ok rq"
  by (auto simp: checkSizes_def split: if_splits)

lemma add_header_ok: "map_ordered i_less m \<Longrightarrow> map_ordered i_less (add_header name val m)"
  by (simp add: add_header_def)

lemma header_line_typed: "header_line rq = (r, rq') \<Longrightarrow> request_ok rq \<Longrightarrow> request_ok rq'"
  by (auto simp: header_line_def request_ok_def hints_ordered_def add_header_ok fillError_def
      split: prod.splits if_splits)

lemma trailer_line_ok: "trailer_line rq = (r, rq') \<Longrightarrow> request_ok rq \<Longrightarrow> request_ok rq'"
  by (auto simp: trailer_line_def request_ok_def hints_ordered_def add_header_ok fillError_def
      split: prod.splits if_splits)

lemma header_lines_ok: "header_lines rq b = (r, rq', b') \<Longrightarrow> request_ok rq \<Longrightarrow> request_ok rq'"
proof (induction rq b rule: header_lines.induct)
  case (1 rq b)
  obtain r1 rq1 b1 where g: "getLine rq b = (r1, rq1, b1)" by (cases "getLine rq b")
  obtain r2 rq2 where h: "header_line rq1 = (r2, rq2)" by (cases "header_line rq1")
  have ok: "request_ok rq1" "request_ok rq2"
    using getLine_ok [OF g] header_line_typed [OF h] 1(3) by auto
  show ?case
    using 1 g h ok
    by (subst (asm) (2) header_lines.simps)
      (auto split: if_splits prod.splits dest: checkSizes_ok)
qed

lemma trailer_lines_ok: "trailer_lines rq b = (r, rq', b') \<Longrightarrow> request_ok rq \<Longrightarrow> request_ok rq'"
proof (induction rq b rule: trailer_lines.induct)
  case (1 rq b)
  obtain r1 rq1 b1 where g: "getLine rq b = (r1, rq1, b1)" by (cases "getLine rq b")
  obtain r2 rq2 where h: "trailer_line rq1 = (r2, rq2)" by (cases "trailer_line rq1")
  have ok: "request_ok rq1" "request_ok rq2"
    using getLine_ok [OF g] trailer_line_ok [OF h] 1(3) by auto
  show ?case
    using 1 g h ok
    by (subst (asm) (2) trailer_lines.simps)
      (auto split: if_splits prod.splits dest: checkSizes_ok)
qed

lemma parseRequestLine_typed: "parseRequestLine rq = Inr (r, rq') \<Longrightarrow> request_ok rq' = request_ok rq"
  by (auto simp: parseRequestLine_def Let_def and_then_eq_Inr split: option.splits if_splits)

lemma parseHeaders_ok: "request_ok rq \<Longrightarrow> gives (\<lambda>(r, rq', b'). request_ok rq') (parseHeaders rq b)"
proof -
  assume "request_ok rq"
  then have "parseHeaders rq b = Inr (r, rq', b') \<Longrightarrow> request_ok rq'" for r rq' b'
    by (auto simp: parseHeaders_def Let_def and_then_eq_Inr
        split: if_splits prod.splits dest!: getLine_ok checkSizes_ok parseRequestLine_typed header_lines_ok)
  then show ?thesis by (cases "parseHeaders rq b") auto
qed

lemma getChunkedSize_ok: "getChunkedSize rq b = (r, rq', b') \<Longrightarrow> request_ok rq' = request_ok rq"
  by (auto simp: getChunkedSize_def split: if_splits prod.splits dest: getLine_ok)

lemma chunk_loop_ok: "chunk_loop rq fs b = (r, (rq', fs'), b') \<Longrightarrow> request_ok rq \<Longrightarrow> request_ok rq'"
proof (induction rq fs b rule: chunk_loop.induct)
  case (1 rq fs b)
  obtain r1 rq1 b1 where c: "getChunkedSize rq b = (r1, rq1, b1)" by (cases "getChunkedSize rq b")
  obtain r2 rq2 b2 where g: "getLine rq1 b1 = (r2, rq2, b2)" by (cases "getLine rq1 b1")
  have ok: "request_ok rq1" "request_ok rq2"
    using getChunkedSize_ok [OF c] getLine_ok [OF g] 1(3) by auto
  show ?case
    using 1 c g ok
    by (subst (asm) (2) chunk_loop.simps) (auto split: if_splits prod.splits dest: checkSizes_ok)
qed

lemma parseInput_ok:
  assumes "parseInput (rq, fs) b = (r, (rq', fs'), b')" and "request_ok rq"
  shows "request_ok rq'"
proof -
  obtain r1 rq1 fs1 b1 where p: "parseBody (rq, fs) b = (r1, (rq1, fs1), b1)"
    by (cases "parseBody (rq, fs) b") auto
  then have "request_ok rq1"
    using assms(2)
    by (auto simp: parseBody_def parseChunked_def parseMesured_def Let_def
        split: if_splits dest!: chunk_loop_ok)
  then show ?thesis
    using assms p
    by (auto simp: parseInput_def parseTrailerHeaders_def split: if_splits prod.splits dest!: trailer_lines_ok)
qed

section \<open>The checks of a host\<close>

lemma upd_hints_maps: "(\<And>h. h_headers (f h) = h_headers h) \<Longrightarrow> same_maps rq (upd_hints f rq)"
  by (simp add: same_maps_def)

lemma extractPathInfo_maps: "extractPathInfo ext rq = Inr rq' \<Longrightarrow> same_maps rq rq'"
  by (auto simp: extractPathInfo_def Let_def and_then_eq_Inr same_maps_def split: option.splits prod.splits)

lemma parseURI_maps: "same_maps rq (snd (parseURI rq))"
  by (simp add: parseURI_def fillError_def same_maps_def Let_def split: prod.splits)

lemma parseURI_suffix_maps: "same_maps rq (snd (parseURI_suffix suf rq))"
  using parseURI_maps [of "rq\<lparr>r_uri := r_uri rq @ suf\<rparr>"] by (simp add: parseURI_suffix_def same_maps_def)

lemma matchRequest_maps:
  assumes "matchRequest h rq = Inr (res, rq')"
  shows "same_maps rq rq' \<and> res div 100 \<noteq> 3"
proof (cases "matchCGIConfig h (u_path (puri rq))")
  case None
  with assms show ?thesis
    by (auto simp: matchRequest_def Let_def setter_defs same_maps_def res_defs split: if_splits)
next
  case (Some c)
  let ?rqc = "set_type REQ_TYPE_CGI (set_cgiRules (Some c)
      (set_locationRules (matchLocation h (u_path (puri rq))) rq))"
  have kept: "same_maps rq ?rqc" by (simp add: same_maps_def setter_defs)
  from assms Some obtain rq2 where ex: "extractPathInfo (c_extension c) ?rqc = Inr rq2"
    and "res = 0" "rq' = rq2 \<or> rq' = set_locationRules (matchLocation h (u_path (puri rq2))) rq2"
    unfolding matchRequest_def Let_def by (auto simp: and_then_eq_Inr setter_defs split: if_splits)
  with same_maps_trans [OF kept extractPathInfo_maps [OF ex]] show ?thesis
    by (auto simp: same_maps_def setter_defs)
qed

lemma checkRedirection_maps: "checkRedirection rq = Inr (res, rq') \<Longrightarrow> same_maps rq rq'"
  by (cases "locationRules rq") (auto simp: checkRedirection_def same_maps_def Let_def split: if_splits)

lemma checkDirRessource_maps:
  assumes "checkDirRessource h rq = Inr (res, rq')"
  shows "same_maps rq rq' \<and> res div 100 \<noteq> 3"
proof -
  obtain l where l: "locationRules rq = Some l"
    using assms by (cases "locationRules rq") (auto simp: checkDirRessource_def)
  show ?thesis
  proof (cases "l_default_uri l = []")
    case True
    with assms l show ?thesis
      by (auto simp: checkDirRessource_def same_maps_def res_defs split: if_splits)
  next
    case False
    then obtain r where m: "matchRequest h (snd (parseURI_suffix (l_default_uri l) rq)) = Inr (r, rq')"
      and res: "res = (if r \<noteq> 0 then RES_NOT_FOUND else 0)"
      using assms l by (auto simp: checkDirRessource_def and_then_eq_Inr)
    with same_maps_trans [OF parseURI_suffix_maps] matchRequest_maps [OF m] show ?thesis
      by (auto simp: res_defs)
  qed
qed

lemma checkLocationRules_maps:
  "checkLocationRules rq = Inr (res, rq') \<Longrightarrow> same_maps rq rq' \<and> res div 100 \<noteq> 3"
  by (cases "locationRules rq"; cases "r_method rq")
    (auto simp: checkLocationRules_def method_bit_def same_maps_def res_defs split: if_splits)

lemma checkCGIRules_maps:
  "checkCGIRules rq = Inr (res, rq') \<Longrightarrow> same_maps rq rq' \<and> res div 100 \<noteq> 3"
  by (cases "cgiRules rq"; cases "r_method rq")
    (auto simp: checkCGIRules_def method_bit_def same_maps_def res_defs split: if_splits)

lemma checkRessourceExistence_maps:
  assumes "checkRessourceExistence sys rq = Inr (res, rq')"
  shows "same_maps rq rq' \<and> res div 100 \<noteq> 3"
proof -
  have path: "checkRessourcePath sys p t w div 100 \<noteq> 3" for p t w
    by (simp add: checkRessourcePath_def res_defs split: option.split)
  with assms show ?thesis
    by (cases "locationRules rq"; cases "cgiRules rq")
      (auto simp: checkRessourceExistence_def same_maps_def Let_def split: if_splits)
qed

lemma step_maps:
  assumes "step_if c f r = Inr r'" and "same_maps rq (snd r)"
    and "\<And>res rq'. f (snd r) = Inr (res, rq') \<Longrightarrow> same_maps (snd r) rq'"
  shows "same_maps rq (snd r')"
  using assms same_maps_trans by (cases r') (auto simp: step_if_def split: if_splits)

lemma checkRequest_maps:
  assumes "checkRequest sys h rq = Inr r"
  shows "same_maps rq (snd r)"
proof -
  from assms obtain r1 r2 r3 r4 r5 where s: "matchRequest h rq = Inr r1"
    "step_if (locationRules (snd r1) \<noteq> None) checkRedirection r1 = Inr r2"
    "step_if (r_type (snd r2) = REQ_TYPE_DIR) (checkDirRessource h) r2 = Inr r3"
    "step_if (locationRules (snd r3) \<noteq> None) checkLocationRules r3 = Inr r4"
    "step_if (r_type (snd r4) = REQ_TYPE_CGI) checkCGIRules r4 = Inr r5"
    "step_if True (checkRessourceExistence sys) r5 = Inr r"
    by (rule checkRequest_steps)
  have "same_maps rq (snd r1)" using matchRequest_maps [of h rq "fst r1" "snd r1"] s(1) by simp
  from step_maps [OF s(2) this checkRedirection_maps] have "same_maps rq (snd r2)" .
  from step_maps [OF s(3) this] checkDirRessource_maps have "same_maps rq (snd r3)" by blast
  from step_maps [OF s(4) this] checkLocationRules_maps have "same_maps rq (snd r4)" by blast
  from step_maps [OF s(5) this] checkCGIRules_maps have "same_maps rq (snd r5)" by blast
  from step_maps [OF s(6) this] checkRessourceExistence_maps show ?thesis by blast
qed

end
