(* ===== verification/Session.thy ===== *)
theory Session
  imports Request_Maps
begin

text \<open>
  The invariant of a connection. Every operation of Client and Control keeps \<open>session_ok\<close>,
  whatever invariant of the lists of servers, hosts and clients it is combined with, as long as
  binding a client and dropping one keep that (locale \<open>connection\<close>). \<open>keeps\<close> and \<open>keeps1\<close> say that
  an operation raises a fault or gives a session in which it holds.
\<close>

section \<open>The invariant\<close>

text \<open>
  A client as the code keeps it: the header maps of the request and of its answer are ordered,
  and a client that runs a script has the request the script answers. A session adds what is
  known of the lists: \<open>linv c alive w\<close>, for the client \<open>c\<close>, whether it is still there, and the
  world.
\<close>

definition client_ok :: "Client \<Rightarrow> bool" where
  "client_ok c \<longleftrightarrow>
     (case cl_request c of None \<Rightarrow> cl_cgiProcess c = None | Some rq \<Rightarrow> request_ok rq)"

definition session_ok :: "(nat \<Rightarrow> bool \<Rightarrow> world \<Rightarrow> bool) \<Rightarrow> session \<Rightarrow> bool" where
  "session_ok linv s \<longleftrightarrow> client_ok (s_client s) \<and> linv (cl_id (s_client s)) (s_alive s) (s_world s)"

lemma new_request_ok [simp]: "request_ok new_Request"
  by (simp add: request_ok_def hints_ordered_def new_Request_def new_ResHints_def)

lemma client_ok_frames [simp]:
  "client_ok (c\<lparr>cl_mode := m\<rparr>) = client_ok c" "client_ok (c\<lparr>cl_headerStatus := h\<rparr>) = client_ok c"
  "client_ok (c\<lparr>cl_bodyStatus := b\<rparr>) = client_ok c" "client_ok (c\<lparr>cl_response := r\<rparr>) = client_ok c"
  "client_ok (c\<lparr>cl_buffer := buf\<rparr>) = client_ok c" "client_ok (c\<lparr>cl_bodyStream := os\<rparr>) = client_ok c"
  "client_ok (c\<lparr>cl_bodyFileName := n\<rparr>) = client_ok c" "client_ok (c\<lparr>cl_outBuffers := q\<rparr>) = client_ok c"
  by (simp_all add: client_ok_def split: option.split)

lemma client_ok_request [simp]: "client_ok (c\<lparr>cl_request := Some rq\<rparr>) = request_ok rq"
  by (simp add: client_ok_def)

lemma client_ok_no_cgi [simp]: "client_ok c \<Longrightarrow> client_ok (c\<lparr>cl_cgiProcess := None\<rparr>)"
  by (simp add: client_ok_def split: option.splits)

lemma request_ok_hints [simp]:
  "request_ok (rq\<lparr>r_hints := h\<rparr>) \<longleftrightarrow>
     map_ordered i_less (h_headers h) \<and> map_ordered i_less (r_headers rq)"
  by (simp add: request_ok_def hints_ordered_def)

lemma request_ok_hint [simp]: "request_ok rq \<Longrightarrow> request_ok (set_hint_header k v rq)"
  by (simp add: request_ok_def set_hint_header_def add_hint_header_def hints_ordered_def)

lemma request_ok_remove [simp]: "request_ok rq \<Longrightarrow> request_ok (removeHeader k rq)"
  by (simp add: request_ok_def hints_ordered_def removeHeader_def)

section \<open>Answers and scripts\<close>

lemma genResponse_ordered:
  assumes "genResponse sys h = Inr (resp, h')" and "map_ordered i_less (h_headers h)"
  shows "map_ordered i_less (h_headers h')"
proof (cases "h_status h = 100")
  case True
  with assms show ?thesis by (simp add: genResponse_def)
next
  case False
  show ?thesis
  proof (cases "h_path h = [] \<or> (h_status h = RES_OK \<and> h_type h = REQ_TYPE_DIR)")
    case True
    show ?thesis by (rule genResponse_dynamic [OF assms False True]) simp
  next
    case dyn: False
    show ?thesis
      by (rule genResponse_file [OF assms False dyn])
        (use assms(2) in \<open>simp add: checkType_def split: option.split\<close>)
  qed
qed

lemma fillResponse_ok [simp]: "request_ok rq \<Longrightarrow> request_ok (fillResponse pages host rq)"
proof -
  assume ok: "request_ok rq"
  have "r_headers (fillResponse pages host rq) = r_headers rq"
    by (simp add: fillResponse_def Let_def fillAdditionnalHeaders_def fillVerboseError_def
        set_hint_header_def)
  with ok fillResponse_ordered [of rq pages host] show ?thesis by (simp add: request_ok_def)
qed

lemma request_ok_maps [simp]:
  "request_ok rq \<Longrightarrow> map_ordered i_less (h_headers (r_hints rq))"
  "request_ok rq \<Longrightarrow> map_ordered i_less (r_headers rq)"
  by (simp_all add: request_ok_def hints_ordered_def)

lemma cgi_lines_ok: "cgi_lines cg rq b = (e, cg', rq') \<Longrightarrow> request_ok rq \<Longrightarrow> request_ok rq'"
proof (induction cg rq b rule: cgi_lines.induct)
  case (1 cg rq b)
  then show ?case
    by (subst (asm) (2) cgi_lines.simps)
      (auto simp: extract_header_def Let_def split: option.splits prod.splits if_splits)
qed

lemma cgi_parseHeaders_ok: "cgi_parseHeaders sys cg rq = (k, cg', rq') \<Longrightarrow> request_ok rq \<Longrightarrow> request_ok rq'"
proof -
  assume run: "cgi_parseHeaders sys cg rq = (k, cg', rq')" and ok: "request_ok rq"
  obtain e cg1 rq1 where c: "cgi_lines cg rq (take BUFFER_SIZE
      (case file_bytes sys (h_path (r_hints rq)) of None \<Rightarrow> [] | Some b \<Rightarrow> b)) = (e, cg1, rq1)"
    by (metis prod_cases3)
  have "request_ok rq1" by (rule cgi_lines_ok [OF c ok])
  moreover have "inspectHeaders p q = (k, q') \<Longrightarrow> request_ok q \<Longrightarrow> request_ok q'" for p q q' k
    by (auto simp: inspectHeaders_def inspect_document_def Let_def setUri_def set_hint_header_def add_hint_header_def
        split: option.splits if_splits)
  ultimately show ?thesis
    using run c by (fastforce simp: cgi_parseHeaders_def Let_def split: if_splits prod.splits)
qed

lemma session_ok_request [simp]: "session_ok linv s \<Longrightarrow> request_ok (getRequest s)"
  by (simp add: session_ok_def client_ok_def getRequest_def split: option.splits)

lemma session_ok_maps [simp]:
  "session_ok linv s \<Longrightarrow> map_ordered i_less (h_headers (r_hints (getRequest s)))"
  "session_ok linv s \<Longrightarrow> map_ordered i_less (r_headers (getRequest s))"
  using session_ok_request [of linv s] by simp_all

section \<open>The contract with the lists\<close>

text \<open>
  What a connection does to the lists of servers, hosts and clients is to bind itself and to
  leave; an invariant of the lists that these two keep is kept by every event.
\<close>

locale connection =
  fixes linv :: "nat \<Rightarrow> bool \<Rightarrow> world \<Rightarrow> bool"
  assumes inv_bind: "linv c alive w \<Longrightarrow> setHost c name w = Inr w' \<Longrightarrow> linv c alive w'"
    and inv_leave: "linv c alive w \<Longrightarrow> drop_client c w = Inr w' \<Longrightarrow> linv c False w'"
begin

lemma session_ok_client [simp]:
  "session_ok linv (s\<lparr>s_client := c\<rparr>) \<longleftrightarrow> client_ok c \<and> linv (cl_id c) (s_alive s) (s_world s)"
  by (simp add: session_ok_def)

lemma session_ok_frames [simp]:
  "session_ok linv (syscall x s) = session_ok linv s" "session_ok linv (setMode m s) = session_ok linv s"
  "session_ok linv (setHeaderStatus h s) = session_ok linv s"
  "session_ok linv (setBodyStatus b s) = session_ok linv s"
  "session_ok linv (setResponse r s) = session_ok linv s"
  "session_ok linv (clearResponse s) = session_ok linv s"
  by (simp_all add: session_ok_def setMode_def setHeaderStatus_def setBodyStatus_def setResponse_def
      clearResponse_def syscall_def)

lemma session_ok_world [simp]:
  "session_ok linv (s\<lparr>s_world := w\<rparr>) \<longleftrightarrow> client_ok (s_client s) \<and> linv (cl_id (s_client s)) (s_alive s) w"
  "session_ok linv (s\<lparr>s_world := w, s_alive := a\<rparr>) \<longleftrightarrow>
     client_ok (s_client s) \<and> linv (cl_id (s_client s)) a w"
  by (simp_all add: session_ok_def)

lemma deleteBodyStream_ok: "session_ok linv s \<Longrightarrow> session_ok linv (deleteBodyStream s)"
  using deleteBodyStream_keeps [of s] by (simp add: session_ok_def client_ok_def split: option.splits)

lemma session_ok_parts [simp]:
  "session_ok linv s \<Longrightarrow> client_ok (s_client s)"
  "session_ok linv s \<Longrightarrow> linv (cl_id (s_client s)) (s_alive s) (s_world s)"
  by (simp_all add: session_ok_def)

section \<open>Reading and checking\<close>

abbreviation keeps :: "fault + 'a \<times> session \<Rightarrow> bool" where
  "keeps r \<equiv> gives (\<lambda>(x, s). session_ok linv s) r"

abbreviation keeps1 :: "fault + session \<Rightarrow> bool" where
  "keeps1 r \<equiv> gives (session_ok linv) r"

lemma parseRequest_keeps: "session_ok linv s \<Longrightarrow> keeps (parseRequest bytes s)"
proof -
  assume ok: "session_ok linv s"
  note rq = session_ok_request [OF ok]
  have "keeps (and_then (parseHeaders (getRequest s) b) (\<lambda>(res, rq1, buffer1).
      (let s1 = upd_client (\<lambda>c. c\<lparr>cl_request := Some rq1, cl_buffer := buffer1\<rparr>) s in
       Inr (res, if res < 0 then setHeaderStatus HEADER_STATUS_READY s1 else s1))))" for b
    by (rule gives_bind [OF parseHeaders_ok [OF rq]]) (auto simp: Let_def ok)
  with ok rq show ?thesis
    by (auto simp: parseRequest_def Let_def split: prod.split dest: parseInput_ok)
qed

lemma assignHost_keeps: "session_ok linv s \<Longrightarrow> keeps (assignHost s)"
  by (cases "setHost (cl_id (s_client s)) (getHeader (getRequest s) ''host'') (s_world s)")
    (auto simp: assignHost_def Let_def dest: inv_bind [OF session_ok_parts(2)])

lemma on_request_keeps:
  assumes "session_ok linv s" and "\<And>r rq. f (getRequest s) = Inr (r, rq) \<Longrightarrow> request_ok rq"
  shows "keeps (on_request f s)"
  using assms by (cases "f (getRequest s)") (auto simp: on_request_def)

lemma checkForbidden_keeps: "session_ok linv s \<Longrightarrow> keeps (on_request (\<lambda>rq. Inr (checkForbiddenHeaders rq)) s)"
  by (rule on_request_keeps)
    (auto simp: checkForbiddenHeaders_def split: if_splits dest: session_ok_request)

lemma parseURI_keeps: "session_ok linv s \<Longrightarrow> keeps (on_request (\<lambda>rq. Inr (parseURI rq)) s)"
  by (rule on_request_keeps)
    (use same_maps_ok [OF parseURI_maps] session_ok_request in \<open>metis Inr_inject snd_conv\<close>)+

lemma checkBodyLength_keeps: "session_ok linv s \<Longrightarrow> keeps (checkBodyLength s)"
  unfolding checkBodyLength_def Let_def
  by (rule gives_bind [OF gives_any], rule gives_bind [OF gives_any])
    (auto simp: session_ok_client dest: session_ok_request)

lemma check_host_keeps: "session_ok linv s \<Longrightarrow> keeps (check_host_request sys s)"
  unfolding check_host_request_def
  by (rule gives_bind [OF gives_any], rule gives_bind [OF gives_any], rule on_request_keeps)
    (use checkRequest_maps same_maps_ok session_ok_request in \<open>metis snd_conv\<close>)+

lemma setBodyFile_keeps: "session_ok linv s \<Longrightarrow> keeps1 (setBodyFile sys path s)"
  by (cases "cl_request (s_client s)")
    (auto simp: setBodyFile_def Let_def session_ok_def client_ok_def)

lemma forward_keeps: "session_ok linv s \<Longrightarrow> session_ok linv (forward_content_type s)"
  by (auto simp: forward_content_type_def Let_def dest: session_ok_request)

lemma set_unlink_keeps: "session_ok linv s \<Longrightarrow> session_ok linv (set_unlink b s)"
  by (auto simp: set_unlink_def dest: session_ok_request)

lemma start_upload_keeps: "session_ok linv s \<Longrightarrow> keeps (start_upload sys path exists st s)"
  unfolding start_upload_def
  by (rule gives_bind [OF setBodyFile_keeps])
    (auto dest: session_ok_request intro: forward_keeps set_unlink_keeps)

lemma defineBodyParsing_keeps:
  assumes "session_ok linv s"
  shows "keeps (defineBodyParsing sys s)"
proof -
  have opened: "keeps1 (setBodyFile sys p s)" for p by (rule setBodyFile_keeps [OF assms])
  have named: "keeps1 (and_then (getHost s) (\<lambda>host. and_then (deref host) (\<lambda>h.
      case ho_server_names h of [] \<Rightarrow> Inl BadAccess | n # _ \<Rightarrow> setBodyFile sys (p n) s)))" for p
    by (rule gives_bind [OF gives_any], rule gives_bind [OF gives_any]) (auto split: list.split intro: opened)
  have up: "keeps (start_upload sys p e st s)" for p e st by (rule start_upload_keeps [OF assms])
  let ?tail = "\<lambda>s1. Inr (0, forward_content_type (set_unlink True s1)) :: fault + int \<times> session"
  have cgi: "keeps (and_then (if b then and_then (getHost s) (\<lambda>host. and_then (deref host) (\<lambda>h.
      case ho_server_names h of [] \<Rightarrow> Inl BadAccess | n # _ \<Rightarrow> setBodyFile sys (p n) s))
      else setBodyFile sys q s) ?tail)" for b p q
    by (rule gives_bind [where P = "session_ok linv", OF gives_if [OF named opened]])
      (simp add: forward_keeps set_unlink_keeps)
  have other: "keeps (and_then (setBodyFile sys [] s) (\<lambda>s1. Inr (0, forward_content_type s1)) ::
      fault + int \<times> session)"
    by (rule gives_bind [OF opened]) (simp add: forward_keeps)
  have static: "keeps (case checkFileExist sys p of
      FILE_DONT_EXIT \<Rightarrow> start_upload sys p False RES_CREATED s
    | FILE_EXIST \<Rightarrow> if \<not> sys_access sys (c_str p) W_OK
        then Inr (RES_FORBIDDEN, set_request (set_status RES_FORBIDDEN (getRequest s)) s)
        else start_upload sys p True RES_OK s
    | FILE_IS_NOT_REG \<Rightarrow> Inr (RES_FORBIDDEN, set_request (set_status RES_FORBIDDEN (getRequest s)) s))" for p
    using up assms by (simp split: fileSituation.split)
  show ?thesis
    unfolding defineBodyParsing_def Let_def
    by (intro gives_if cgi other gives_bind [OF gives_any] static)
qed

lemma checkContinue_keeps: "checkContinue s = (r, s') \<Longrightarrow> session_ok linv s \<Longrightarrow> session_ok linv s'"
  by (auto simp: checkContinue_def Let_def split: if_splits dest: session_ok_request)

section \<open>Answering\<close>

lemma attempt_keeps:
  assumes "session_ok linv s"
  shows "keeps (attempt sys status s)"
proof -
  have "keeps (case genResponse sys (r_hints rq) of
      Inr (resp, hints) \<Rightarrow>
        Inr (True, setMode CLIENT_MODE_WRITE
          (upd_client (\<lambda>c. c\<lparr>cl_request := Some (rq\<lparr>r_hints := hints\<rparr>),
               cl_outBuffers := writeResponse hints resp (cl_outBuffers c),
               cl_response := Some resp\<rparr>) s))
    | Inl e \<Rightarrow> if is_exception e then Inr (False, clearResponse (set_request rq s)) else Inl e)"
    if "request_ok rq" for rq
    using that assms genResponse_ordered [of sys "r_hints rq"]
    by (auto split: sum.split)
  with assms show ?thesis
    unfolding attempt_def Let_def by (intro gives_bind [OF gives_any]) simp
qed

lemma generateResponse_keeps: "session_ok linv s \<Longrightarrow> keeps (generateResponse sys status s)"
  unfolding generateResponse_def Let_def
  by (intro gives_if gives_bind [OF attempt_keeps]) (auto intro!: gives_bind [OF attempt_keeps])

lemma deleteCGIProcess_keeps: "session_ok linv s \<Longrightarrow> keeps1 (deleteCGIProcess s)"
  unfolding deleteCGIProcess_def
  by (intro gives_if gives_bind [OF gives_any]) simp_all

lemma deleteCGIProcess_none: "gives (\<lambda>s'. cl_cgiProcess (s_client s') = None) (deleteCGIProcess s)"
  unfolding deleteCGIProcess_def
  by (intro gives_if gives_bind [OF gives_any]) simp_all

lemma clear_keeps:
  assumes "session_ok linv s"
  shows "gives (\<lambda>s'. session_ok linv s' \<and> cl_id (s_client s') = cl_id (s_client s)) (clear s)"
proof -
  have "gives (\<lambda>s'. cl_cgiProcess (s_client s') = None \<and> session_ok linv s' \<and>
      cl_id (s_client s') = cl_id (s_client s)) (deleteCGIProcess (deleteBodyStream s))"
    using session_ok_parts [OF assms] deleteBodyStream_ok [OF assms] deleteBodyStream_keeps [of s]
    unfolding deleteCGIProcess_def by (intro gives_if gives_bind [OF gives_any]) simp_all
  then show ?thesis
    unfolding clear_def by (rule gives_bind) (auto simp: client_ok_def dest: session_ok_parts(2))
qed

lemma terminate_keeps:
  assumes "session_ok linv s"
  shows "keeps1 (terminate s)"
proof -
  let ?s = "syscall (EpollDel (cl_fd (s_client s))) (case cl_cgiProcess (s_client s) of
      None \<Rightarrow> s | Some cg \<Rightarrow> if 0 < cg_pid cg then syscall (Kill (cg_pid cg)) s else s)"
  have "session_ok linv ?s" "s_client ?s = s_client s" using assms by (simp_all split: option.split)
  note cleared = clear_keeps [OF this(1), unfolded this(2)]
  have left: "keeps1 (and_then (drop_client (cl_id (s_client s)) (s_world y)) (\<lambda>w.
      Inr ((syscall call y)\<lparr>s_world := w, s_alive := False\<rparr>)))"
    if "session_ok linv y" "cl_id (s_client y) = cl_id (s_client s)" for y call
    using inv_leave [OF session_ok_parts(2) [OF that(1)]] that
    by (cases "drop_client (cl_id (s_client s)) (s_world y)") auto
  show ?thesis
    unfolding terminate_def Let_def by (rule gives_bind [OF cleared]) (use left in auto)
qed

lemma generateCGIProcess_keeps:
  assumes "session_ok linv s"
  shows "keeps (generateCGIProcess sys inp s)"
proof -
  have "request_ok rq" if "execCGI sys f cg (getRequest s) = (r, cg', rq)" for f cg r cg' rq
    using assms that by (auto simp: execCGI_def Let_def split: if_splits)
  with assms show ?thesis
    by (auto simp: generateCGIProcess_def Let_def client_ok_def split: prod.split
        intro!: gives_bind [OF deleteCGIProcess_keeps])
qed

section \<open>Events\<close>

lemma finish_headers_keeps:
  assumes "session_ok linv s"
  shows "keeps (finish_headers sys s)"
proof -
  obtain res s1 where c: "checkContinue s = (res, s1)" by (cases "checkContinue s")
  note s1 = checkContinue_keeps [OF c assms]
  have cont: "session_ok linv (generateContinueResponse s2)" if "session_ok linv s2" for s2
    using that by (simp add: generateContinueResponse_def Let_def)
  have body: "keeps (if b then defineBodyParsing sys s1 else Inr (0, s1))" for b
    using s1 defineBodyParsing_keeps by simp
  show ?thesis
    using s1 unfolding finish_headers_def c prod.case
    by (intro gives_if gives_bind [OF body]) (auto simp: cont Let_def)
qed

lemma pass_keeps:
  assumes "session_ok linv (snd r)" and "\<And>s. session_ok linv s \<Longrightarrow> keeps (f s)"
  shows "keeps (pass r f)"
  using assms by (cases r) (simp add: pass_def)

lemma handleRequestHeaders_keeps:
  assumes "session_ok linv s"
  shows "keeps (handleRequestHeaders sys s)"
  unfolding handleRequestHeaders_def
  by (rule gives_bind [OF assignHost_keeps [OF assms]],
      rule gives_bind [OF pass_keeps [OF _ parseURI_keeps]], clarsimp, assumption,
      rule gives_bind [OF pass_keeps [OF _ checkForbidden_keeps]], clarsimp, assumption,
      rule gives_bind [OF pass_keeps [where f = "\<lambda>s3. if h_cgiRedir (r_hints (getRequest s3)) = CGI_RES_NONE
                            then checkBodyLength s3 else Inr (0, s3)"]], clarsimp,
      simp add: checkBodyLength_keeps,
      rule gives_bind [OF pass_keeps [OF _ check_host_keeps]], clarsimp, assumption,
      rule pass_keeps [OF _ finish_headers_keeps], clarsimp)

lemma handleRequestBodyDone_keeps: "session_ok linv s \<Longrightarrow> session_ok linv (snd (handleRequestBodyDone s))"
  by (simp add: handleRequestBodyDone_def Let_def)

lemma after_parse_keeps:
  assumes "session_ok linv s"
  shows "keeps (after_parse sys res s)"
proof -
  have headers: "gives (\<lambda>(stop, r, s1). session_ok linv s1)
      (and_then (handleRequestHeaders sys (setBodyStatus BODY_STATUS_NONE s)) (\<lambda>(r, s1).
         if r \<noteq> 0 then Inr (True, r, s1)
         else if cl_bodyStatus (s_client s1) \<noteq> BODY_STATUS_NONE then
           and_then (parseRequest [] s1) (\<lambda>(r', s2). Inr (False, r', s2))
         else Inr (False, 0, s1)))"
    using assms
    by (intro gives_bind [OF handleRequestHeaders_keeps])
      (auto intro!: gives_bind [OF parseRequest_keeps])
  have finished: "session_ok linv s1 \<Longrightarrow> handleRequestBodyDone s1 = (r, s2) \<Longrightarrow> session_ok linv s2" for s1 r s2
    using handleRequestBodyDone_keeps [of s1] by simp
  have step: "gives (\<lambda>(stop, r, s1). session_ok linv s1) (if b then
        and_then (handleRequestHeaders sys (setBodyStatus BODY_STATUS_NONE s)) (\<lambda>(r, s1).
         if r \<noteq> 0 then Inr (True, r, s1)
         else if cl_bodyStatus (s_client s1) \<noteq> BODY_STATUS_NONE then
           and_then (parseRequest [] s1) (\<lambda>(r', s2). Inr (False, r', s2))
         else Inr (False, 0, s1)) else Inr (False, res, s))" for b
    using headers assms by simp
  show ?thesis
    unfolding after_parse_def
    by (rule gives_if, simp add: assms, rule gives_bind [OF step]) (auto dest: finished split: prod.split)
qed

lemma handleClientIn_keeps: "session_ok linv s \<Longrightarrow> keeps (handleClientIn sys inp incoming s)"
  unfolding handleClientIn_def
  by (auto split: option.split intro!: gives_bind [OF parseRequest_keeps] after_parse_keeps)

lemma after_write_keeps: "session_ok linv s \<Longrightarrow> keeps (after_write s)"
  unfolding after_write_def Let_def
  by (intro gives_if gives_bind [OF gives_any]) auto

lemma handleClientOut_keeps: "session_ok linv s \<Longrightarrow> keeps (handleClientOut inp s)"
  by (auto simp: handleClientOut_def split: list.split intro!: after_write_keeps)

lemma handleClientResponse_keeps: "session_ok linv s \<Longrightarrow> keeps (handleClientResponse sys inp res s)"
  unfolding handleClientResponse_def
  by (auto intro!: generateResponse_keeps gives_bind [OF generateCGIProcess_keeps])

lemma local_redirect_keeps: "session_ok linv s \<Longrightarrow> keeps (local_redirect sys inp s)"
  unfolding local_redirect_def
  by (rule gives_bind [OF deleteCGIProcess_keeps], assumption,
      rule gives_bind [OF handleRequestHeaders_keeps], assumption)
    (auto intro!: generateResponse_keeps gives_bind [OF generateCGIProcess_keeps]
      gives_bind [OF deleteCGIProcess_keeps])

lemma handleCGIProcess_keeps:
  assumes "session_ok linv s"
  shows "keeps (handleCGIProcess sys inp s)"
proof (cases "cl_cgiProcess (s_client s)")
  case None
  then show ?thesis by (simp add: handleCGIProcess_def)
next
  case (Some cg)
  obtain ended cg1 killed where e: "checkEnd (in_wait inp) (in_elapsed inp) cg = (ended, cg1, killed)"
    by (metis prod_cases3)
  define s1 where "s1 = (case killed of None \<Rightarrow> id | Some pid \<Rightarrow> syscall (Kill pid))
      (upd_client (\<lambda>c. c\<lparr>cl_cgiProcess := Some cg1\<rparr>) s)"
  obtain rq where rq: "cl_request (s_client s) = Some rq" "request_ok rq"
    using session_ok_parts(1) [OF assms] Some by (auto simp: client_ok_def split: option.splits)
  then have s1: "session_ok linv s1"
    using assms by (simp add: s1_def client_ok_def split: option.split)
  obtain kind cg2 rq2 where p: "cgi_parseHeaders sys cg1 (getRequest s1) = (kind, cg2, rq2)"
    by (metis prod_cases3)
  have "request_ok rq2" using cgi_parseHeaders_ok [OF p] s1 by simp
  then have s2: "session_ok linv (upd_client (\<lambda>c. c\<lparr>cl_cgiProcess := Some cg2,
      cl_request := Some (upd_hints (\<lambda>h. h\<lparr>h_cgiRedir := kind\<rparr>) rq2)\<rparr>) s1)"
    using s1 by simp
  show ?thesis
    using Some e p s1 s2
    by (simp add: handleCGIProcess_def Let_def s1_def [symmetric] split: cgi_res.split)
      (auto intro!: generateResponse_keeps local_redirect_keeps gives_bind [OF deleteCGIProcess_keeps]
        gives_bind [OF generateResponse_keeps])
qed

lemma on_sent_keeps:
  assumes "session_ok linv (snd r)"
  shows "keeps (on_sent sys inp r)"
proof (cases r)
  case (Pair k s)
  with assms show ?thesis
    by (auto simp: on_sent_def split: sent.split
        intro!: gives_bind [OF clear_keeps] gives_bind [OF terminate_keeps]
          gives_bind [OF handleClientIn_keeps] handleClientResponse_keeps)
qed

lemma handleClientEvent_keeps:
  assumes "session_ok linv s"
  shows "keeps (handleClientEvent sys inp s)"
proof -
  have out: "keeps (and_then (if b then handleCGIProcess sys inp s else Inr (0, s)) (\<lambda>(res, s1).
      if res \<noteq> 0 then Inr (-1, s1)
      else if cl_response (s_client s1) = None then Inr (0, s1)
      else and_then (handleClientOut inp s1) (on_sent sys inp)))" for b
    by (rule gives_bind [where P = "\<lambda>(x, s). session_ok linv s"])
      (use assms handleCGIProcess_keeps in \<open>auto intro!: gives_bind [OF handleClientOut_keeps] on_sent_keeps\<close>)
  show ?thesis
    unfolding handleClientEvent_def Let_def
    using assms out
    by (intro gives_if) (auto intro!: gives_bind [OF terminate_keeps] gives_bind [OF handleClientIn_keeps]
        handleClientResponse_keeps)
qed

lemma client_event_keeps: "session_ok linv s \<Longrightarrow> keeps1 (client_event sys inp s)"
  unfolding client_event_def
  by (rule gives_bind [OF handleClientEvent_keeps]) (auto intro: terminate_keeps)

lemma checkTO_keeps:
  assumes "session_ok linv s"
  shows "keeps1 (checkTO sys elapsed s)"
proof (cases "cl_request (s_client s)")
  case None
  with assms terminate_keeps show ?thesis by (simp add: checkTO_def)
next
  case (Some rq)
  with session_ok_parts(1) [OF assms] have "request_ok rq" by (simp add: client_ok_def)
  then have "session_ok linv (set_request (snd (fillError 408 [] (rq\<lparr>r_final_status := COMPLETE\<rparr>)))
      (setMode CLIENT_MODE_WRITE s))"
    using assms by (simp add: fillError_def setMode_def)
  then have "keeps1 (and_then (generateResponse sys 408
      (set_request (snd (fillError 408 [] (rq\<lparr>r_final_status := COMPLETE\<rparr>))) (setMode CLIENT_MODE_WRITE s)))
      (\<lambda>(_, s1). Inr s1))"
    by (rule gives_bind [OF generateResponse_keeps]) auto
  with Some assms show ?thesis by (simp add: checkTO_def)
qed

end

end
