(* ===== verification/Streams.thy ===== *)
theory Streams
  imports Prelude
begin

text \<open>
  Input streams of the standard library on a fixed text, as the configuration parser and the
  console use them: a position and the two state bits that can be set here (\<open>badbit\<close> is for
  a failing device). Every input operation first checks that the stream is good and sets
  \<open>failbit\<close> if it is not; reaching the end sets \<open>eofbit\<close>.

  The code stores the results of \<open>peek\<close> and \<open>get\<close> in a \<open>char\<close>, in which the end of the file
  and the byte \<open>0xFF\<close> are the same (\<open>to_char\<close>).
\<close>

record istream =
  is_text :: string
  is_pos :: nat
  is_eof :: bool
  is_fail :: bool

definition stream_of :: "string \<Rightarrow> istream" where
  "stream_of text = \<lparr> is_text = text, is_pos = 0, is_eof = False, is_fail = False \<rparr>"

definition good :: "istream \<Rightarrow> bool" where
  "good s \<longleftrightarrow> \<not> is_eof s \<and> \<not> is_fail s"

definition left :: "istream \<Rightarrow> nat" where
  "left s = length (is_text s) - is_pos s"

definition rest_of :: "istream \<Rightarrow> string" where
  "rest_of s = drop (is_pos s) (is_text s)"

definition peek :: "istream \<Rightarrow> char option \<times> istream" where
  "peek s =
     (if \<not> good s then (None, s\<lparr>is_fail := True\<rparr>)
      else if is_pos s < length (is_text s) then (Some (is_text s ! is_pos s), s)
      else (None, s\<lparr>is_eof := True\<rparr>))"

definition sget :: "istream \<Rightarrow> char option \<times> istream" where
  "sget s =
     (if \<not> good s then (None, s\<lparr>is_fail := True\<rparr>)
      else if is_pos s < length (is_text s)
      then (Some (is_text s ! is_pos s), s\<lparr>is_pos := is_pos s + 1\<rparr>)
      else (None, s\<lparr>is_eof := True, is_fail := True\<rparr>))"

definition EOF :: char where
  "EOF = CHR 0xFF"

definition to_char :: "char option \<Rightarrow> char" where
  "to_char c = (case c of None \<Rightarrow> EOF | Some c \<Rightarrow> c)"

definition newline :: char where
  "newline = CHR 0x0A"

text \<open>\<open>std::getline\<close>: the string keeps its old value when the stream is not good.\<close>

definition getline :: "istream \<Rightarrow> string \<Rightarrow> string \<times> istream" where
  "getline s str =
     (if \<not> good s then (str, s\<lparr>is_fail := True\<rparr>)
      else
        (let line = takeWhile (\<lambda>c. c \<noteq> newline) (rest_of s) in
         if length line < length (rest_of s)
         then (line, s\<lparr>is_pos := is_pos s + length line + 1\<rparr>)
         else (line, s\<lparr>is_pos := length (is_text s), is_eof := True, is_fail := rest_of s = []\<rparr>)))"

definition clear_state :: "istream \<Rightarrow> istream" where
  "clear_state s = s\<lparr>is_eof := False, is_fail := False\<rparr>"

definition tellg :: "istream \<Rightarrow> int \<times> istream" where
  "tellg s = (if good s then (int (is_pos s), s) else (-1, s\<lparr>is_fail := True\<rparr>))"

definition seekg :: "int \<Rightarrow> istream \<Rightarrow> istream" where
  "seekg p s =
     (let s1 = s\<lparr>is_eof := False\<rparr> in
      if is_fail s1 then s1
      else if 0 \<le> p \<and> p \<le> int (length (is_text s)) then s1\<lparr>is_pos := nat p\<rparr>
      else s1\<lparr>is_fail := True\<rparr>)"

section \<open>Progress\<close>

text \<open>Reading never moves backwards and never changes the text.\<close>

definition advances :: "istream \<Rightarrow> istream \<Rightarrow> bool" where
  "advances s s' \<longleftrightarrow> is_text s' = is_text s \<and> is_pos s \<le> is_pos s'"

named_theorems stream_intros

lemma advances_refl [simp, stream_intros]: "advances s s"
  by (simp add: advances_def)

lemma advances_trans: "advances s1 s2 \<Longrightarrow> advances s2 s3 \<Longrightarrow> advances s1 s3"
  by (simp add: advances_def)

lemma left_advances: "advances s s' \<Longrightarrow> left s' \<le> left s"
  by (auto simp: advances_def left_def)

lemma peek_advances: "peek s = (c, s') \<Longrightarrow> advances s s' \<and> left s' = left s"
  by (auto simp: peek_def advances_def left_def split: if_splits)

lemma peek_Some:
  "peek s = (Some c, s') \<Longrightarrow> s' = s \<and> good s \<and> is_pos s < length (is_text s) \<and> c = is_text s ! is_pos s"
  by (auto simp: peek_def split: if_splits)

lemma sget_advances: "sget s = (c, s') \<Longrightarrow> advances s s'"
  by (auto simp: sget_def advances_def split: if_splits)

lemma sget_Some: "sget s = (Some c, s') \<Longrightarrow> left s' < left s"
  by (auto simp: sget_def left_def split: if_splits)

lemma sget_None: "sget s = (None, s') \<Longrightarrow> \<not> good s' \<and> left s' = left s"
  by (auto simp: sget_def left_def good_def split: if_splits)

lemma peek_left: "peek s = (Some c, s1) \<Longrightarrow> left (snd (sget s1)) < left s"
  by (auto simp: sget_def left_def dest!: peek_Some)

lemma snd_advances [simp, stream_intros]:
  "advances s (snd (peek s))" "advances s (snd (sget s))"
  using peek_advances sget_advances by (metis prod.collapse)+

lemma sget_peek: "peek s = (Some c, s1) \<Longrightarrow> \<exists>s2. sget s1 = (Some c, s2) \<and> left s2 < left s1"
  by (auto simp: sget_def left_def dest!: peek_Some)

lemma getline_progress:
  "getline s str = (line, s') \<Longrightarrow> is_text s' = is_text s \<and> (good s' \<longrightarrow> left s' < left s)"
  by (auto simp: getline_def Let_def left_def rest_of_def good_def split: if_splits)

text \<open>Reading a good stream whose remaining text is known.\<close>

definition skip :: "nat \<Rightarrow> istream \<Rightarrow> istream" where
  "skip n s = s\<lparr>is_pos := is_pos s + n\<rparr>"

lemma skip_simps [simp]:
  "good (skip n s) = good s" "rest_of (skip n s) = drop n (rest_of s)"
  "is_text (skip n s) = is_text s" "skip 0 s = s" "skip m (skip n s) = skip (n + m) s"
  by (simp_all add: skip_def good_def rest_of_def add.commute add.left_commute)

lemma stream_of_simps [simp]: "good (stream_of t)" "rest_of (stream_of t) = t"
  by (simp_all add: stream_of_def good_def rest_of_def)

lemma rest_Cons: "rest_of s = c # cs \<Longrightarrow> is_pos s < length (is_text s) \<and> is_text s ! is_pos s = c"
  unfolding rest_of_def
  by (metis drop_eq_Nil list.distinct(1) not_le nth_via_drop)

lemma peek_rest: "good s \<Longrightarrow> rest_of s = c # cs \<Longrightarrow> peek s = (Some c, s)"
  by (drule rest_Cons) (simp add: peek_def)

lemma sget_rest: "good s \<Longrightarrow> rest_of s = c # cs \<Longrightarrow> sget s = (Some c, skip 1 s)"
  by (drule rest_Cons) (simp add: sget_def skip_def)

lemma takeWhile_stop_at: "c \<notin> set xs \<Longrightarrow> takeWhile (\<lambda>x. x \<noteq> c) (xs @ c # ys) = xs"
  by (induction xs) auto

lemma getline_rest:
  "good s \<Longrightarrow> newline \<notin> set line \<Longrightarrow> rest_of s = line @ newline # cs \<Longrightarrow>
   getline s str = (line, skip (length line + 1) s)"
  using takeWhile_stop_at [of newline line cs] by (simp add: getline_def skip_def Let_def)

end
