(* ===== verification/Config_Lexer.thy ===== *)
theory Config_Lexer
  imports Streams
begin

text \<open>
  The lexer of srcs/IParseConfig.cpp: words, quotes, comments, values and blocks. Line
  numbers are left out, they are only printed.

  An operation that can throw returns the exception, if any, beside what it changed: the
  word that was being built (a reference to a member of the object being configured), the
  stream, and the static \<open>_lineBuffer\<close> of \<open>getNextBlock\<close>.

  The loops over a stream end because every round consumes a character or leaves an escape;
  \<open>left\<close> is the measure. \<open>getNextBlock\<close> may move the stream backwards, which is why the
  loops over blocks (theory Config) need not end.
\<close>

section \<open>Exceptions\<close>

datatype config_exn =
    InvalidFileType | FileOpen | StreamExn | HostExn | UnclosedQuote | UnclosedBlock
  | UnexpectedBrace | LastBlock | MissingSemicolon | MissingOpeningBrace | InvalidPort
  | InvalidMaxBodySize | InvalidMethod | InvalidBoolean | InvalidRedirection
  | DuplicateServerName | UnexpectedToken string | MissingToken string | UnknownToken string
  | TooManyValues string
  | Fault fault  \<comment> \<open>not an \<open>IParseConfigException\<close>\<close>

fun what :: "config_exn \<Rightarrow> string" where
  "what InvalidFileType = ''invalid config file type''"
| "what FileOpen = ''could not open config file''"
| "what StreamExn = ''error with the stream''"
| "what HostExn = ''error adding the host''"
| "what UnclosedQuote = ''unclosed quotes''"
| "what UnclosedBlock = ''block has unclosed braces''"
| "what UnexpectedBrace = ''closing brace without prior opening brace''"
| "what LastBlock = ''last block reached''"
| "what MissingSemicolon = ''missing semicolon (`;'' @ [CHR 0x27] @ '')''"
| "what MissingOpeningBrace = ''missing opening brace `{'' @ [CHR 0x27]"
| "what InvalidPort = ''invalid port''"
| "what InvalidMaxBodySize = ''invalid max body size''"
| "what InvalidMethod = ''invalid method''"
| "what InvalidBoolean = ''invalid boolean''"
| "what InvalidRedirection = ''invalid redirection status''"
| "what DuplicateServerName =
     ''an host with an identical server_name is already listening to this port''"
| "what (UnexpectedToken t) = ''unexpected token (`'' @ t @ [CHR 0x27] @ '')''"
| "what (MissingToken t) = ''missing token or field (`'' @ t @ [CHR 0x27] @ '')''"
| "what (UnknownToken t) = ''unknown token (`'' @ t @ [CHR 0x27] @ '')''"
| "what (TooManyValues t) = ''too many values for given token (`'' @ t @ [CHR 0x27] @ '')''"
| "what (Fault f) = []"

section \<open>Words\<close>

definition is_space :: "char option \<Rightarrow> bool" where
  "is_space c = (case c of None \<Rightarrow> False | Some c \<Rightarrow> isspace c)"

function skipSpace :: "istream \<Rightarrow> istream" where
  "skipSpace s =
     (case peek s of (c, s1) \<Rightarrow> if is_space c then skipSpace (snd (sget s1)) else s1)"
  by pat_completeness auto
termination
  by (relation "measure left")
    (auto simp: is_space_def split: option.splits dest: peek_left [OF sym])

declare skipSpace.simps [simp del]

function comment_rest :: "istream \<Rightarrow> istream" where
  "comment_rest s =
     (case sget s of (c, s1) \<Rightarrow>
        if to_char c = newline \<or> to_char c = EOF then s1 else comment_rest s1)"
  by pat_completeness auto
termination
  by (relation "measure left")
    (auto simp: to_char_def EOF_def split: option.splits dest!: sym [of "(_, _)" "sget _"] dest: sget_Some)

declare comment_rest.simps [simp del]

definition skipComment :: "istream \<Rightarrow> istream" where
  "skipComment s = (case peek s of (c, s1) \<Rightarrow> if to_char c = EOF then s1 else comment_rest s1)"

definition BACKSLASH :: char where
  "BACKSLASH = CHR 0x5C"

definition QUOTE :: char where
  "QUOTE = CHR 0x22"

definition quote_measure :: "istream \<Rightarrow> nat" where
  "quote_measure s = left s + (if good s then 1 else 0)"

lemma sget_quote_measure: "good s \<Longrightarrow> sget s = (c, s1) \<Longrightarrow> quote_measure s1 < quote_measure s"
  by (cases c) (auto simp: quote_measure_def dest: sget_Some sget_None)

function parse_quote :: "bool \<Rightarrow> istream \<Rightarrow> string \<Rightarrow> (config_exn + unit) \<times> string \<times> istream" where
  "parse_quote isEscaped s dest =
     (if \<not> good s then (Inl UnclosedQuote, dest, s)
      else
        (case sget s of (c, s1) \<Rightarrow>
           if to_char c = BACKSLASH \<and> \<not> isEscaped then parse_quote True s1 dest
           else if to_char c = QUOTE \<and> \<not> isEscaped then (Inr (), dest, s1)
           else parse_quote False s1 (dest @ [to_char c])))"
  by pat_completeness auto

termination
  by (relation "measure (\<lambda>(e, s, d). quote_measure s)") (auto dest!: sget_quote_measure [OF _ sym])

declare parse_quote.simps [simp del]

definition parseQuote :: "istream \<Rightarrow> string \<Rightarrow> (config_exn + unit) \<times> string \<times> istream" where
  "parseQuote s dest = parse_quote False s dest"

definition checkSemiColon :: "istream \<Rightarrow> bool \<times> istream" where
  "checkSemiColon s =
     (case peek (skipSpace s) of (c, s1) \<Rightarrow>
        if c = Some (CHR '';'') then (True, snd (sget s1)) else (False, s1))"

definition delimiter :: "char \<Rightarrow> bool" where
  "delimiter c \<longleftrightarrow> isspace c \<or> c = EOF \<or> c = CHR '';'' \<or> c = CHR ''{'' \<or> c = CHR ''}''"

lemma skipSpace_advances: "advances s (skipSpace s)"
proof (induction s rule: skipSpace.induct)
  case (1 s)
  then show ?case
    by (cases "peek s"; subst skipSpace.simps)
      (auto intro: advances_trans [OF advances_trans [OF _ snd_advances(2)]] dest: peek_advances)
qed

lemma comment_rest_advances: "advances s (comment_rest s)"
proof (induction s rule: comment_rest.induct)
  case (1 s)
  then show ?case
    by (subst comment_rest.simps) (auto split: prod.splits dest: sget_advances intro: advances_trans)
qed

lemma skipComment_advances: "advances s (skipComment s)"
  using comment_rest_advances
  by (auto simp: skipComment_def split: prod.splits dest: peek_advances intro: advances_trans)

lemma parse_quote_advances: "parse_quote e s d = (r, d', s') \<Longrightarrow> advances s s'"
proof (induction e s d rule: parse_quote.induct)
  case (1 e s d)
  obtain c s1 where g: "sget s = (c, s1)" by (cases "sget s")
  with 1 show ?case
    by (subst (asm) (3) parse_quote.simps)
      (auto split: if_splits intro: advances_trans [OF sget_advances [OF g]])
qed

text \<open>
  The loop of \<open>getNextWord\<close>. A comment starts at a hash sign anywhere in a word, or at two
  slashes at its beginning; the word goes on after it. The result is 0 for a word, else the
  character that stopped it, -1 for the end of the file.
\<close>

definition comment_start :: "char \<Rightarrow> string \<Rightarrow> istream \<Rightarrow> bool \<times> istream" where
  "comment_start cur word s =
     (if cur = CHR ''/'' \<and> word = [] then
        (case peek s of (c, s1) \<Rightarrow> (c = Some (CHR ''/''), s1))
      else (cur = CHR ''#'', s))"

lemma comment_start_advances: "comment_start c w s = (b, s') \<Longrightarrow> advances s s'"
  by (auto simp: comment_start_def split: if_splits prod.splits dest: peek_advances)

definition escape_measure :: "bool \<Rightarrow> istream \<Rightarrow> nat" where
  "escape_measure isEscaped s = 2 * left s + (if isEscaped then 1 else 0)"

lemma word_step:
  assumes "peek s0 = (n, s)" and "sget s = (c, s1)" and "\<not> delimiter (to_char n)"
  shows "left s1 < left s0"
proof -
  obtain x where "n = Some x" using assms(3) by (cases n) (auto simp: delimiter_def to_char_def)
  with peek_left [of s0 x s] assms show ?thesis by simp
qed

lemma escaped_step:
  assumes "peek s0 = (n, s)" and "sget s = (c, s1)"
  shows "left s1 \<le> left s0"
  using assms peek_advances sget_advances left_advances by (metis order_trans)

lemma escape_less:
  assumes "(n, s) = peek s0" and "(c, s1) = sget s" and "\<not> (\<not> False \<and> delimiter (to_char n))"
    and "advances s1 s2"
  shows "escape_measure e s2 < escape_measure False s0"
proof -
  have "left s2 < left s0"
    using word_step [of s0 n s c s1] left_advances [OF assms(4)] assms(1-3) by simp
  then show ?thesis by (simp add: escape_measure_def)
qed

lemma escaped_less:
  "(n, s) = peek s0 \<Longrightarrow> (c, s1) = sget s \<Longrightarrow> escape_measure False s1 < escape_measure True s0"
  using escaped_step [of s0 n s c s1] by (simp add: escape_measure_def)

lemma comment_advances: "advances s (skipSpace (skipComment s))"
  using skipComment_advances skipSpace_advances by (rule advances_trans)

lemma quote_advances: "(r, p) = parseQuote s w \<Longrightarrow> (w', s') = p \<Longrightarrow> advances s s'"
  by (rule parse_quote_advances [of False s w r w']) (simp add: parseQuote_def)

function word_loop :: "bool \<Rightarrow> istream \<Rightarrow> string \<Rightarrow> (config_exn + int) \<times> string \<times> istream" where
  "word_loop isEscaped s0 word =
     (case peek s0 of (n, s) \<Rightarrow>
        if \<not> isEscaped \<and> delimiter (to_char n) then
          (Inr (if word \<noteq> [] then 0 else if to_char n = EOF then -1
                else int (char_code (to_char n))), word, s)
        else
          (case sget s of (c, s1) \<Rightarrow>
             (let cur = to_char c in
              if isEscaped then word_loop False s1 (word @ [cur])
              else if cur = BACKSLASH then word_loop True s1 word
              else if cur = QUOTE then
                (case parseQuote s1 word of (r, word1, s2) \<Rightarrow>
                   (case r of Inl e \<Rightarrow> (Inl e, word1, s2) | Inr _ \<Rightarrow> word_loop False s2 word1))
              else
                (case comment_start cur word s1 of (comment, s2) \<Rightarrow>
                   if comment then word_loop False (skipSpace (skipComment s2)) word
                   else word_loop False s2 (word @ [cur])))))"
  by pat_completeness auto

termination
  apply (relation "measure (\<lambda>(e, s, w). escape_measure e s)")
  apply (simp_all only: in_measure case_prod_conv wf_measure)
  subgoal by (rule escaped_less)
  subgoal by (rule escape_less) (assumption | simp)+
  subgoal by (rule escape_less) (assumption | erule (1) quote_advances)+
  subgoal by (rule escape_less)
      (assumption | rule advances_trans [OF comment_start_advances [OF sym] comment_advances])+
  subgoal by (rule escape_less) (assumption | rule comment_start_advances [OF sym])+
  done

declare word_loop.simps [simp del]

definition getNextWord :: "istream \<Rightarrow> string \<Rightarrow> (config_exn + int) \<times> string \<times> istream" where
  "getNextWord s word = word_loop False (skipSpace s) word"

text \<open>\<open>parseValues\<close>: \<open>words\<close> is extended also when it throws.\<close>

function parse_values ::
  "int \<Rightarrow> int \<Rightarrow> istream \<Rightarrow> string list \<Rightarrow> (config_exn + unit) \<times> string list \<times> istream" where
  "parse_values maxNbr i s words =
     (case getNextWord s [] of (r, word, s1) \<Rightarrow>
        (case r of
           Inl e \<Rightarrow> (Inl e, words, s1)
         | Inr ret \<Rightarrow>
             (let words1 = (if ret = 0 then words @ [word] else words) in
              if ret = 0 \<and> i + 1 < maxNbr then parse_values maxNbr (i + 1) s1 words1
              else (Inr (), words1, s1))))"
  by pat_completeness auto
termination
  by (relation "measure (\<lambda>(maxNbr, i, s, words). nat (maxNbr - i))") auto

declare parse_values.simps [simp del]

definition parseValues :: "istream \<Rightarrow> string list \<Rightarrow> (config_exn + unit) \<times> string list \<times> istream" where
  "parseValues s words = parse_values 2147483647 0 s words"

section \<open>Blocks\<close>

text \<open>
  One line of \<open>getNextBlock\<close>: the depth, the two flags, the index where the block starts in
  the line, and the index of the brace that closes the block, if it is in the line.
\<close>

fun scan_line :: "int \<Rightarrow> bool \<Rightarrow> bool \<Rightarrow> nat \<Rightarrow> nat \<Rightarrow> string \<Rightarrow>
    config_exn + int \<times> bool \<times> bool \<times> nat \<times> nat option" where
  "scan_line depth isEscaped isQuoted start i [] = Inr (depth, isEscaped, isQuoted, start, None)"
| "scan_line depth isEscaped isQuoted start i (c # cs) =
     (if isEscaped then scan_line depth False isQuoted start (i + 1) cs
      else if c = BACKSLASH then scan_line depth True isQuoted start (i + 1) cs
      else if c = QUOTE then scan_line depth False (\<not> isQuoted) start (i + 1) cs
      else if \<not> isQuoted \<and> c = CHR ''{'' then
        scan_line (depth + 1) False isQuoted (if depth = 0 then i + 1 else start) (i + 1) cs
      else if \<not> isQuoted \<and> c = CHR ''}'' then
        (if depth - 1 = 0 then Inr (0, False, isQuoted, start, Some i)
         else if depth - 1 < 0 then Inl UnexpectedBrace
         else scan_line (depth - 1) False isQuoted start (i + 1) cs)
      else scan_line depth False isQuoted start (i + 1) cs)"

text \<open>The stream is put back after the closing brace; at the end of the file it is cleared first.\<close>

definition seek_back :: "istream \<Rightarrow> string \<Rightarrow> nat \<Rightarrow> istream" where
  "seek_back s line k =
     (if is_eof s then
        (case tellg (clear_state s) of (p, s1) \<Rightarrow> seekg (p - (int (length line) - 1 - int k)) s1)
      else (case tellg s of (p, s1) \<Rightarrow> seekg (p - (int (length line) - int k)) s1))"

definition block_part :: "string \<Rightarrow> int \<Rightarrow> nat \<Rightarrow> nat option \<Rightarrow> string" where
  "block_part line depth start close =
     (let stop = (case close of None \<Rightarrow> length line | Some k \<Rightarrow> k) in
      if depth \<noteq> 0 \<or> start \<noteq> 0 \<or> stop \<noteq> length line
      then take (stop - start) (drop start line) @ (if depth \<noteq> 0 then [newline] else [])
      else [])"

function block_loop :: "int \<Rightarrow> bool \<Rightarrow> bool \<Rightarrow> string \<Rightarrow> string \<Rightarrow> istream \<Rightarrow>
    (config_exn + string) \<times> string \<times> istream" where
  "block_loop depth isEscaped isQuoted out lineBuffer s =
     (case getline s lineBuffer of (line, s1) \<Rightarrow>
        (case scan_line depth isEscaped isQuoted 0 0 line of
           Inl e \<Rightarrow> (Inl e, line, s1)
         | Inr (depth1, isEscaped1, isQuoted1, start, close) \<Rightarrow>
             (let s2 = (case close of None \<Rightarrow> s1 | Some k \<Rightarrow> seek_back s1 line k);
                  out1 = out @ block_part line depth1 start close
              in if close = None \<and> good s2 then
                   block_loop depth1 isEscaped1 isQuoted1 out1 line s2
                 else if 0 < depth1 then (Inl UnclosedBlock, line, s2)
                 else if is_eof s2 \<and> close = None then (Inl LastBlock, line, s2)
                 else (Inr out1, line, s2))))"
  by pat_completeness auto
termination
  apply (relation "measure (\<lambda>(d, e, q, out, lb, s). left s)")
  apply (simp_all only: in_measure case_prod_conv wf_measure)
  subgoal for depth isEscaped isQuoted out lineBuffer s line s1
    using getline_progress [of s lineBuffer line s1] by (auto dest: sym)
  done

declare block_loop.simps [simp del]

text \<open>\<open>getNextBlock\<close>: the content of the block, the new \<open>_lineBuffer\<close> and the stream.\<close>

definition getNextBlock :: "istream \<Rightarrow> string \<Rightarrow> (config_exn + string) \<times> string \<times> istream" where
  "getNextBlock s lineBuffer = block_loop 0 False False [] lineBuffer s"

section \<open>Reading words moves forward\<close>

lemma word_loop_advances: "word_loop e s w = (r, w', s') \<Longrightarrow> advances s s'"
proof (induction e s w rule: word_loop.induct)
  case (1 e s0 w)
  obtain n s where p: "peek s0 = (n, s)" by (cases "peek s0")
  obtain c s1 where g: "sget s = (c, s1)" by (cases "sget s")
  obtain q w1 s2 where q: "parseQuote s1 w = (q, w1, s2)" by (cases "parseQuote s1 w")
  obtain b s3 where b: "comment_start (to_char c) w s1 = (b, s3)" by (cases "comment_start (to_char c) w s1")
  have "advances s0 s" using peek_advances [OF p] ..
  moreover have s01: "advances s0 s1"
    using peek_advances [OF p] sget_advances [OF g] advances_trans by blast
  moreover have "advances s0 s2"
    using parse_quote_advances [of False s1 w q w1 s2] q s01 advances_trans
    by (simp add: parseQuote_def)
  moreover have "advances s0 s3"
    using comment_start_advances [OF b] s01 advances_trans by blast
  moreover have "advances s0 (skipSpace (skipComment s3))"
    using comment_advances \<open>advances s0 s3\<close> advances_trans by blast
  moreover note IH = 1(1-5) [OF p [symmetric] _ g [symmetric] refl] and res = 1(6)
  ultimately show ?case
    using p g q b
    by (subst (asm) (6) word_loop.simps)
      (auto simp: Let_def split: if_splits sum.splits intro: advances_trans dest!: IH)
qed

lemma getNextWord_advances: "getNextWord s w = (r, w', s') \<Longrightarrow> advances s s'"
  unfolding getNextWord_def
  using word_loop_advances skipSpace_advances advances_trans by blast

lemma parse_values_advances: "parse_values n i s ws = (r, ws', s') \<Longrightarrow> advances s s'"
proof (induction n i s ws rule: parse_values.induct)
  case (1 n i s ws)
  obtain q w s1 where g: "getNextWord s [] = (q, w, s1)" by (cases "getNextWord s []")
  from 1 g getNextWord_advances [OF g] show ?case
    by (subst (asm) (2) parse_values.simps)
      (auto simp: Let_def split: sum.splits if_splits intro: advances_trans)
qed

text \<open>A semicolon that is found is consumed.\<close>

lemma checkSemiColon_left: "checkSemiColon s = (True, s') \<Longrightarrow> left s' < left s"
proof -
  assume a: "checkSemiColon s = (True, s')"
  obtain c s1 where p: "peek (skipSpace s) = (c, s1)" by (cases "peek (skipSpace s)")
  with a have "c = Some (CHR '';'')" and s': "s' = snd (sget s1)"
    by (auto simp: checkSemiColon_def split: if_splits)
  with p have "left s' < left (skipSpace s)" using peek_left by simp
  then show ?thesis using left_advances [OF skipSpace_advances] by (metis less_le_trans)
qed

text \<open>A word that is read is not empty.\<close>

lemma word_loop_nonempty: "word_loop e s w = (Inr 0, w', s') \<Longrightarrow> w' \<noteq> []"
proof (induction e s w rule: word_loop.induct)
  case (1 e s0 w)
  obtain n s where p: "peek s0 = (n, s)" by (cases "peek s0")
  obtain c s1 where g: "sget s = (c, s1)" by (cases "sget s")
  have delim: "delimiter x \<Longrightarrow> char_code x = 0 \<Longrightarrow> False" for x
    by (auto simp: delimiter_def isspace_def EOF_def char_code_def Let_def)
  note IH = 1(1-5) [OF p [symmetric] _ g [symmetric] refl] and res = 1(6)
  then show ?case
    using p g
    by (subst (asm) (6) word_loop.simps)
      (auto simp: Let_def split: if_splits sum.splits prod.splits dest: delim dest!: IH)
qed

lemma getNextWord_nonempty: "getNextWord s w = (Inr 0, w', s') \<Longrightarrow> w' \<noteq> []"
  unfolding getNextWord_def by (rule word_loop_nonempty)

lemma parse_values_nonempty:
  "parse_values n i s ws = (r, ws', s') \<Longrightarrow> [] \<notin> set ws \<Longrightarrow> [] \<notin> set ws'"
proof (induction n i s ws rule: parse_values.induct)
  case (1 n i s ws)
  obtain q w s1 where g: "getNextWord s [] = (q, w, s1)" by (cases "getNextWord s []")
  have "q = Inr 0 \<Longrightarrow> w \<noteq> []" using g getNextWord_nonempty by blast
  with 1 g show ?case
    by (subst (asm) (2) parse_values.simps) (auto simp: Let_def split: sum.splits if_splits)
qed

end
