(* ===== verification/Unique_Iterator.thy ===== *)
theory Unique_Iterator
  imports Prelude
begin

text \<open>
  The iterator of includes/UniqueValuesMapIterator.tpp over the distinct values of a map (both
  classes, which differ in constness only): a position in the map's entries and the set of
  the values it has left. The map is a list of entries and \<open>end\<close> its length; moving from
  the end, moving before the first entry and reading the entry at the end are
  undefined behaviour.
\<close>

record 'v umi =
  um_baseIt :: nat
  um_uniqueValues :: "'v set"

definition umi_of :: "nat \<Rightarrow> 'v umi" where
  "umi_of it = \<lparr> um_baseIt = it, um_uniqueValues = {} \<rparr>"

definition entry :: "('k \<times> 'v) list \<Rightarrow> nat \<Rightarrow> fault + 'k \<times> 'v" where
  "entry m p = (if p < length m then Inr (m ! p) else Inl BadAccess)"

definition next_pos :: "('k \<times> 'v) list \<Rightarrow> nat \<Rightarrow> fault + nat" where
  "next_pos m p = (if p < length m then Inr (p + 1) else Inl BadAccess)"

text \<open>Where the loops go on: the value is known already. \<open>stop\<close> is what the safe versions are given.\<close>

definition known :: "('k \<times> 'v) list \<Rightarrow> nat option \<Rightarrow> 'v set \<Rightarrow> nat \<Rightarrow> fault + bool" where
  "known m stop seen p =
     (if stop = Some p then Inr False
      else and_then (entry m p) (\<lambda>e. Inr (snd e \<in> seen)))"

function advance :: "('k \<times> 'v) list \<Rightarrow> nat option \<Rightarrow> 'v set \<Rightarrow> nat \<Rightarrow> fault + nat" where
  "advance m stop seen p =
     (case next_pos m p of
        Inl e \<Rightarrow> Inl e
      | Inr p1 \<Rightarrow>
          (case known m stop seen p1 of
             Inl e \<Rightarrow> Inl e
           | Inr again \<Rightarrow> if again then advance m stop seen p1 else Inr p1))"
  by pat_completeness auto
termination
  by (relation "measure (\<lambda>(m, stop, seen, p). length m - p)") (auto simp: next_pos_def split: if_splits)

declare advance.simps [simp del]

fun retreat :: "('k \<times> 'v) list \<Rightarrow> nat option \<Rightarrow> 'v set \<Rightarrow> nat \<Rightarrow> fault + nat" where
  "retreat m stop seen 0 = Inl BadAccess"
| "retreat m stop seen (Suc p) =
     and_then (known m stop seen p) (\<lambda>again. if again then retreat m stop seen p else Inr p)"

text \<open>The value that is left is noted first.\<close>

definition leave :: "('k \<times> 'v) list \<Rightarrow> (('k \<times> 'v) list \<Rightarrow> nat option \<Rightarrow> 'v set \<Rightarrow> nat \<Rightarrow> fault + nat) \<Rightarrow>
    nat option \<Rightarrow> 'v umi \<Rightarrow> fault + 'v umi" where
  "leave m move stop it =
     and_then (entry m (um_baseIt it)) (\<lambda>(k, v).
       (let seen = insert v (um_uniqueValues it) in
        and_then (move m stop seen (um_baseIt it)) (\<lambda>p.
          Inr \<lparr> um_baseIt = p, um_uniqueValues = seen \<rparr>)))"

definition safePreIncrement :: "('k \<times> 'v) list \<Rightarrow> nat \<Rightarrow> 'v umi \<Rightarrow> fault + 'v umi" where
  "safePreIncrement m stop it = leave m advance (Some stop) it"

definition safePostIncrement :: "('k \<times> 'v) list \<Rightarrow> nat \<Rightarrow> 'v umi \<Rightarrow> fault + 'v umi \<times> 'v umi" where
  "safePostIncrement m stop it = and_then (safePreIncrement m stop it) (\<lambda>it'. Inr (it, it'))"

definition safePreDecrement :: "('k \<times> 'v) list \<Rightarrow> nat \<Rightarrow> 'v umi \<Rightarrow> fault + 'v umi" where
  "safePreDecrement m start it = leave m retreat (Some start) it"

text \<open>\<open>safePostDecrement\<close> moves forward.\<close>

definition safePostDecrement :: "('k \<times> 'v) list \<Rightarrow> nat \<Rightarrow> 'v umi \<Rightarrow> fault + 'v umi \<times> 'v umi" where
  "safePostDecrement m start it = and_then (safePreIncrement m start it) (\<lambda>it'. Inr (it, it'))"

definition preIncrement :: "('k \<times> 'v) list \<Rightarrow> 'v umi \<Rightarrow> fault + 'v umi" where
  "preIncrement m it = leave m advance None it"

definition preDecrement :: "('k \<times> 'v) list \<Rightarrow> 'v umi \<Rightarrow> fault + 'v umi" where
  "preDecrement m it = leave m retreat None it"

definition postIncrement :: "('k \<times> 'v) list \<Rightarrow> 'v umi \<Rightarrow> fault + 'v umi \<times> 'v umi" where
  "postIncrement m it = and_then (preIncrement m it) (\<lambda>it'. Inr (it, it'))"

definition postDecrement :: "('k \<times> 'v) list \<Rightarrow> 'v umi \<Rightarrow> fault + 'v umi \<times> 'v umi" where
  "postDecrement m it = and_then (preDecrement m it) (\<lambda>it'. Inr (it, it'))"

section \<open>Loops over the hosts of a server\<close>

text \<open>
  The loops of \<open>ListenServer::printShort\<close> and \<open>printFull\<close> over the map of hosts, as the
  entries they print: the first calls \<open>safePostIncrement\<close> with the end of the map, the
  second the plain \<open>++\<close>.
\<close>

lemma advance_pos: "advance m stop seen p = Inr p' \<Longrightarrow> p < p' \<and> p' \<le> length m"
proof (induction m stop seen p rule: advance.induct)
  case (1 m stop seen p)
  then show ?case
    by (subst (asm) (2) advance.simps)
      (fastforce simp: next_pos_def split: if_splits sum.splits)
qed

lemma leave_pos:
  "leave m advance stop it = Inr it' \<Longrightarrow> um_baseIt it < um_baseIt it' \<and> um_baseIt it' \<le> length m"
  by (auto simp: leave_def Let_def and_then_eq_Inr dest: advance_pos)

function visit :: "('k \<times> 'v) list \<Rightarrow> nat option \<Rightarrow> 'v umi \<Rightarrow> fault + ('k \<times> 'v) list" where
  "visit m stop it =
     (if um_baseIt it = length m then Inr []
      else
        (case entry m (um_baseIt it) of
           Inl f \<Rightarrow> Inl f
         | Inr e \<Rightarrow>
             (case leave m advance stop it of
                Inl f \<Rightarrow> Inl f
              | Inr it1 \<Rightarrow> and_then (visit m stop it1) (\<lambda>es. Inr (e # es)))))"
  by pat_completeness auto
termination
  by (relation "measure (\<lambda>(m, stop, it). length m - um_baseIt it)") (auto dest!: leave_pos)

declare visit.simps [simp del]

definition printShort_hosts :: "('k \<times> 'v) list \<Rightarrow> fault + ('k \<times> 'v) list" where
  "printShort_hosts m = visit m (Some (length m)) (umi_of 0)"

definition printFull_hosts :: "('k \<times> 'v) list \<Rightarrow> fault + ('k \<times> 'v) list" where
  "printFull_hosts m = visit m None (umi_of 0)"

text \<open>The entries that bring a new value.\<close>

fun firsts :: "'v set \<Rightarrow> ('k \<times> 'v) list \<Rightarrow> ('k \<times> 'v) list" where
  "firsts seen [] = []"
| "firsts seen ((k, v) # m) = (if v \<in> seen then firsts seen m else (k, v) # firsts (insert v seen) m)"

lemma firsts_values:
  "distinct (map snd (firsts seen m)) \<and> snd ` set (firsts seen m) = snd ` set m - seen"
  by (induction seen m rule: firsts.induct) auto

lemma advance_safe:
  "p < length m \<Longrightarrow> \<exists>p'. advance m (Some (length m)) seen p = Inr p' \<and>
     firsts seen (drop p' m) = firsts seen (drop (p + 1) m) \<and> (p' < length m \<longrightarrow> snd (m ! p') \<notin> seen)"
proof (induction "length m - p" arbitrary: p rule: less_induct)
  case less
  show ?case
  proof (cases "p + 1 < length m \<and> snd (m ! (p + 1)) \<in> seen")
    case True
    then have "firsts seen (drop (p + 1) m) = firsts seen (drop (p + 2) m)"
      by (cases "m ! (p + 1)") (simp add: Cons_nth_drop_Suc [symmetric])
    moreover have "advance m (Some (length m)) seen p = advance m (Some (length m)) seen (p + 1)"
      using True by (subst advance.simps) (simp add: next_pos_def known_def entry_def case_prod_unfold)
    ultimately show ?thesis using less.hyps [of "p + 1"] True by auto
  next
    case False
    with less.prems show ?thesis
      by (subst advance.simps) (auto simp: next_pos_def known_def entry_def case_prod_unfold)
  qed
qed

lemma visit_safe:
  assumes "p \<le> length m" and "p < length m \<longrightarrow> snd (m ! p) \<notin> seen"
  shows "visit m (Some (length m)) \<lparr> um_baseIt = p, um_uniqueValues = seen \<rparr> = Inr (firsts seen (drop p m))"
  using assms
proof (induction "length m - p" arbitrary: p seen rule: less_induct)
  case less
  show ?case
  proof (cases "p = length m")
    case False
    then have p: "p < length m" using less.prems(1) by simp
    obtain k v where e: "m ! p = (k, v)" by (cases "m ! p")
    obtain p' where adv: "advance m (Some (length m)) (insert v seen) p = Inr p'"
      and first: "firsts (insert v seen) (drop p' m) = firsts (insert v seen) (drop (p + 1) m)"
      and new: "p' < length m \<longrightarrow> snd (m ! p') \<notin> insert v seen"
      using advance_safe [OF p] by blast
    have "firsts seen (drop p m) = (k, v) # firsts (insert v seen) (drop (p + 1) m)"
      using e p less.prems(2) by (simp add: Cons_nth_drop_Suc [symmetric])
    moreover have "length m - p' < length m - p" using advance_pos [OF adv] p by auto
    ultimately show ?thesis
      using less.hyps [of p' "insert v seen"] advance_pos [OF adv] p e adv first new
      by (subst visit.simps) (simp add: entry_def leave_def)
  qed (simp add: visit.simps)
qed

text \<open>
  \<open>printShort\<close> prints each host of a server exactly once, under the first of its names,
  however many names it has.
\<close>

theorem printShort_each_host_once:
  "\<exists>es. printShort_hosts m = Inr es \<and> es = firsts {} m \<and> distinct (map snd es) \<and>
     snd ` set es = snd ` set m"
  using visit_safe [of 0 m "{}"] firsts_values [of "{}" m] by (simp add: printShort_hosts_def umi_of_def)

lemma advance_unsafe: "advance m None seen p = Inr p' \<Longrightarrow> p' < length m"
proof (induction m "None :: nat option" seen p rule: advance.induct)
  case (1 m seen p)
  then show ?case
    by (subst (asm) (2) advance.simps)
      (auto simp: next_pos_def known_def entry_def split: if_splits sum.splits)
qed

lemma advance_fault: "advance m None seen p = Inl e \<Longrightarrow> e = BadAccess"
proof (induction m "None :: nat option" seen p rule: advance.induct)
  case (1 m seen p)
  then show ?case
    by (subst (asm) (2) advance.simps)
      (fastforce simp: next_pos_def known_def entry_def split: if_splits sum.splits)
qed

lemma visit_unsafe:
  "um_baseIt it < length m \<Longrightarrow> visit m None it = Inl BadAccess"
proof (induction m "None :: nat option" it rule: visit.induct)
  case (1 m it)
  have fault: "leave m advance None it = Inl e \<Longrightarrow> e = BadAccess" for e
    using advance_fault by (auto simp: leave_def entry_def and_then_eq_Inl Let_def split: if_splits)
  show ?case
  proof (cases "leave m advance None it")
    case (Inl e)
    with fault [OF Inl] 1(2) show ?thesis by (subst visit.simps) (simp add: entry_def)
  next
    case (Inr it1)
    then have "um_baseIt it1 < length m"
      by (auto simp: leave_def Let_def and_then_eq_Inr dest: advance_unsafe)
    with 1 Inr show ?thesis by (subst visit.simps) (simp add: entry_def)
  qed
qed

text \<open>
  \<open>printFull\<close> reads past the end of the map on every server that has a host: the plain
  increment compares the value of the entry at the end.
\<close>

theorem printFull_reads_past_end:
  assumes "m \<noteq> []"
  shows "printFull_hosts m = Inl BadAccess"
  using visit_unsafe [of "umi_of 0" m] assms by (simp add: printFull_hosts_def umi_of_def)

theorem printFull_reads_past_end_witness: "printFull_hosts [(''a'', 1 :: nat), (''b'', 1)] = Inl BadAccess"
  by (rule printFull_reads_past_end) simp

end
