(* ===== verification/Logger.thy ===== *)
theory Logger
  imports Std_Map Format "HOL-Library.Word"
begin

text \<open>
  The logger, srcs/ILogger.cpp: the streams that are registered with their levels, the log files
  by path, and \<open>log\<close>, a printf of its own.

  An output stream is a number, 0 stands for \<open>std::cout\<close>, and \<open>lg_out\<close> is what each has been
  sent. What the program passes after the format is a list of typed values; reading one of
  another type, or one that is not there, is undefined behaviour, and so is sending a null
  \<open>char*\<close> to a stream. The text of an object is what its own \<open>operator<<\<close> gives. Whether a file can be
  opened and what the clock says are parameters.
\<close>

section \<open>State\<close>

text \<open>\<open>LogStreamEntry\<close>; \<open>levels\<close> is an array of five.\<close>

record log_stream =
  le_os :: nat
  le_levels :: "bool list"
  le_colorize :: bool
  le_file :: bool

record logger =
  lg_streams :: "log_stream list"
  lg_files :: "nat list"
  lg_fileTable :: "(string, nat) std_map"
  lg_isInit :: bool
  lg_out :: "nat \<Rightarrow> string"
  lg_next :: nat  \<comment> \<open>the number of the next \<open>new std::ofstream()\<close>\<close>

record log_env =
  en_opens :: "string \<Rightarrow> bool"
  en_elapsed :: int
  en_date :: string

definition cout :: nat where "cout = 0"

definition new_logger :: logger where
  "new_logger = \<lparr> lg_streams = [], lg_files = [], lg_fileTable = [], lg_isInit = False, lg_out = (\<lambda>_. []), lg_next = 1 \<rparr>"

definition LOG_ERROR :: int where "LOG_ERROR = 1"
definition LOG_WARNING :: int where "LOG_WARNING = 2"
definition LOG_INFO :: int where "LOG_INFO = 3"
definition LOG_DEBUG :: int where "LOG_DEBUG = 4"
definition LOG_VERBOSE :: int where "LOG_VERBOSE = 5"
definition LOG_LVL_MAX :: int where "LOG_LVL_MAX = LOG_VERBOSE"

definition LOG_ERROR_MSK :: "8 word" where "LOG_ERROR_MSK = 1"
definition LOG_CONFIG_DEBUG :: "8 word" where "LOG_CONFIG_DEBUG = 15"
definition LOG_CONFIG_INFO :: "8 word" where "LOG_CONFIG_INFO = 7"
definition LOG_COLORIZE_MSK :: "8 word" where "LOG_COLORIZE_MSK = 32"

text \<open>The escape sequences of the terminal.\<close>

definition term_cl :: "string \<Rightarrow> string" where
  "term_cl code = CHR 0x1B # CHR ''['' # code @ ''m''"

definition TERM_CL_BOLD :: string where "TERM_CL_BOLD = term_cl ''1''"
definition TERM_CL_RESET :: string where "TERM_CL_RESET = term_cl ''0''"
definition TERM_CL_GREEN :: string where "TERM_CL_GREEN = term_cl ''32''"
definition TERM_CL_MAGENTA :: string where "TERM_CL_MAGENTA = term_cl ''35''"

definition colors :: "int \<Rightarrow> fault + string" where
  "colors level =
     (if level < 0 \<or> LOG_LVL_MAX < level then Inl BadAccess
      else Inr ([term_cl ''37'', term_cl ''31'', term_cl ''33'', term_cl ''32'', term_cl ''35'', term_cl ''37'']
                ! nat level))"

section \<open>The registered streams\<close>

definition level_at :: "bool list \<Rightarrow> int \<Rightarrow> fault + bool" where
  "level_at levels i = (if 0 \<le> i \<and> i < int (length levels) then Inr (levels ! nat i) else Inl BadAccess)"

definition findOs :: "nat \<Rightarrow> logger \<Rightarrow> log_stream option" where
  "findOs os lg = List.find (\<lambda>e. le_os e = os) (lg_streams lg)"

definition entry_add :: "nat \<Rightarrow> bool list \<Rightarrow> bool \<Rightarrow> bool \<Rightarrow> logger \<Rightarrow> logger" where
  "entry_add os levels colorize isFile lg =
     (if findOs os lg \<noteq> None then lg
      else lg\<lparr>lg_streams := lg_streams lg @
             [\<lparr> le_os = os, le_levels = levels, le_colorize = colorize, le_file = isFile \<rparr>]\<rparr>)"

text \<open>The functions below change the first entry \<open>findOs\<close> finds.\<close>

fun remove_entry :: "nat \<Rightarrow> log_stream list \<Rightarrow> log_stream list" where
  "remove_entry os [] = []"
| "remove_entry os (e # es) = (if le_os e = os then es else e # remove_entry os es)"

definition removeStream :: "nat \<Rightarrow> logger \<Rightarrow> logger" where
  "removeStream os lg = lg\<lparr>lg_streams := remove_entry os (lg_streams lg)\<rparr>"

fun edit_entry :: "nat \<Rightarrow> bool list \<Rightarrow> bool \<Rightarrow> log_stream list \<Rightarrow> log_stream list" where
  "edit_entry os levels colorize [] = []"
| "edit_entry os levels colorize (e # es) =
     (if le_os e = os then e\<lparr>le_colorize := colorize, le_levels := levels\<rparr> # es
      else e # edit_entry os levels colorize es)"

definition editStream :: "nat \<Rightarrow> bool list \<Rightarrow> bool \<Rightarrow> logger \<Rightarrow> logger" where
  "editStream os levels colorize lg = lg\<lparr>lg_streams := edit_entry os levels colorize (lg_streams lg)\<rparr>"

text \<open>\<open>fastCheck\<close>: a level of 5 and more reads past the end of the array.\<close>

fun fast_check :: "int \<Rightarrow> log_stream list \<Rightarrow> fault + bool" where
  "fast_check level [] = Inr False"
| "fast_check level (e # es) =
     and_then (level_at (le_levels e) (if LOG_LVL_MAX < level then LOG_LVL_MAX else level)) (\<lambda>b.
       if b then Inr True else fast_check level es)"

definition fastCheck :: "int \<Rightarrow> logger \<Rightarrow> fault + bool" where
  "fastCheck level lg = fast_check level (lg_streams lg)"

definition getLevels :: "nat \<Rightarrow> logger \<Rightarrow> bool list option" where
  "getLevels os lg = map_option le_levels (findOs os lg)"

text \<open>\<open>getColorize\<close> returns the address of the levels as a boolean.\<close>

definition getColorize :: "nat \<Rightarrow> logger \<Rightarrow> bool" where
  "getColorize os lg = (findOs os lg \<noteq> None)"

definition getNbr :: "logger \<Rightarrow> nat" where
  "getNbr lg = length (lg_streams lg)"

section \<open>Printing\<close>

definition wants :: "int \<Rightarrow> log_stream \<Rightarrow> fault + bool" where
  "wants lvl e =
     (if lvl = -1 \<and> le_file e then Inr True
      else if lvl = 0 then Inr True
      else if 0 < lvl then level_at (le_levels e) (lvl - 1)
      else Inr False)"

definition send :: "nat \<Rightarrow> string option \<Rightarrow> (nat \<Rightarrow> string) \<Rightarrow> fault + (nat \<Rightarrow> string)" where
  "send os t out = (case t of None \<Rightarrow> Inl BadAccess | Some x \<Rightarrow> Inr (out(os := out os @ x)))"

fun print_where ::
  "(log_stream \<Rightarrow> bool) \<Rightarrow> string option \<Rightarrow> int \<Rightarrow> log_stream list \<Rightarrow> (nat \<Rightarrow> string) \<Rightarrow> fault + (nat \<Rightarrow> string)" where
  "print_where P t lvl [] out = Inr out"
| "print_where P t lvl (e # es) out =
     and_then (wants lvl e) (\<lambda>b.
       and_then (if b \<and> P e then send (le_os e) t out else Inr out) (print_where P t lvl es))"

definition lprint :: "string option \<Rightarrow> int \<Rightarrow> logger \<Rightarrow> fault + logger" where
  "lprint t lvl lg =
     and_then (print_where (\<lambda>_. True) t lvl (lg_streams lg) (lg_out lg)) (\<lambda>out. Inr (lg\<lparr>lg_out := out\<rparr>))"

definition colorize :: "string \<Rightarrow> int \<Rightarrow> logger \<Rightarrow> fault + logger" where
  "colorize code lvl lg =
     and_then (print_where le_colorize (Some code) lvl (lg_streams lg) (lg_out lg)) (\<lambda>out.
       Inr (lg\<lparr>lg_out := out\<rparr>))"

definition printTimestamp :: "log_env \<Rightarrow> int \<Rightarrow> logger \<Rightarrow> fault + logger" where
  "printTimestamp env level lg =
     and_then (colorize TERM_CL_BOLD level lg) (\<lambda>lg1.
     and_then (colors level) (\<lambda>code.
     and_then (colorize code level lg1) (\<lambda>lg2.
     and_then (lprint (Some ''['') level lg2) (\<lambda>lg3.
     and_then (lprint (Some (itostr (en_elapsed env))) level lg3) (\<lambda>lg4.
     and_then (lprint (Some ''] '') level lg4) (colorize TERM_CL_RESET level))))))"

definition logDate :: "log_env \<Rightarrow> int \<Rightarrow> logger \<Rightarrow> fault + logger" where
  "logDate env level lg =
     and_then (colorize (TERM_CL_BOLD @ TERM_CL_GREEN) level lg) (\<lambda>lg1.
     and_then (lprint (Some ([CHR 0x0A, CHR 0x09] @ ''---'')) level lg1) (\<lambda>lg2.
     and_then (lprint (Some (en_date env)) level lg2) (\<lambda>lg3.
     and_then (lprint (Some (''---'' @ [CHR 0x0A, CHR 0x0A])) level lg3) (colorize TERM_CL_RESET level))))"

section \<open>The format\<close>

datatype obj_kind = Obj_Host | Obj_Location | Obj_Server | Obj_CGI | Obj_Client

datatype log_arg =
    Arg_int int | Arg_uint int | Arg_long int | Arg_ulong int
  | Arg_double string  \<comment> \<open>its text\<close>
  | Arg_cstr "string option" | Arg_string "string option" | Arg_object obj_kind "string option"

datatype conv =
    To_percent | To_int | To_uint | To_long | To_ulong | To_double | To_cstr
  | To_string int  \<comment> \<open>the length it is cut to, if that is not negative\<close>
  | To_object obj_kind
  | To_nothing

text \<open>
  What follows a per cent sign: the conversion and the rest of the format, or the end of the
  message.
\<close>

definition directive :: "char \<Rightarrow> string \<Rightarrow> (conv \<times> string) option" where
  "directive d ds =
     (let n = char_at ds 0 in
      if d = CHR ''%'' then Some (To_percent, ds)
      else if d = CHR ''d'' \<or> d = CHR ''i'' then Some (To_int, ds)
      else if d = CHR ''s'' then
        Some (if n = CHR ''s'' then (To_string (-1), tl ds)
              else if n = CHR ''h'' then (To_string 10, tl ds)
              else if n = CHR ''l'' then (To_string 20, tl ds)
              else (To_cstr, ds))
      else if d = CHR ''f'' then Some (To_double, ds)
      else if d = CHR ''u'' then Some (To_uint, ds)
      else if d = CHR ''l'' then
        Some (if n = CHR ''d'' then (To_long, tl ds)
              else if n = CHR ''u'' then (To_ulong, tl ds)
              else if n = CHR ''f'' then (To_double, tl ds)
              else (To_nothing, ds))
      else if d = CHR ''H'' then Some (To_object Obj_Host, ds)
      else if d = CHR ''L'' then
        Some (if n = CHR ''o'' then (To_object Obj_Location, tl ds)
              else if n = CHR ''s'' then (To_object Obj_Server, tl ds)
              else (To_nothing, ds))
      else if d = CHR ''C'' then
        Some (if n = CHR ''g'' then (To_object Obj_CGI, tl ds)
              else if n = CHR ''l'' then (To_object Obj_Client, tl ds)
              else (To_nothing, ds))
      else None)"

text \<open>
  \<open>va_arg\<close> and the text of the value. A signed and an unsigned type of one width may stand
  for each other if the value fits both. \<open>(NULL)\<close> stands for a null pointer, except with
  \<open>%s\<close>, where the null pointer itself goes to the streams.
\<close>

definition int_arg :: "nat \<Rightarrow> log_arg \<Rightarrow> int option" where
  "int_arg w a =
     (case a of
        Arg_int n \<Rightarrow> if w = 32 then Some n else None
      | Arg_uint n \<Rightarrow> if w = 32 \<and> n < 2 ^ 31 then Some n else None
      | Arg_long n \<Rightarrow> if w = 64 then Some n else None
      | Arg_ulong n \<Rightarrow> if w = 64 \<and> n < 2 ^ 63 then Some n else None
      | _ \<Rightarrow> None)"

definition uint_arg :: "nat \<Rightarrow> log_arg \<Rightarrow> int option" where
  "uint_arg w a =
     (case a of
        Arg_int n \<Rightarrow> if w = 32 \<and> 0 \<le> n then Some n else None
      | Arg_uint n \<Rightarrow> if w = 32 then Some n else None
      | Arg_long n \<Rightarrow> if w = 64 \<and> 0 \<le> n then Some n else None
      | Arg_ulong n \<Rightarrow> if w = 64 then Some n else None
      | _ \<Rightarrow> None)"

definition null_text :: "string option \<Rightarrow> string" where
  "null_text x = (case x of None \<Rightarrow> ''(NULL)'' | Some s \<Rightarrow> s)"

definition arg_text :: "conv \<Rightarrow> log_arg \<Rightarrow> string option option" where
  "arg_text cv a =
     (case cv of
        To_int \<Rightarrow> map_option (\<lambda>n. Some (itostr n)) (int_arg 32 a)
      | To_uint \<Rightarrow> map_option (\<lambda>n. Some (itostr n)) (uint_arg 32 a)
      | To_long \<Rightarrow> map_option (\<lambda>n. Some (itostr n)) (int_arg 64 a)
      | To_ulong \<Rightarrow> map_option (\<lambda>n. Some (itostr n)) (uint_arg 64 a)
      | To_double \<Rightarrow> (case a of Arg_double t \<Rightarrow> Some (Some t) | _ \<Rightarrow> None)
      | To_cstr \<Rightarrow> (case a of Arg_cstr p \<Rightarrow> Some (map_option c_str p) | _ \<Rightarrow> None)
      | To_string len \<Rightarrow>
          (case a of
             Arg_string (Some s) \<Rightarrow> Some (Some (if 0 \<le> len then take (nat len) s else s))
           | Arg_string None \<Rightarrow> Some (Some ''(NULL)'')
           | _ \<Rightarrow> None)
      | To_object k \<Rightarrow>
          (case a of Arg_object k' t \<Rightarrow> if k' = k then Some (Some (null_text t)) else None | _ \<Rightarrow> None)
      | _ \<Rightarrow> None)"

definition take_arg :: "conv \<Rightarrow> log_arg list \<Rightarrow> fault + string option \<times> log_arg list" where
  "take_arg cv args =
     (if cv = To_percent then Inr (Some ''%'', args)
      else
        (case args of
           [] \<Rightarrow> Inl BadAccess
         | a # as \<Rightarrow> (case arg_text cv a of None \<Rightarrow> Inl BadAccess | Some t \<Rightarrow> Inr (t, as))))"

lemma directive_shorter: "directive d ds = Some (cv, rest) \<Longrightarrow> length rest \<le> length ds"
  by (auto simp: directive_def Let_def split: if_splits)

function parse_format :: "string \<Rightarrow> log_arg list \<Rightarrow> int \<Rightarrow> logger \<Rightarrow> fault + logger" where
  "parse_format fmt args lvl lg =
     (case fmt of
        [] \<Rightarrow> Inr lg
      | c # cs \<Rightarrow>
          if c \<noteq> CHR ''%'' then
            (case lprint (Some [c]) lvl lg of Inl e \<Rightarrow> Inl e | Inr lg1 \<Rightarrow> parse_format cs args lvl lg1)
          else
            (case directive (char_at cs 0) (tl cs) of
               None \<Rightarrow> Inr lg
             | Some (cv, rest) \<Rightarrow>
                 if cv = To_nothing then parse_format rest args lvl lg
                 else
                   (case take_arg cv args of
                      Inl e \<Rightarrow> Inl e
                    | Inr (t, args1) \<Rightarrow>
                        (case lprint t lvl lg of
                           Inl e \<Rightarrow> Inl e
                         | Inr lg1 \<Rightarrow> parse_format rest args1 lvl lg1))))"
  by pat_completeness auto
termination
  by (relation "measure (\<lambda>(fmt, args, lvl, lg). length fmt)") (auto dest: directive_shorter)

declare parse_format.simps [simp del]

definition parseFormat :: "string option \<Rightarrow> log_arg list \<Rightarrow> int \<Rightarrow> logger \<Rightarrow> fault + logger" where
  "parseFormat fmt args lvl lg =
     (case fmt of None \<Rightarrow> Inr lg | Some f \<Rightarrow> parse_format (c_str f) args lvl lg)"

section \<open>Log files and messages\<close>

definition levels_of :: "8 word \<Rightarrow> bool list" where
  "levels_of flags = map (\<lambda>i. and flags (push_bit i 1) \<noteq> 0) [0..<5]"

definition addStream :: "nat \<Rightarrow> 8 word \<Rightarrow> logger \<Rightarrow> logger" where
  "addStream os flags lg = entry_add os (levels_of flags) (and flags LOG_COLORIZE_MSK \<noteq> 0) False lg"

text \<open>\<open>LOG_AUTO_LOGFILE\<close> is 0: no log file is opened by default.\<close>

definition initDefault :: "log_env \<Rightarrow> logger \<Rightarrow> fault + logger" where
  "initDefault env lg = logDate env (-1) (addStream cout (or LOG_CONFIG_DEBUG LOG_COLORIZE_MSK) lg)"

definition clamp_level :: "int \<Rightarrow> int" where
  "clamp_level lvl = (if LOG_LVL_MAX < lvl then LOG_LVL_MAX else if lvl < -1 then -1 else lvl)"

definition log_msg :: "log_env \<Rightarrow> int \<Rightarrow> string option \<Rightarrow> log_arg list \<Rightarrow> logger \<Rightarrow> fault + logger" where
  "log_msg env lvl fmt args lg =
     and_then (if lg_isInit lg then Inr lg else initDefault env (lg\<lparr>lg_isInit := True\<rparr>)) (\<lambda>lg1.
     and_then (printTimestamp env (clamp_level lvl) lg1) (parseFormat fmt args (clamp_level lvl)))"

text \<open>The file table holds positions in the list of files.\<close>

definition table_file :: "string \<Rightarrow> logger \<Rightarrow> nat option" where
  "table_file path lg = map_find str_less path (lg_fileTable lg)"

definition drop_file :: "nat \<Rightarrow> logger \<Rightarrow> fault + logger" where
  "drop_file i lg =
     (if i \<in> set (lg_files lg) then
        (let lg1 = removeStream i lg in Inr (lg1\<lparr>lg_files := removeAll i (lg_files lg1)\<rparr>))
      else Inl BadAccess)"

definition removeLogFile :: "string \<Rightarrow> logger \<Rightarrow> fault + logger" where
  "removeLogFile path lg =
     (case table_file path lg of
        None \<Rightarrow> Inr lg
      | Some i \<Rightarrow>
          and_then (drop_file i lg) (\<lambda>lg1.
            Inr (lg1\<lparr>lg_fileTable := map_erase str_less path (lg_fileTable lg1)\<rparr>)))"

definition open_error :: string where
  "open_error = ''Error adding log file : unable to open %ss. If it refers to a subdir, is the subdir created ?'' @ [CHR 0x0A]"

definition add_log_file :: "log_env \<Rightarrow> string \<Rightarrow> bool list \<Rightarrow> bool \<Rightarrow> logger \<Rightarrow> fault + int \<times> logger" where
  "add_log_file env path levels color lg =
     (if table_file path lg \<noteq> None then Inr (0, lg)
      else
        (let i = lg_next lg;
             lg1 = lg\<lparr>lg_next := i + 1, lg_files := i # lg_files lg,
                      lg_fileTable := map_set str_less path i (lg_fileTable lg)\<rparr> in
         if \<not> en_opens env (c_str path) then
           and_then (removeLogFile path lg1) (\<lambda>lg2.
           and_then (log_msg env LOG_ERROR (Some open_error) [Arg_string (Some path)] lg2) (\<lambda>lg3. Inr (1, lg3)))
         else Inr (0, entry_add i levels color True lg1)))"

definition addLogFile :: "log_env \<Rightarrow> string \<Rightarrow> 8 word \<Rightarrow> logger \<Rightarrow> fault + int \<times> logger" where
  "addLogFile env path flags lg =
     add_log_file env path (levels_of flags) (and flags LOG_COLORIZE_MSK \<noteq> 0) lg"

definition setLogLvl :: "nat \<Rightarrow> bool list \<Rightarrow> bool \<Rightarrow> logger \<Rightarrow> logger" where
  "setLogLvl os levels color lg = editStream os levels color lg"

definition setLogLvl_path :: "string \<Rightarrow> bool list \<Rightarrow> bool \<Rightarrow> logger \<Rightarrow> fault + logger" where
  "setLogLvl_path path levels color lg =
     (case table_file path lg of
        None \<Rightarrow> Inr lg
      | Some i \<Rightarrow> if i \<in> set (lg_files lg) then Inr (setLogLvl i levels color lg) else Inl BadAccess)"

fun clear_each :: "(string \<times> nat) list \<Rightarrow> logger \<Rightarrow> fault + logger" where
  "clear_each [] lg = Inr lg"
| "clear_each ((p, i) # rest) lg = and_then (drop_file i lg) (clear_each rest)"

definition clearFiles :: "logger \<Rightarrow> fault + logger" where
  "clearFiles lg = and_then (clear_each (lg_fileTable lg) lg) (\<lambda>lg1. Inr (lg1\<lparr>lg_fileTable := []\<rparr>))"

definition setInit :: "logger \<Rightarrow> logger" where
  "setInit lg = lg\<lparr>lg_isInit := True\<rparr>"

text \<open>\<open>printLogConfig\<close> writes to \<open>std::cout\<close> whatever the levels.\<close>

definition level_names :: "bool list \<Rightarrow> string" where
  "level_names ls =
     concat (map (\<lambda>(b, name). if b then name else [])
       (zip ls ['' | CLIENT_MODE_ERROR'', '' | WARNING'', '' | INFO'', '' | DEBUG'', '' | VERBOSE'']))"

definition config_line :: "string \<Rightarrow> log_stream \<Rightarrow> string" where
  "config_line path e =
     CHR 0x09 # ''- '' @ path @ [CHR 0x0A, CHR 0x09, CHR 0x09] @ level_names (le_levels e) @
     [CHR 0x0A, CHR 0x09, CHR 0x09] @ '' colorize = '' @ (if le_colorize e then ''1'' else ''0'') @ [CHR 0x0A]"

fun config_lines :: "(string \<times> nat) list \<Rightarrow> logger \<Rightarrow> fault + string" where
  "config_lines [] lg = Inr []"
| "config_lines ((path, i) # rest) lg =
     and_then (if i \<in> set (lg_files lg) then deref (findOs i lg) else Inl BadAccess) (\<lambda>e.
     and_then (config_lines rest lg) (\<lambda>t. Inr (config_line path e @ t)))"

definition printLogConfig :: "logger \<Rightarrow> fault + logger" where
  "printLogConfig lg =
     and_then (config_lines (lg_fileTable lg) lg) (\<lambda>t.
       Inr (lg\<lparr>lg_out := (lg_out lg)(cout := lg_out lg cout @
         TERM_CL_BOLD @ TERM_CL_MAGENTA @ ''------- [LOG CONFIG] -------'' @ [CHR 0x0A] @
         itostr (int (getNbr lg)) @ '' stream(s) registered, including '' @
         itostr (int (length (lg_files lg))) @ '' file(s) :'' @ [CHR 0x0A] @
         t @ TERM_CL_RESET @ [CHR 0x0A])\<rparr>))"

text \<open>\<open>initLogs\<close> of main.cpp.\<close>

definition initLogs :: "log_env \<Rightarrow> logger \<Rightarrow> fault + logger" where
  "initLogs env lg =
     and_then (addLogFile env ''logs/sessions.log'' LOG_CONFIG_DEBUG
       (addStream cout (or LOG_CONFIG_INFO LOG_COLORIZE_MSK) lg)) (\<lambda>(_, lg1).
     and_then (addLogFile env ''logs/error.log'' LOG_ERROR_MSK lg1) (\<lambda>(_, lg2).
     and_then (logDate env (-1) lg2) (\<lambda>lg3. printLogConfig (setInit lg3))))"
section \<open>What a message writes\<close>

text \<open>
  The streams that take a message of a level, and a message as one text: what a format makes
  of its arguments (\<open>render\<close>), after the stamp with its colours.
\<close>

definition taken :: "(log_stream \<Rightarrow> bool) \<Rightarrow> int \<Rightarrow> logger \<Rightarrow> nat \<Rightarrow> bool" where
  "taken P lvl lg os \<longleftrightarrow>
     (\<exists>e \<in> set (lg_streams lg). le_os e = os \<and> P e \<and> wants lvl e = Inr True)"

definition append_out :: "(nat \<Rightarrow> string) \<Rightarrow> logger \<Rightarrow> logger" where
  "append_out f lg = lg\<lparr>lg_out := (\<lambda>os. lg_out lg os @ f os)\<rparr>"

function render :: "string \<Rightarrow> log_arg list \<Rightarrow> string option" where
  "render fmt args =
     (case fmt of
        [] \<Rightarrow> Some []
      | c # cs \<Rightarrow>
          if c \<noteq> CHR ''%'' then (case render cs args of None \<Rightarrow> None | Some t \<Rightarrow> Some (c # t))
          else
            (case directive (char_at cs 0) (tl cs) of
               None \<Rightarrow> Some []
             | Some (cv, rest) \<Rightarrow>
                 if cv = To_nothing then render rest args
                 else
                   (case take_arg cv args of
                      Inr (Some t, args1) \<Rightarrow>
                        (case render rest args1 of None \<Rightarrow> None | Some u \<Rightarrow> Some (t @ u))
                    | _ \<Rightarrow> None)))"
  by pat_completeness auto
termination
  by (relation "measure (\<lambda>(fmt, args). length fmt)") (auto dest: directive_shorter)

declare render.simps [simp del]

definition stamp :: "log_env \<Rightarrow> int \<Rightarrow> bool \<Rightarrow> string" where
  "stamp env lvl color =
     (if color then TERM_CL_BOLD @ (case colors lvl of Inl _ \<Rightarrow> [] | Inr c \<Rightarrow> c) else []) @
     ''['' @ itostr (en_elapsed env) @ ''] '' @ (if color then TERM_CL_RESET else [])"

definition streams_ok :: "log_stream list \<Rightarrow> bool" where
  "streams_ok es \<longleftrightarrow> distinct (map le_os es) \<and> (\<forall>e \<in> set es. length (le_levels e) = 5)"

lemma append_out_simps [simp]:
  "lg_streams (append_out f lg) = lg_streams lg" "lg_files (append_out f lg) = lg_files lg"
  "lg_fileTable (append_out f lg) = lg_fileTable lg" "lg_next (append_out f lg) = lg_next lg"
  "lg_isInit (append_out f lg) = lg_isInit lg"
  "append_out f (append_out g lg) = append_out (\<lambda>os. g os @ f os) lg"
  "taken P lvl (append_out f lg) = taken P lvl lg"
  by (simp_all add: append_out_def taken_def fun_eq_iff)

lemma append_out_none [simp]: "append_out (\<lambda>os. []) lg = lg"
  by (simp add: append_out_def)

lemma wants_some:
  "length (le_levels e) = 5 \<Longrightarrow> -1 \<le> lvl \<Longrightarrow> lvl \<le> 5 \<Longrightarrow> \<exists>b. wants lvl e = Inr b"
  by (auto simp: wants_def level_at_def)

lemma print_where_writes:
  assumes "streams_ok es" and "-1 \<le> lvl" and "lvl \<le> 5"
  shows "print_where P (Some t) lvl es out = Inr (\<lambda>os. out os @
    (if \<exists>e \<in> set es. le_os e = os \<and> P e \<and> wants lvl e = Inr True then t else []))"
  using assms(1)
proof (induction es arbitrary: out)
  case (Cons e es)
  then obtain b where b: "wants lvl e = Inr b"
    using wants_some [of e lvl] assms(2,3) by (auto simp: streams_ok_def)
  have es: "streams_ok es" and new: "\<forall>x \<in> set es. le_os x \<noteq> le_os e"
    using Cons.prems by (auto simp: streams_ok_def intro: rev_image_eqI)
  show ?case
    using Cons.IH [OF es] b new by (auto simp: send_def fun_eq_iff)
qed simp

lemma lprint_writes:
  assumes "streams_ok (lg_streams lg)" and "-1 \<le> lvl" and "lvl \<le> 5"
  shows "lprint (Some t) lvl lg = Inr (append_out (\<lambda>os. if taken (\<lambda>_. True) lvl lg os then t else []) lg)"
  by (simp add: lprint_def print_where_writes [OF assms] append_out_def taken_def)

lemma colorize_writes:
  assumes "streams_ok (lg_streams lg)" and "-1 \<le> lvl" and "lvl \<le> 5"
  shows "colorize t lvl lg = Inr (append_out (\<lambda>os. if taken le_colorize lvl lg os then t else []) lg)"
  by (simp add: colorize_def print_where_writes [OF assms] append_out_def taken_def)

lemma taken_color: "taken le_colorize lvl lg os \<Longrightarrow> taken (\<lambda>_. True) lvl lg os"
  by (auto simp: taken_def)

lemma stamp_writes:
  assumes "streams_ok (lg_streams lg)" and "0 \<le> lvl" and "lvl \<le> 5"
  shows "printTimestamp env lvl lg = Inr (append_out (\<lambda>os.
    if taken (\<lambda>_. True) lvl lg os then stamp env lvl (taken le_colorize lvl lg os) else []) lg)"
proof -
  obtain c where "colors lvl = Inr c" using assms(2,3) by (simp add: colors_def LOG_LVL_MAX_def LOG_VERBOSE_def)
  then show ?thesis
    using assms
    by (simp add: printTimestamp_def lprint_writes colorize_writes)
      (auto intro!: arg_cong [where f = "\<lambda>f. append_out f lg"] simp: fun_eq_iff stamp_def dest: taken_color)
qed

lemma date_writes:
  assumes "streams_ok (lg_streams lg)" and "-1 \<le> lvl" and "lvl \<le> 5"
  shows "\<exists>f. logDate env lvl lg = Inr (append_out f lg)"
  using assms by (simp add: logDate_def lprint_writes colorize_writes) blast

lemma format_writes:
  assumes "streams_ok (lg_streams lg)" and "-1 \<le> lvl" and "lvl \<le> 5" and "render fmt args = Some msg"
  shows "parse_format fmt args lvl lg =
    Inr (append_out (\<lambda>os. if taken (\<lambda>_. True) lvl lg os then msg else []) lg)"
  using assms
proof (induction fmt args lvl lg arbitrary: msg rule: parse_format.induct)
  case (1 fmt args lvl lg)
  note out = lprint_writes [OF 1(4-6)]
  note result = arg_cong [where f = "\<lambda>f. append_out f lg", OF ext]
  show ?case
  proof (cases fmt)
    case Nil
    with 1(7) have "msg = []" by (simp add: render.simps)
    show ?thesis unfolding Nil \<open>msg = []\<close> by (subst parse_format.simps) simp
  next
    case (Cons c cs)
    show ?thesis
    proof (cases "c = CHR ''%''")
      case False
      with 1(7) Cons obtain t where t: "render cs args = Some t" "msg = c # t"
        by (subst (asm) render.simps) (auto split: option.splits)
      show ?thesis
        using False Cons out 1(1) [OF Cons False out _ _ _ t(1)] 1(4-6) t(2)
        by (subst parse_format.simps) (auto intro: result)
    next
      case percent: True
      show ?thesis
      proof (cases "directive (char_at cs 0) (tl cs)")
        case None
        with 1(7) Cons percent have "msg = []" by (subst (asm) render.simps) simp
        show ?thesis unfolding Cons \<open>msg = []\<close> by (subst parse_format.simps) (simp add: None percent)
      next
        case (Some p)
        obtain cv rest where p: "p = (cv, rest)" by (cases p)
        show ?thesis
        proof (cases "cv = To_nothing")
          case True
          then have "render rest args = Some msg"
            using 1(7) Cons percent Some p by (subst (asm) render.simps) simp
          with True show ?thesis
            using Cons percent Some p 1(2) [OF Cons _ Some p [symmetric] True] 1(4-6) by (subst parse_format.simps) simp
        next
          case False
          with 1(7) Cons percent Some p obtain t args1 u where t: "take_arg cv args = Inr (Some t, args1)"
            "render rest args1 = Some u" "msg = t @ u"
            by (subst (asm) render.simps) (auto split: sum.splits prod.splits option.splits)
          show ?thesis
            using Cons percent Some p False t(1,3) out
              1(3) [OF Cons _ Some p [symmetric] False t(1) refl out _ _ _ t(2)] 1(4-6)
            by (subst parse_format.simps) (auto intro: result)
        qed
      qed
    qed
  qed
qed
lemma log_appends:
  assumes "streams_ok (lg_streams lg)" and "lg_isInit lg" and "0 \<le> lvl" and "render (c_str fmt) args = Some msg"
  shows "log_msg env lvl (Some fmt) args lg = Inr (append_out (\<lambda>os.
      if taken (\<lambda>_. True) (min lvl 5) lg os
      then stamp env (min lvl 5) (taken le_colorize (min lvl 5) lg os) @ msg else []) lg)"
proof -
  have l: "clamp_level lvl = min lvl 5" "0 \<le> min lvl 5" "min lvl 5 \<le> 5" "-1 \<le> min lvl 5"
    using assms(3) by (simp_all add: clamp_level_def LOG_LVL_MAX_def LOG_VERBOSE_def)
  note stamped = stamp_writes [OF assms(1) l(2,3), of env]
  have "streams_ok (lg_streams (append_out f lg))" for f using assms(1) by simp
  note written = format_writes [OF this l(4,3) assms(4)]
  show ?thesis
    using assms(2) stamped written
    by (simp add: log_msg_def parseFormat_def l(1))
      (auto intro!: arg_cong [where f = "\<lambda>f. append_out f lg"])
qed

text \<open>
  C36. A message goes to exactly the streams that are registered for its level, whole and in one
  piece: each of them gets the stamp, in the colour of the level where colours are on, and
  the text its format makes of the arguments, after what it already had; nothing else
  changes. A level above the last one counts as the last.
\<close>

theorem log_writes_streams:
  assumes "streams_ok (lg_streams lg)" and "lg_isInit lg" and "0 \<le> lvl" and "render (c_str fmt) args = Some msg"
  shows "log_msg env lvl (Some fmt) args lg =
    Inr (lg\<lparr>lg_out := (\<lambda>os. lg_out lg os @
      (if taken (\<lambda>_. True) (min lvl 5) lg os
       then stamp env (min lvl 5) (taken le_colorize (min lvl 5) lg os) @ msg else []))\<rparr>)"
  using log_appends [OF assms, of env] by (simp add: append_out_def)

text \<open>\<open>log\<close> with the level of the file streams reads the table of colours before its first entry.\<close>

lemma log_to_files_undefined:
  assumes "streams_ok (lg_streams lg)" and "lg_isInit lg" and "lvl < 0"
  shows "log_msg env lvl fmt args lg = Inl BadAccess"
proof -
  have "clamp_level lvl = -1" using assms(3) by (simp add: clamp_level_def LOG_LVL_MAX_def LOG_VERBOSE_def)
  with assms(1,2) show ?thesis
    by (simp add: log_msg_def printTimestamp_def colorize_writes colors_def)
qed

section \<open>The registry of log files\<close>

text \<open>
  The streams are distinct; the files are exactly the registered streams that are marked as
  files, and exactly those in the file table, one path each.
\<close>

definition logger_ok :: "logger \<Rightarrow> bool" where
  "logger_ok lg \<longleftrightarrow>
     streams_ok (lg_streams lg) \<and> distinct (lg_files lg) \<and> distinct (map snd (lg_fileTable lg)) \<and>
     map_ordered str_less (lg_fileTable lg) \<and> snd ` set (lg_fileTable lg) = set (lg_files lg) \<and>
     (\<forall>e \<in> set (lg_streams lg). le_os e < lg_next lg \<and> (le_file e \<longleftrightarrow> le_os e \<in> set (lg_files lg))) \<and>
     set (lg_files lg) \<subseteq> le_os ` set (lg_streams lg) \<and>
     cout \<notin> set (lg_files lg) \<and> cout < lg_next lg"

lemma new_logger_ok: "logger_ok new_logger"
  by (simp add: logger_ok_def new_logger_def streams_ok_def cout_def)

lemma append_out_ok [simp]: "logger_ok (append_out f lg) = logger_ok lg"
  by (simp add: logger_ok_def)

lemma remove_entry_filter:
  "distinct (map le_os es) \<Longrightarrow> remove_entry os es = filter (\<lambda>e. le_os e \<noteq> os) es"
proof (induction es)
  case (Cons e es)
  then have "le_os e = os \<Longrightarrow> filter (\<lambda>x. le_os x \<noteq> os) es = es"
    by (intro filter_True) (auto intro: rev_image_eqI)
  with Cons show ?case by simp
qed simp

lemma find_entry: "findOs os lg = None \<longleftrightarrow> os \<notin> le_os ` set (lg_streams lg)"
  by (auto simp: findOs_def find_None_iff)

lemma streams_ok_filter: "streams_ok es \<Longrightarrow> streams_ok (filter P es)"
  by (auto simp: streams_ok_def distinct_map inj_on_def)

text \<open>Dropping the files of a part of the table.\<close>

lemma clear_each_result:
  assumes "streams_ok (lg_streams lg)" and "distinct (map snd xs)" and "snd ` set xs \<subseteq> set (lg_files lg)"
  shows "clear_each xs lg = Inr (lg\<lparr>lg_streams := filter (\<lambda>e. le_os e \<notin> snd ` set xs) (lg_streams lg),
    lg_files := filter (\<lambda>i. i \<notin> snd ` set xs) (lg_files lg)\<rparr>)"
  using assms
proof (induction xs arbitrary: lg)
  case (Cons x xs)
  obtain p i where x: "x = (p, i)" by (cases x)
  let ?lg = "lg\<lparr>lg_streams := filter (\<lambda>e. le_os e \<noteq> i) (lg_streams lg), lg_files := removeAll i (lg_files lg)\<rparr>"
  have "drop_file i lg = Inr ?lg"
    using Cons.prems x remove_entry_filter [of "lg_streams lg" i]
    by (simp add: drop_file_def removeStream_def streams_ok_def)
  moreover have "clear_each xs ?lg = Inr (?lg\<lparr>lg_streams := filter (\<lambda>e. le_os e \<notin> snd ` set xs) (lg_streams ?lg),
      lg_files := filter (\<lambda>i. i \<notin> snd ` set xs) (lg_files ?lg)\<rparr>)"
  proof (rule Cons.IH)
    show "streams_ok (lg_streams ?lg)" using Cons.prems streams_ok_filter by simp
    show "distinct (map snd xs)" using Cons.prems by simp
    show "snd ` set xs \<subseteq> set (lg_files ?lg)" using Cons.prems x by auto
  qed
  moreover have "filter (\<lambda>e. le_os e \<notin> snd ` set xs) (filter (\<lambda>e. le_os e \<noteq> i) (lg_streams lg)) =
      filter (\<lambda>e. le_os e \<notin> snd ` set (x # xs)) (lg_streams lg)"
    "filter (\<lambda>j. j \<notin> snd ` set xs) (removeAll i (lg_files lg)) = filter (\<lambda>j. j \<notin> snd ` set (x # xs)) (lg_files lg)"
    unfolding removeAll_filter_not_eq filter_filter by (intro filter_cong; auto simp: x)+
  ultimately show ?case by (simp add: x)
qed simp

text \<open>Closing all files: no stream is a file any more, the others are left as they were.\<close>

lemma clearFiles_result:
  assumes "logger_ok lg"
  shows "clearFiles lg = Inr (lg\<lparr>lg_streams := filter (\<lambda>e. \<not> le_file e) (lg_streams lg),
    lg_files := [], lg_fileTable := []\<rparr>)"
proof -
  have "filter (\<lambda>e. le_os e \<notin> set (lg_files lg)) (lg_streams lg) = filter (\<lambda>e. \<not> le_file e) (lg_streams lg)"
    using assms by (intro filter_cong) (auto simp: logger_ok_def)
  moreover have "filter (\<lambda>i. i \<notin> set (lg_files lg)) (lg_files lg) = []" by simp
  ultimately show ?thesis
    using assms clear_each_result [of lg "lg_fileTable lg"] by (simp add: clearFiles_def logger_ok_def)
qed

lemma removeLogFile_result:
  assumes "logger_ok lg"
  shows "\<exists>lg'. removeLogFile path lg = Inr lg' \<and> logger_ok lg'"
proof (cases "table_file path lg")
  case (Some i)
  obtain xs k ys where t: "lg_fileTable lg = xs @ (k, i) # ys" "map_erase str_less path (lg_fileTable lg) = xs @ ys"
    using map_erase_split [OF Some [unfolded table_file_def]] by blast
  let ?lg = "lg\<lparr>lg_streams := filter (\<lambda>e. le_os e \<noteq> i) (lg_streams lg), lg_files := removeAll i (lg_files lg)\<rparr>"
  have i: "i \<in> set (lg_files lg)" using assms t(1) by (auto simp: logger_ok_def)
  then have run: "removeLogFile path lg = Inr (?lg\<lparr>lg_fileTable := xs @ ys\<rparr>)"
    using assms Some t(2) remove_entry_filter [of "lg_streams lg" i]
    by (simp add: removeLogFile_def drop_file_def removeStream_def logger_ok_def streams_ok_def)
  have vals: "i \<notin> snd ` set (xs @ ys)" "snd ` set (xs @ ys) = set (lg_files lg) - {i}"
    using assms t(1) by (auto simp: logger_ok_def)
  have "map_ordered str_less (xs @ ys)"
    using assms str_map.ordered_erase [of "lg_fileTable lg" path] t(2) by (simp add: logger_ok_def)
  moreover have "distinct (map snd (xs @ ys))" using assms t(1) by (simp add: logger_ok_def)
  moreover have "streams_ok (filter (\<lambda>e. le_os e \<noteq> i) (lg_streams lg))"
    using assms streams_ok_filter by (simp add: logger_ok_def)
  ultimately have "logger_ok (?lg\<lparr>lg_fileTable := xs @ ys\<rparr>)"
    using assms vals(2) by (auto simp: logger_ok_def distinct_removeAll)
  with run show ?thesis by blast
qed (simp add: removeLogFile_def assms)

lemma entry_add_ok:
  assumes "logger_ok lg" and "length levels = 5" and "os < lg_next lg" and "os \<notin> set (lg_files lg)"
  shows "logger_ok (entry_add os levels color False lg)"
  using assms find_entry [of os lg] by (auto simp: entry_add_def logger_ok_def streams_ok_def)

lemma edit_entry_os: "map le_os (edit_entry os levels color es) = map le_os es"
  by (induction es) auto

lemma edit_entry_mem:
  "e \<in> set (edit_entry os levels color es) \<Longrightarrow>
   \<exists>e' \<in> set es. le_os e = le_os e' \<and> le_file e = le_file e' \<and>
     (le_levels e = levels \<or> le_levels e = le_levels e')"
  by (induction es) (auto split: if_splits)

lemma levels_length [simp]: "length (levels_of flags) = 5"
  by (simp add: levels_of_def)

lemma setLogLvl_ok:
  assumes "logger_ok lg" and "length levels = 5"
  shows "logger_ok (setLogLvl os levels color lg)"
proof -
  let ?es = "edit_entry os levels color (lg_streams lg)"
  have "le_os ` set ?es = le_os ` set (lg_streams lg)"
    using edit_entry_os [of os levels color "lg_streams lg"] by (metis set_map)
  moreover have "streams_ok ?es"
    unfolding streams_ok_def edit_entry_os
    using assms by (auto simp: logger_ok_def streams_ok_def dest!: edit_entry_mem)
  moreover have "\<forall>e \<in> set ?es. le_os e < lg_next lg \<and> (le_file e \<longleftrightarrow> le_os e \<in> set (lg_files lg))"
    using assms(1) by (auto simp: logger_ok_def dest!: edit_entry_mem)
  ultimately show ?thesis using assms(1) by (simp add: setLogLvl_def editStream_def logger_ok_def)
qed
lemma logger_ok_frames [simp]:
  "logger_ok (lg\<lparr>lg_out := out\<rparr>) = logger_ok lg" "logger_ok (lg\<lparr>lg_isInit := b\<rparr>) = logger_ok lg"
  by (simp_all add: logger_ok_def)

lemma logger_ok_next: "logger_ok lg \<Longrightarrow> lg_next lg \<le> n \<Longrightarrow> logger_ok (lg\<lparr>lg_next := n\<rparr>)"
  by (auto simp: logger_ok_def)

lemma logger_ok_streams: "logger_ok lg \<Longrightarrow> streams_ok (lg_streams lg)"
  by (simp add: logger_ok_def)

lemma addStream_ok:
  "logger_ok lg \<Longrightarrow> os < lg_next lg \<Longrightarrow> os \<notin> set (lg_files lg) \<Longrightarrow> logger_ok (addStream os flags lg)"
  by (simp add: addStream_def entry_add_ok)

lemma initDefault_ok: "logger_ok lg \<Longrightarrow> \<exists>lg'. initDefault env lg = Inr lg' \<and> logger_ok lg' \<and> lg_isInit lg' = lg_isInit lg"
proof -
  assume ok: "logger_ok lg"
  let ?lg = "addStream cout (or LOG_CONFIG_DEBUG LOG_COLORIZE_MSK) lg"
  have "logger_ok ?lg" using ok by (intro addStream_ok) (simp_all add: logger_ok_def)
  moreover have "lg_isInit ?lg = lg_isInit lg" by (simp add: addStream_def entry_add_def)
  ultimately show ?thesis
    using date_writes [of ?lg "-1" env] logger_ok_streams [of ?lg] by (auto simp: initDefault_def)
qed

text \<open>Messages leave the registry alone once the console is registered.\<close>

definition same_registry :: "logger \<Rightarrow> logger \<Rightarrow> bool" where
  "same_registry lg lg' \<longleftrightarrow>
     lg_streams lg' = lg_streams lg \<and> lg_files lg' = lg_files lg \<and> lg_fileTable lg' = lg_fileTable lg"

lemma log_ok:
  assumes "logger_ok lg" and "0 \<le> lvl" and "render (c_str fmt) args = Some msg"
  shows "\<exists>lg'. log_msg env lvl (Some fmt) args lg = Inr lg' \<and> logger_ok lg' \<and>
    (findOs cout lg \<noteq> None \<longrightarrow> same_registry lg lg')"
proof -
  have ready: "\<exists>lg'. log_msg env lvl (Some fmt) args x = Inr lg' \<and> logger_ok lg' \<and> same_registry x lg'"
    if "logger_ok x" "lg_isInit x" for x
    using log_appends [OF logger_ok_streams [OF that(1)] that(2) assms(2,3), of env] that(1)
    by (simp add: same_registry_def)
  show ?thesis
  proof (cases "lg_isInit lg")
    case False
    obtain lg1 where lg1: "initDefault env (lg\<lparr>lg_isInit := True\<rparr>) = Inr lg1" "logger_ok lg1" "lg_isInit lg1"
      using initDefault_ok [of "lg\<lparr>lg_isInit := True\<rparr>" env] assms(1) by auto
    have "same_registry lg lg1" if "findOs cout lg \<noteq> None"
    proof -
      have "addStream cout f (lg\<lparr>lg_isInit := True\<rparr>) = lg\<lparr>lg_isInit := True\<rparr>" for f
        using that by (simp add: addStream_def entry_add_def findOs_def)
      then show ?thesis
        using lg1(1) date_writes [of "lg\<lparr>lg_isInit := True\<rparr>" "-1" env] logger_ok_streams [OF assms(1)]
        by (auto simp: initDefault_def same_registry_def)
    qed
    moreover have "log_msg env lvl (Some fmt) args lg = log_msg env lvl (Some fmt) args lg1"
      using False lg1 by (simp add: log_msg_def)
    ultimately show ?thesis using ready [OF lg1(2,3)] by (auto simp: same_registry_def)
  qed (use ready assms(1) in blast)
qed

lemma render_plain: "CHR ''%'' \<notin> set p \<Longrightarrow> render (p @ fmt) args = map_option ((@) p) (render fmt args)"
proof (induction p)
  case Nil
  then show ?case by (simp add: option.map_ident [unfolded id_def])
next
  case (Cons c p)
  then show ?case by (subst append_Cons, subst render.simps) (auto split: option.split)
qed

lemma render_string:
  assumes "CHR ''%'' \<notin> set p" and "CHR ''%'' \<notin> set t"
  shows "render (p @ ''%ss'' @ t) [Arg_string (Some path)] = Some (p @ path @ t)"
proof -
  have "render t [] = Some t" using render_plain [OF assms(2), of "[]" "[]"] by (simp add: render.simps [of "[]"])
  then have "render (''%ss'' @ t) [Arg_string (Some path)] = Some (path @ t)"
    by (subst render.simps) (simp add: directive_def char_at_def take_arg_def arg_text_def)
  then show ?thesis by (subst render_plain [OF assms(1)]) simp
qed

lemma open_error_text: "\<exists>msg. render (c_str open_error) [Arg_string (Some path)] = Some msg"
proof -
  have "c_str open_error = ''Error adding log file : unable to open '' @ ''%ss'' @
      (''. If it refers to a subdir, is the subdir created ?'' @ [CHR 0x0A])"
    by code_simp
  then show ?thesis by (simp only:) (rule exI, rule render_string; simp)
qed

text \<open>Opening a log file that is not in the table.\<close>

lemma addLogFile_opened:
  assumes "logger_ok lg" and "table_file path lg = None" and "en_opens env (c_str path)"
  shows "\<exists>lg'. addLogFile env path flags lg = Inr (0, lg') \<and> logger_ok lg' \<and>
    lg_streams lg' = lg_streams lg @ [\<lparr> le_os = lg_next lg, le_levels = levels_of flags,
      le_colorize = (and flags LOG_COLORIZE_MSK \<noteq> 0), le_file = True \<rparr>] \<and>
    lg_fileTable lg' = map_set str_less path (lg_next lg) (lg_fileTable lg)"
proof -
  let ?i = "lg_next lg"
  let ?lg = "lg\<lparr>lg_next := ?i + 1, lg_files := ?i # lg_files lg, lg_fileTable := map_set str_less path ?i (lg_fileTable lg)\<rparr>"
  let ?e = "\<lparr> le_os = ?i, le_levels = levels_of flags, le_colorize = and flags LOG_COLORIZE_MSK \<noteq> 0, le_file = True \<rparr>"
  have below: "\<forall>e \<in> set (lg_streams lg). le_os e < ?i" "\<forall>j \<in> set (lg_files lg). j < ?i"
    using assms(1) by (auto simp: logger_ok_def)
  have "findOs ?i ?lg = None" using below(1) by (auto simp: findOs_def find_None_iff)
  with assms(2,3) have run: "addLogFile env path flags lg = Inr (0, ?lg\<lparr>lg_streams := lg_streams lg @ [?e]\<rparr>)"
    by (simp add: addLogFile_def add_log_file_def entry_add_def findOs_def Let_def)
  obtain xs ys where t: "lg_fileTable lg = xs @ ys" "map_set str_less path ?i (lg_fileTable lg) = xs @ (path, ?i) # ys"
    using map_set_split [OF assms(2) [unfolded table_file_def], of ?i] by blast
  have fresh: "?i \<notin> set (lg_files lg)" "?i \<notin> le_os ` set (lg_streams lg)" using below by auto
  have files: "distinct (map snd (xs @ ys))" "snd ` set (xs @ ys) = set (lg_files lg)"
    using assms(1) t(1) by (simp_all add: logger_ok_def)
  have "map_ordered str_less (xs @ (path, ?i) # ys)"
    using assms(1) str_map.ordered_set [of "lg_fileTable lg" path ?i] t(2) by (simp add: logger_ok_def)
  moreover have "distinct (map snd (xs @ (path, ?i) # ys))" using files fresh(1) by auto
  moreover have "streams_ok (lg_streams lg @ [?e])"
    using assms(1) fresh(2) by (auto simp: logger_ok_def streams_ok_def)
  ultimately have "logger_ok (?lg\<lparr>lg_streams := lg_streams lg @ [?e]\<rparr>)"
    using assms(1) fresh below files(2) t(2) by (auto simp: logger_ok_def)
  with run show ?thesis by simp
qed

lemma addLogFile_failed:
  assumes "logger_ok lg" and "table_file path lg = None" and "\<not> en_opens env (c_str path)"
  shows "\<exists>lg'. addLogFile env path flags lg = Inr (1, lg') \<and> logger_ok lg' \<and>
    (findOs cout lg \<noteq> None \<longrightarrow> same_registry lg lg')"
proof -
  let ?i = "lg_next lg"
  let ?lg = "lg\<lparr>lg_next := ?i + 1, lg_files := ?i # lg_files lg, lg_fileTable := map_set str_less path ?i (lg_fileTable lg)\<rparr>"
  have below: "\<forall>e \<in> set (lg_streams lg). le_os e < ?i" "\<forall>j \<in> set (lg_files lg). j < ?i"
    using assms(1) by (auto simp: logger_ok_def)
  have "remove_entry ?i (lg_streams lg) = lg_streams lg"
    using assms(1) below(1) by (subst remove_entry_filter) (auto simp: logger_ok_def streams_ok_def filter_id_conv)
  moreover have "removeAll ?i (lg_files lg) = lg_files lg" using below(2) by (auto intro: removeAll_id)
  moreover have "map_erase str_less path (map_set str_less path ?i (lg_fileTable lg)) = lg_fileTable lg"
    by (rule map_erase_set) (use assms(2) in \<open>simp_all add: table_file_def str_less_irrefl\<close>)
  moreover have "table_file path ?lg = Some ?i"
    using assms(1) by (simp add: table_file_def str_map.find_set logger_ok_def same_key_str)
  ultimately have removed: "removeLogFile path ?lg = Inr (lg\<lparr>lg_next := ?i + 1\<rparr>)"
    by (simp add: removeLogFile_def drop_file_def removeStream_def)
  obtain msg where "render (c_str open_error) [Arg_string (Some path)] = Some msg"
    using open_error_text by blast
  then obtain lg' where "log_msg env LOG_ERROR (Some open_error) [Arg_string (Some path)] (lg\<lparr>lg_next := ?i + 1\<rparr>) = Inr lg'"
    "logger_ok lg'" "findOs cout lg \<noteq> None \<longrightarrow> same_registry lg lg'"
    using log_ok [of "lg\<lparr>lg_next := ?i + 1\<rparr>" LOG_ERROR open_error "[Arg_string (Some path)]" msg env]
      logger_ok_next [OF assms(1), of "?i + 1"]
    by (auto simp: LOG_ERROR_def findOs_def same_registry_def)
  with removed assms(2,3) show ?thesis by (simp add: addLogFile_def add_log_file_def Let_def)
qed

lemma addLogFile_ok:
  assumes "logger_ok lg"
  shows "\<exists>r lg'. addLogFile env path flags lg = Inr (r, lg') \<and> logger_ok lg'"
proof (cases "table_file path lg")
  case (Some i)
  with assms show ?thesis by (simp add: addLogFile_def add_log_file_def)
next
  case None
  then show ?thesis
    using addLogFile_opened [OF assms None] addLogFile_failed [OF assms None]
    by (cases "en_opens env (c_str path)") blast+
qed
lemma config_lines_returns:
  assumes "snd ` set xs \<subseteq> set (lg_files lg)" and "set (lg_files lg) \<subseteq> le_os ` set (lg_streams lg)"
  shows "\<exists>t. config_lines xs lg = Inr t"
  using assms(1)
proof (induction xs)
  case (Cons x xs)
  obtain p i where x: "x = (p, i)" by (cases x)
  with Cons.prems assms(2) find_entry [of i lg] obtain e where "findOs i lg = Some e" by auto
  with Cons x show ?case by auto
qed simp

lemma printLogConfig_ok: "logger_ok lg \<Longrightarrow> \<exists>lg'. printLogConfig lg = Inr lg' \<and> logger_ok lg'"
proof -
  assume ok: "logger_ok lg"
  then obtain t where "config_lines (lg_fileTable lg) lg = Inr t"
    using config_lines_returns [of "lg_fileTable lg" lg] by (auto simp: logger_ok_def)
  with ok show ?thesis by (simp add: printLogConfig_def)
qed

lemma clearFiles_ok: "logger_ok lg \<Longrightarrow> clearFiles lg = Inr lg' \<Longrightarrow> logger_ok lg'"
  using streams_ok_filter by (auto simp: clearFiles_result) (auto simp: logger_ok_def)

lemma print_only_writes:
  "lprint t lvl lg = Inr lg' \<Longrightarrow> \<exists>out. lg' = lg\<lparr>lg_out := out\<rparr>"
  "colorize code lvl lg = Inr lg' \<Longrightarrow> \<exists>out. lg' = lg\<lparr>lg_out := out\<rparr>"
  by (auto simp: lprint_def colorize_def and_then_eq_Inr)

lemma lprint_gives: "logger_ok lg \<Longrightarrow> gives logger_ok (lprint t lvl lg)"
  "logger_ok lg \<Longrightarrow> gives logger_ok (colorize code lvl lg)"
  by (cases "lprint t lvl lg"; auto dest: print_only_writes)
    (cases "colorize code lvl lg"; auto dest: print_only_writes)

lemma parse_format_gives: "logger_ok lg \<Longrightarrow> gives logger_ok (parse_format fmt args lvl lg)"
proof (induction fmt args lvl lg rule: parse_format.induct)
  case (1 fmt args lvl lg)
  have keeps: "lprint t lvl lg = Inr lg' \<Longrightarrow> logger_ok lg'" for t lg'
    using givesD [OF lprint_gives(1) [OF 1(4)]] .
  show ?case
  proof (cases fmt)
    case (Cons c cs)
    show ?thesis
    proof (cases "c = CHR ''%''")
      case False
      then show ?thesis
        using Cons 1(1) [OF Cons False] keeps
        by (subst parse_format.simps) (simp split: sum.split)
    next
      case percent: True
      show ?thesis
      proof (cases "directive (char_at cs 0) (tl cs)")
        case (Some p)
        obtain cv rest where p: "p = (cv, rest)" by (cases p)
        show ?thesis
        proof (cases "cv = To_nothing")
          case True
          with Cons percent Some p 1(2) [OF Cons _ Some p [symmetric] True 1(4)] show ?thesis
            by (subst parse_format.simps) simp
        next
          case False
          show ?thesis
          proof (cases "take_arg cv args")
            case (Inr q)
            obtain t args1 where q: "q = (t, args1)" by (cases q)
            from 1(3) [OF Cons _ Some p [symmetric] False Inr q [symmetric] _ keeps] show ?thesis
              using Cons percent Some p False Inr q
              by (subst parse_format.simps) (simp split: sum.split)
          qed (use Cons percent Some p False in \<open>subst parse_format.simps, simp\<close>)
        qed
      qed (use Cons percent in \<open>subst parse_format.simps, simp add: 1(4)\<close>)
    qed
  qed (subst parse_format.simps, simp add: 1(4))
qed

lemma log_gives:
  assumes "logger_ok lg"
  shows "gives logger_ok (log_msg env lvl fmt args lg)"
proof -
  have stamped: "gives logger_ok (printTimestamp env l x)" if "logger_ok x" for l x
    unfolding printTimestamp_def
    by (intro gives_bind [OF lprint_gives(2)] gives_bind [OF gives_any] gives_bind [OF lprint_gives(1)]
        lprint_gives(2)) (rule that)
  have start: "gives logger_ok (initDefault env (lg\<lparr>lg_isInit := True\<rparr>))"
    using initDefault_ok [of "lg\<lparr>lg_isInit := True\<rparr>" env] assms by auto
  show ?thesis
    unfolding log_msg_def
    by (rule gives_bind [OF gives_if [OF _ start]])
      (auto simp: assms parseFormat_def intro!: gives_bind [OF stamped] parse_format_gives split: option.split)
qed

text \<open>What the program does with its logger, in any order.\<close>

inductive logger_step :: "logger \<Rightarrow> logger \<Rightarrow> bool" where
  step_add: "os < lg_next lg \<Longrightarrow> os \<notin> set (lg_files lg) \<Longrightarrow> logger_step lg (addStream os flags lg)"
| step_open: "addLogFile env path flags lg = Inr (r, lg') \<Longrightarrow> logger_step lg lg'"
| step_close: "removeLogFile path lg = Inr lg' \<Longrightarrow> logger_step lg lg'"
| step_levels: "length levels = 5 \<Longrightarrow> setLogLvl_path path levels color lg = Inr lg' \<Longrightarrow> logger_step lg lg'"
| step_clear: "clearFiles lg = Inr lg' \<Longrightarrow> logger_step lg lg'"
| step_log: "log_msg env lvl fmt args lg = Inr lg' \<Longrightarrow> logger_step lg lg'"
| step_init: "logger_step lg (setInit lg)"

inductive_cases logger_stepE: "logger_step lg lg'"

lemma logger_step_ok: "logger_step lg lg' \<Longrightarrow> logger_ok lg \<Longrightarrow> logger_ok lg'"
proof (erule logger_stepE)
  fix env path flags r
  assume "addLogFile env path flags lg = Inr (r, lg')" "logger_ok lg"
  with addLogFile_ok [of lg env path flags] show "logger_ok lg'" by auto
next
  fix path
  assume "removeLogFile path lg = Inr lg'" "logger_ok lg"
  with removeLogFile_result [of lg path] show "logger_ok lg'" by auto
next
  fix env lvl fmt args
  assume "log_msg env lvl fmt args lg = Inr lg'" "logger_ok lg"
  with givesD [OF log_gives] show "logger_ok lg'" by blast
qed (auto simp: addStream_ok setInit_def setLogLvl_path_def setLogLvl_ok clearFiles_ok split: option.splits if_splits)

text \<open>
  C37. Whatever is logged, opened and closed, in whatever order, the table of log files, the list of
  files and the registered streams stay in step: opening and closing a log file and printing
  the configuration never meet a stream that is gone, and closing all files leaves exactly
  the streams that were not files.
\<close>

theorem log_files_in_step:
  assumes "logger_step\<^sup>*\<^sup>* new_logger lg"
  shows "(\<exists>r lg'. addLogFile env path flags lg = Inr (r, lg')) \<and> (\<exists>lg'. removeLogFile path lg = Inr lg') \<and>
    (\<exists>lg'. printLogConfig lg = Inr lg') \<and>
    clearFiles lg = Inr (lg\<lparr>lg_streams := filter (\<lambda>e. \<not> le_file e) (lg_streams lg), lg_files := [], lg_fileTable := []\<rparr>) \<and>
    snd ` set (lg_fileTable lg) = {le_os e |e. e \<in> set (lg_streams lg) \<and> le_file e}"
proof -
  have "logger_ok lg"
    using assms by (induction rule: rtranclp_induct) (auto intro: new_logger_ok logger_step_ok)
  note ok = this and parts = this [unfolded logger_ok_def]
  have "set (lg_files lg) = {le_os e |e. e \<in> set (lg_streams lg) \<and> le_file e}"
    using parts by blast
  then have "snd ` set (lg_fileTable lg) = {le_os e |e. e \<in> set (lg_streams lg) \<and> le_file e}"
    using parts by simp
  then show ?thesis
    using addLogFile_ok [OF ok, of env path flags] removeLogFile_result [OF ok, of path]
      printLogConfig_ok [OF ok] clearFiles_result [OF ok] by blast
qed
section \<open>The logs of the program\<close>

lemma levels_of_configs:
  "levels_of (or LOG_CONFIG_INFO LOG_COLORIZE_MSK) = [True, True, True, False, False]"
  "levels_of LOG_CONFIG_DEBUG = [True, True, True, True, False]"
  "levels_of LOG_ERROR_MSK = [True, False, False, False, False]"
  by code_simp+

text \<open>Either way: the file joins the streams and the table, or nothing changes there.\<close>

lemma addLogFile_either:
  assumes "logger_ok lg" and "table_file path lg = None" and "findOs cout lg \<noteq> None"
  shows "\<exists>r lg' es. addLogFile env path flags lg = Inr (r, lg') \<and> logger_ok lg' \<and>
    lg_streams lg' = lg_streams lg @ es \<and>
    (if en_opens env (c_str path) then
       (\<exists>i c. es = [\<lparr> le_os = i, le_levels = levels_of flags, le_colorize = c, le_file = True \<rparr>] \<and>
          lg_fileTable lg' = map_set str_less path i (lg_fileTable lg))
     else es = [] \<and> lg_fileTable lg' = lg_fileTable lg)"
proof (cases "en_opens env (c_str path)")
  case True
  from addLogFile_opened [OF assms(1,2) this, of flags] True show ?thesis by fastforce
next
  case False
  from addLogFile_failed [OF assms(1,2) this, of flags] assms(3) obtain lg'
    where "addLogFile env path flags lg = Inr (1, lg')" "logger_ok lg'" "same_registry lg lg'" by auto
  with False show ?thesis by (intro exI [of _ 1] exI [of _ lg'] exI [of _ "[]"]) (simp add: same_registry_def)
qed

abbreviation sessions_log :: string where "sessions_log \<equiv> ''logs/sessions.log''"
abbreviation error_log :: string where "error_log \<equiv> ''logs/error.log''"

lemma log_levels:
  assumes "1 \<le> lvl" and "lvl \<le> 5"
  shows "wants lvl \<lparr> le_os = os, le_levels = [True, True, True, False, False], le_colorize = c, le_file = f \<rparr> = Inr (lvl \<le> 3) \<and>
    wants lvl \<lparr> le_os = os, le_levels = [True, True, True, True, False], le_colorize = c, le_file = f \<rparr> = Inr (lvl \<le> 4) \<and>
    wants lvl \<lparr> le_os = os, le_levels = [True, False, False, False, False], le_colorize = c, le_file = f \<rparr> = Inr (lvl = 1)"
proof -
  consider "lvl = 1" | "lvl = 2" | "lvl = 3" | "lvl = 4" | "lvl = 5" using assms by linarith
  then show ?thesis by cases (simp_all add: wants_def level_at_def)
qed

abbreviation console_entry :: log_stream where
  "console_entry \<equiv> \<lparr> le_os = cout, le_levels = [True, True, True, False, False], le_colorize = True, le_file = False \<rparr>"

abbreviation session_entry :: "nat \<Rightarrow> bool \<Rightarrow> log_stream" where
  "session_entry i c \<equiv> \<lparr> le_os = i, le_levels = [True, True, True, True, False], le_colorize = c, le_file = True \<rparr>"

abbreviation error_entry :: "nat \<Rightarrow> bool \<Rightarrow> log_stream" where
  "error_entry i c \<equiv> \<lparr> le_os = i, le_levels = [True, False, False, False, False], le_colorize = c, le_file = True \<rparr>"

text \<open>The streams and the table \<open>initLogs\<close> leaves, whichever of its files can be opened.\<close>

lemma initLogs_streams:
  "\<exists>lg es1 es2. initLogs env new_logger = Inr lg \<and> lg_isInit lg \<and> logger_ok lg \<and>
     lg_streams lg = console_entry # es1 @ es2 \<and>
     (if en_opens env sessions_log then \<exists>i c. es1 = [session_entry i c] \<and> table_file sessions_log lg = Some i
      else es1 = [] \<and> table_file sessions_log lg = None) \<and>
     (if en_opens env error_log then \<exists>i c. es2 = [error_entry i c] \<and> table_file error_log lg = Some i
      else es2 = [] \<and> table_file error_log lg = None)"
proof -
  let ?lg = "addStream cout (or LOG_CONFIG_INFO LOG_COLORIZE_MSK) new_logger"
  have mask: "LOG_COLORIZE_MSK \<noteq> 0" by (simp add: LOG_COLORIZE_MSK_def)
  have lg: "lg_streams ?lg = [console_entry]" "lg_fileTable ?lg = []"
    by (simp_all add: addStream_def entry_add_def findOs_def new_logger_def levels_of_configs mask)
  have ok: "logger_ok ?lg"
    by (rule addStream_ok [OF new_logger_ok]) (simp_all add: new_logger_def cout_def)
  have paths: "c_str sessions_log = sessions_log" "c_str error_log = error_log"
    by (simp_all add: c_str_def NUL_def)
  have none1: "table_file sessions_log ?lg = None" "findOs cout ?lg \<noteq> None" by (simp_all add: table_file_def findOs_def lg)
  from addLogFile_either [OF ok this, of env LOG_CONFIG_DEBUG] obtain r lg1 es1
    where lg1: "addLogFile env sessions_log LOG_CONFIG_DEBUG ?lg = Inr (r, lg1)" "logger_ok lg1"
      and s1: "lg_streams lg1 = console_entry # es1"
      and one: "if en_opens env sessions_log then \<exists>i c. es1 = [session_entry i c] \<and> lg_fileTable lg1 = [(sessions_log, i)]
        else es1 = [] \<and> lg_fileTable lg1 = []"
    unfolding lg paths levels_of_configs by (elim exE conjE) (auto split: if_splits)
  have order: "str_less error_log sessions_log" "\<not> str_less sessions_log error_log" by code_simp+
  have none2: "table_file error_log lg1 = None" "findOs cout lg1 \<noteq> None"
    using one order s1 by (auto simp: table_file_def findOs_def simp del: str_less.simps split: if_splits)
  from addLogFile_either [OF lg1(2) this, of env LOG_ERROR_MSK] obtain r2 lg2 es2
    where lg2: "addLogFile env error_log LOG_ERROR_MSK lg1 = Inr (r2, lg2)" "logger_ok lg2"
      and s2: "lg_streams lg2 = console_entry # es1 @ es2"
      and two: "if en_opens env error_log
        then \<exists>i c. es2 = [error_entry i c] \<and> lg_fileTable lg2 = map_set str_less error_log i (lg_fileTable lg1)
        else es2 = [] \<and> lg_fileTable lg2 = lg_fileTable lg1"
    unfolding s1 paths levels_of_configs by (elim exE conjE) (auto split: if_splits)
  obtain f where f: "logDate env (-1) lg2 = Inr (append_out f lg2)"
    using date_writes [OF logger_ok_streams [OF lg2(2)], of "-1" env] by auto
  have "logger_ok (setInit (append_out f lg2))" using lg2(2) by (simp add: setInit_def)
  then obtain lg' where lg': "printLogConfig (setInit (append_out f lg2)) = Inr lg'" "logger_ok lg'"
    using printLogConfig_ok by blast
  then have same: "lg_streams lg' = lg_streams lg2" "lg_fileTable lg' = lg_fileTable lg2" "lg_isInit lg'"
    by (auto simp: printLogConfig_def and_then_eq_Inr setInit_def)
  have run: "initLogs env new_logger = Inr lg'"
    using lg1(1) lg2(1) f lg'(1) by (simp add: initLogs_def)
  have "if en_opens env sessions_log then \<exists>i c. es1 = [session_entry i c] \<and> table_file sessions_log lg' = Some i
      else es1 = [] \<and> table_file sessions_log lg' = None"
    "if en_opens env error_log then \<exists>i c. es2 = [error_entry i c] \<and> table_file error_log lg' = Some i
      else es2 = [] \<and> table_file error_log lg' = None"
    using one two order str_less_irrefl
    by (auto simp: table_file_def same simp del: str_less.simps split: if_splits)
  then show ?thesis using run same(1,3) s2 lg'(2) by (intro exI [of _ lg'] exI [of _ es1] exI [of _ es2]) simp
qed

text \<open>
  Setting up the logs of the program succeeds whether the log files can be opened or not.
  After it the console takes errors, warnings and infos, the session log debug messages too,
  and the error log errors only; a log file that could not be opened takes nothing and is in
  no list.
\<close>

theorem initLogs_levels:
  "\<exists>lg. initLogs env new_logger = Inr lg \<and> lg_isInit lg \<and> logger_ok lg \<and>
     (table_file sessions_log lg \<noteq> None \<longleftrightarrow> en_opens env sessions_log) \<and>
     (table_file error_log lg \<noteq> None \<longleftrightarrow> en_opens env error_log) \<and>
     (\<forall>lvl os. 1 \<le> lvl \<longrightarrow> lvl \<le> 5 \<longrightarrow>
        (taken (\<lambda>_. True) lvl lg os \<longleftrightarrow>
           os = cout \<and> lvl \<le> 3 \<or> table_file sessions_log lg = Some os \<and> lvl \<le> 4 \<or>
           table_file error_log lg = Some os \<and> lvl = 1))"
proof -
  obtain lg es1 es2 where run: "initLogs env new_logger = Inr lg" "lg_isInit lg" "logger_ok lg"
    and s: "lg_streams lg = console_entry # es1 @ es2"
    and one: "if en_opens env sessions_log then \<exists>i c. es1 = [session_entry i c] \<and> table_file sessions_log lg = Some i
      else es1 = [] \<and> table_file sessions_log lg = None"
    and two: "if en_opens env error_log then \<exists>i c. es2 = [error_entry i c] \<and> table_file error_log lg = Some i
      else es2 = [] \<and> table_file error_log lg = None"
    using initLogs_streams [of env] by blast
  have "taken (\<lambda>_. True) lvl lg os \<longleftrightarrow>
      os = cout \<and> lvl \<le> 3 \<or> table_file sessions_log lg = Some os \<and> lvl \<le> 4 \<or>
      table_file error_log lg = Some os \<and> lvl = 1" if "1 \<le> lvl" "lvl \<le> 5" for lvl os
    unfolding taken_def s using one two
    by (cases "en_opens env sessions_log"; cases "en_opens env error_log";
        clarsimp simp: log_levels [OF that, simplified]; blast?)
  then show ?thesis using run one two by (auto split: if_splits)
qed

definition quiet_env :: log_env where
  "quiet_env = \<lparr> en_opens = (\<lambda>_. True), en_elapsed = 3, en_date = ''d'' \<rparr>"

theorem log_writes_streams_witness:
  "\<exists>lg. log_msg quiet_env LOG_INFO (Some ''%ss = %d'') [Arg_string (Some ''a''), Arg_int 7]
       (setInit (addStream cout LOG_CONFIG_INFO new_logger)) = Inr lg \<and>
     lg_out lg cout = ''[3] a = 7'' \<and> lg_out lg 1 = []"
proof -
  let ?lg = "setInit (addStream cout LOG_CONFIG_INFO new_logger)"
  have ok: "streams_ok (lg_streams ?lg)"
    by (simp add: setInit_def addStream_def entry_add_def findOs_def new_logger_def streams_ok_def)
  have msg: "render (c_str ''%ss = %d'') [Arg_string (Some ''a''), Arg_int 7] = Some ''a = 7''" by code_simp
  have level: "(0 :: int) \<le> LOG_INFO" by (simp add: LOG_INFO_def)
  have init: "lg_isInit ?lg" by (simp add: setInit_def)
  have "taken (\<lambda>_. True) (min LOG_INFO 5) ?lg cout" "\<not> taken (\<lambda>_. True) (min LOG_INFO 5) ?lg 1"
    "\<not> taken le_colorize (min LOG_INFO 5) ?lg cout" "lg_out ?lg cout = []" "lg_out ?lg 1 = []"
    "stamp quiet_env (min LOG_INFO 5) False = ''[3] ''"
    by code_simp+
  then show ?thesis using log_writes_streams [OF ok init level msg, of quiet_env] by simp
qed

theorem log_files_in_step_witness:
  "\<exists>lg. addLogFile quiet_env ''l'' LOG_ERROR_MSK new_logger = Inr (0, lg) \<and>
     clearFiles lg = Inr (lg\<lparr>lg_streams := [], lg_files := [], lg_fileTable := []\<rparr>)"
proof -
  have "case addLogFile quiet_env ''l'' LOG_ERROR_MSK new_logger of Inl e \<Rightarrow> False
      | Inr (r, lg) \<Rightarrow> r = 0 \<and> filter (\<lambda>e. \<not> le_file e) (lg_streams lg) = []"
    by code_simp
  then obtain lg where lg: "addLogFile quiet_env ''l'' LOG_ERROR_MSK new_logger = Inr (0, lg)"
    "filter (\<lambda>e. \<not> le_file e) (lg_streams lg) = []"
    by (auto split: sum.splits)
  then have "logger_step\<^sup>*\<^sup>* new_logger lg" by (blast intro: step_open)
  from log_files_in_step [OF this] lg show ?thesis by simp
qed

theorem initLogs_levels_witness:
  "\<exists>lg. initLogs quiet_env new_logger = Inr lg \<and> taken (\<lambda>_. True) LOG_ERROR lg cout"
  using initLogs_levels [of quiet_env] by (auto simp: LOG_ERROR_def)
end
