(* ===== verification/Printing.thy ===== *)
theory Printing
  imports Client Unique_Iterator Logger
begin

text \<open>
  How hosts, servers and clients are printed (Host.cpp, ListenServer.cpp, Client.cpp, Request.cpp,
  Debug.cpp): the texts that \<open>%H\<close>, \<open>%Ls\<close>, \<open>%Lo\<close>, \<open>%Cg\<close> and \<open>%Cl\<close> of the logger stand for. What a
  pointer looks like when it is printed and how long a client has been silent are parameters.

  The objects a location or script pointer leads to are shared between equal blocks, so that
  its text is a function of the block.
\<close>

section \<open>Hosts\<close>

record print_env =
  pe_host :: "nat option \<Rightarrow> string"
  pe_location :: "Location \<Rightarrow> string"
  pe_cgi :: "CGIConfig \<Rightarrow> string"
  pe_silent :: "nat \<Rightarrow> int"

abbreviation endl :: string where "endl \<equiv> [CHR 0x0A]"

abbreviation TAB :: char where "TAB \<equiv> CHR 0x09"

definition bool_text :: "bool \<Rightarrow> string" where
  "bool_text b = (if b then ''1'' else ''0'')"

definition printProperties :: "Host \<Rightarrow> string" where
  "printProperties h =
     [TAB, TAB] @ ''->  Names :'' @ concat (map (\<lambda>n. CHR '' '' # n) (ho_server_names h)) @ endl @
     [TAB, TAB] @ ''Max body size : '' @ itostr (ho_body_max_size h) @ endl @
     [TAB, TAB] @ ''Error dir : '' @ ho_dir_errors h @ endl"

definition host_printShort :: "Host \<Rightarrow> string" where
  "host_printShort h =
     printProperties h @
     [TAB, TAB] @ ''Locations :'' @ concat (map (\<lambda>(k, l). CHR '' '' # k) (ho_locationMap h)) @ endl @
     [TAB, TAB] @ ''CGIs :'' @ concat (map (\<lambda>(k, c). CHR '' '' # k) (ho_cgiMap h)) @ endl @
     [TAB, TAB] @ ''Clients ('' @ itostr (int (length (ho_clients h))) @ '') :'' @ endl"

text \<open>\<open>printFull\<close> prints the addresses of the blocks and not the blocks.\<close>

definition host_printFull :: "print_env \<Rightarrow> Host \<Rightarrow> string" where
  "host_printFull pe h =
     printProperties h @
     [TAB, TAB] @ ''Locations :'' @ endl @
     concat (map (\<lambda>(k, l). TAB # ''  ->'' @ k @ endl @ pe_location pe l) (ho_locationMap h)) @
     [TAB, TAB] @ ''CGIs :'' @
     concat (map (\<lambda>(k, c). [TAB, TAB] @ ''  ->'' @ k @ endl @ pe_cgi pe c) (ho_cgiMap h)) @
     [TAB, TAB] @ ''Clients ('' @ itostr (int (length (ho_clients h))) @ '') :'' @ endl @ endl"

definition methods_text :: "int \<Rightarrow> string" where
  "methods_text methods = concat (map (\<lambda>m. if method_allowed methods m then METHOD_STR m else []) all_methods)"

definition location_text :: "Location \<Rightarrow> string" where
  "location_text l =
     [TAB, TAB, TAB] @ ''->  root: '' @ l_root l @ endl @
     [TAB, TAB, TAB] @ ''default_uri: '' @ l_default_uri l @ endl @
     [TAB, TAB, TAB] @ ''dir_listing: '' @ bool_text (l_dir_listing l) @ endl @
     [TAB, TAB, TAB] @ ''upload: '' @ bool_text (l_upload l) @ endl @
     (if l_upload l then [TAB, TAB, TAB] @ ''upload_root: '' @ l_upload_root l @ endl else []) @
     [TAB, TAB, TAB] @ ''allowed methods: '' @ methods_text (l_methods l) @ endl @
     (if l_redir l \<noteq> 0 then
        [TAB, TAB, TAB] @ ''redirections ('' @ itostr (l_redir l) @ ''): '' @ endl @
        concat (map (\<lambda>a. [TAB, TAB, TAB] @ ''  - '' @ a @ endl) (l_addr_redir l))
      else [])"

definition cgi_text :: "CGIConfig \<Rightarrow> string" where
  "cgi_text c =
     [TAB, TAB, TAB] @ ''->  root: '' @ c_root c @ endl @
     [TAB, TAB, TAB] @ ''exec_path: '' @ c_exec c @ endl @
     [TAB, TAB, TAB] @ ''identifier: '' @ c_extension c @ endl @
     [TAB, TAB, TAB] @ ''allowed methods: '' @ methods_text (c_methods c) @ endl"

definition host_text :: "Host \<Rightarrow> string" where
  "host_text h = host_printShort h"

text \<open>Debug.cpp: one message for every location of the configuration.\<close>

definition printLocationsDebug :: "log_env \<Rightarrow> Location list \<Rightarrow> logger \<Rightarrow> fault + logger" where
  "printLocationsDebug env locations lg =
     fold (\<lambda>l r. and_then r (log_msg env LOG_DEBUG (Some (''%Lo'' @ endl))
       [Arg_object Obj_Location (Some (location_text l))])) locations (Inr lg)"

section \<open>Servers\<close>

definition server_header :: "ListenServer \<Rightarrow> string" where
  "server_header ls =
     TAB # ''->  ip/port: '' @ ls_ip ls @ ''/'' @ ls_port ls @ endl @
     TAB # ''sock_fd: '' @ itostr (ls_sockFd ls) @ endl @
     TAB # ''number of connected clients (orphan): '' @ itostr (int (length (ls_connectedClients ls))) @
       '' ('' @ itostr (int (length (ls_orphanClients ls))) @ '')'' @ endl @
     TAB # ''host list ('' @ itostr (ls_nbrHost ls) @ ''):'' @ endl"

text \<open>The loops over the hosts print through the pointers of the map.\<close>

fun print_hosts :: "(Host \<Rightarrow> string) \<Rightarrow> world \<Rightarrow> (string \<times> nat) list \<Rightarrow> fault + string" where
  "print_hosts f w [] = Inr []"
| "print_hosts f w ((n, i) # es) =
     and_then (deref (host_at w i)) (\<lambda>h. and_then (print_hosts f w es) (\<lambda>t. Inr (f h @ t)))"

definition server_printShort :: "world \<Rightarrow> ListenServer \<Rightarrow> fault + string" where
  "server_printShort w ls =
     and_then (printShort_hosts (ls_hostMap ls)) (\<lambda>es.
     and_then (print_hosts host_printShort w es) (\<lambda>t. Inr (server_header ls @ t)))"

definition server_printFull :: "print_env \<Rightarrow> world \<Rightarrow> ListenServer \<Rightarrow> fault + string" where
  "server_printFull pe w ls =
     and_then (printFull_hosts (ls_hostMap ls)) (\<lambda>es.
     and_then (print_hosts (host_printFull pe) w es) (\<lambda>t. Inr (server_header ls @ t)))"

definition server_text :: "world \<Rightarrow> ListenServer \<Rightarrow> fault + string" where
  "server_text w ls = server_printShort w ls"

section \<open>Clients and requests\<close>

text \<open>\<open>getServerNames().at(0)\<close> throws for a host without a name.\<close>

definition client_text :: "print_env \<Rightarrow> world \<Rightarrow> Client \<Rightarrow> fault + string" where
  "client_text pe w c =
     and_then (deref (map_of (w_links w) (cl_id c))) (\<lambda>(host, s).
     and_then
       (case host of
          None \<Rightarrow> Inr []
        | Some i \<Rightarrow>
            and_then (deref (host_at w i)) (\<lambda>h.
              case ho_server_names h of [] \<Rightarrow> Inl OutOfRange | n # ns \<Rightarrow> Inr ('' ('' @ n @ '')''))) (\<lambda>name.
       Inr ([TAB, TAB] @ ''->  fd: '' @ itostr (cl_fd c) @ endl @
            [TAB, TAB] @ ''ip/port: '' @ cl_addressStr c @ '':'' @ itostr (cl_port c) @ endl @
            [TAB, TAB] @ ''host: '' @ pe_host pe host @ name @ endl @
            (case cl_request c of
               None \<Rightarrow> []
             | Some rq \<Rightarrow>
                 '' | status = '' @ itostr (int (final_rank (r_final_status rq))) @
                 '' | error = '' @ itostr (getError rq)) @ endl @
            [TAB, TAB] @ ''last interaction: '' @ itostr (pe_silent pe (cl_id c)) @ '' ms'' @ endl @
            [TAB, TAB] @ ''nbr of out buffers: '' @ itostr (int (length (cl_outBuffers c))) @ endl)))"

fun parse_rank :: "parse_status \<Rightarrow> nat" where
  "parse_rank PTERM = 0"
| "parse_rank ONGOING = 1"
| "parse_rank RLINE = 2"
| "parse_rank NEW = 3"

definition printRequest :: "Request \<Rightarrow> string" where
  "printRequest rq =
     ''method is: '' @ (case r_method rq of None \<Rightarrow> ''-1'' | Some m \<Rightarrow> itostr (int (method_index m))) @ endl @
     ''uri is: '' @ r_uri rq @ endl @
     ''status is: '' @ itostr (int (parse_rank (r_status rq))) @ endl @
     ''bstatus is: '' @ itostr (int (parse_rank (r_b_status rq))) @ endl @
     ''error is: '' @ itostr (getError rq) @ endl"

definition printHeaders :: "Request \<Rightarrow> string" where
  "printHeaders rq = concat (map (\<lambda>(k, v). k @ '': '' @ v @ CRLF) (r_headers rq))"

section \<open>Log messages\<close>

text \<open>A call of \<open>log\<close>: the level, the format and the arguments. \<open>LOGI\<close> and \<open>LOGV\<close> end the line.\<close>

type_synonym log_call = "int \<times> string \<times> log_arg list"

definition LOGI :: "string \<Rightarrow> log_arg list \<Rightarrow> log_call" where
  "LOGI fmt args = (LOG_INFO, fmt @ endl, args)"

definition LOGV :: "string \<Rightarrow> log_arg list \<Rightarrow> log_call" where
  "LOGV fmt args = (LOG_VERBOSE, fmt @ endl, args)"

fun log_calls :: "log_env \<Rightarrow> log_call list \<Rightarrow> logger \<Rightarrow> fault + logger" where
  "log_calls env [] lg = Inr lg"
| "log_calls env ((lvl, fmt, args) # cs) lg =
     and_then (log_msg env lvl (Some fmt) args lg) (log_calls env cs)"

end
