(* ===== verification/Server.thy ===== *)
theory Server
  imports Session Config_Lexer Printing
begin

text \<open>
  The whole server at work: the lists, all the connected clients, the events of one call of
  \<open>epoll_wait\<close> (\<open>IControl::handleEpoll\<close>), new connections (\<open>handleListenEvent\<close>), the console
  (\<open>handleCommandPrompt\<close>) and the check of silent clients (\<open>Client::checkTO\<close>).

  A client's operations run on a \<open>session\<close> made of the client and the shared state
  (\<open>with_client\<close>). An event whose client or server is no longer listed is an access through a
  dangling pointer. What the console commands log is recorded, other log messages are left out.
\<close>

section \<open>State\<close>

record server =
  sv_world :: world
  sv_clients :: "(nat \<times> Client) list"
  sv_pages :: string
  sv_log :: "syscall list"
  sv_shown :: "log_call list"

abbreviation client_at :: "server \<Rightarrow> nat \<Rightarrow> Client option" where
  "client_at sv c \<equiv> map_of (sv_clients sv) c"

definition session_of :: "server \<Rightarrow> Client \<Rightarrow> session" where
  "session_of sv c =
     \<lparr> s_client = c, s_world = sv_world sv, s_error_pages = sv_pages sv, s_log = sv_log sv, s_alive = True \<rparr>"

text \<open>The client is put back, or, when it was terminated, deleted (\<open>deleteClient\<close>).\<close>

definition put_session :: "nat \<Rightarrow> session \<Rightarrow> server \<Rightarrow> server" where
  "put_session d s sv =
     sv\<lparr>sv_world := s_world s, sv_log := s_log s,
        sv_clients := (if s_alive s then upd_assoc d (\<lambda>_. s_client s) (sv_clients sv)
                       else del_assoc d (sv_clients sv))\<rparr>"

definition with_client :: "nat \<Rightarrow> (session \<Rightarrow> fault + session) \<Rightarrow> server \<Rightarrow> fault + server" where
  "with_client d f sv =
     and_then (deref (client_at sv d)) (\<lambda>c.
       and_then (f (session_of sv c)) (\<lambda>s. Inr (put_session d s sv)))"

definition on_world :: "(world \<Rightarrow> fault + world) \<Rightarrow> server \<Rightarrow> fault + server" where
  "on_world f sv = and_then (f (sv_world sv)) (\<lambda>w. Inr (sv\<lparr>sv_world := w\<rparr>))"

definition show_it :: "log_call \<Rightarrow> server \<Rightarrow> server" where
  "show_it x sv = sv\<lparr>sv_shown := sv_shown sv @ [x]\<rparr>"

section \<open>New connections\<close>

text \<open>
  \<open>newClient\<close>: the address and port are what the conversions of the peer's address give.
\<close>

definition newClient :: "nat \<Rightarrow> int \<Rightarrow> string \<Rightarrow> int \<Rightarrow> Client" where
  "newClient c fd addr port = (new_Client c fd)\<lparr>cl_port := port, cl_addressStr := addr\<rparr>"

record arrival =
  ar_fd :: int
  ar_addr :: string
  ar_port :: int
  ar_registered :: bool  \<comment> \<open>whether \<open>epoll_ctl\<close> took the descriptor\<close>

definition handleListenEvent :: "nat \<Rightarrow> arrival \<Rightarrow> server \<Rightarrow> fault + int \<times> server" where
  "handleListenEvent s a sv =
     and_then (acceptConnection (ar_fd a) s (sv_world sv)) (\<lambda>(r, w).
       Inr (case r of
              None \<Rightarrow> (1, sv\<lparr>sv_world := w\<rparr>)
            | Some c \<Rightarrow>
                (if ar_registered a then 0 else 1,
                 sv\<lparr>sv_world := w,
                    sv_clients := sv_clients sv @ [(c, newClient c (ar_fd a) (ar_addr a) (ar_port a))]\<rparr>)))"

section \<open>Closing servers\<close>

text \<open>\<open>ListenServer::removeServer\<close> with what it does to the clients of the server.\<close>

fun terminate_each :: "nat list \<Rightarrow> server \<Rightarrow> fault + server" where
  "terminate_each [] sv = Inr sv"
| "terminate_each (d # ds) sv = and_then (with_client d terminate sv) (terminate_each ds)"

definition close_socket :: "nat \<Rightarrow> ListenServer \<Rightarrow> server \<Rightarrow> server" where
  "close_socket s ls sv =
     (if ls_sockFd ls \<noteq> 0
      then sv\<lparr>sv_world := upd_server s shutdown (sv_world sv), sv_log := sv_log sv @ [Close (ls_sockFd ls)]\<rparr>
      else sv)"

definition remove_server :: "nat \<Rightarrow> server \<Rightarrow> fault + server" where
  "remove_server s sv =
     and_then (deref (server_at (sv_world sv) s)) (\<lambda>ls.
     and_then (terminate_each (ls_orphanClients ls) (close_socket s ls sv)) (\<lambda>sv1.
     and_then (deref (server_at (sv_world sv1) s)) (\<lambda>ls1.
     and_then (terminate_each (ls_connectedClients ls1) sv1)
       (on_world (\<lambda>w. and_then (unassign_from s {} (ls_hostMap ls) w) (\<lambda>w1.
          Inr (w1\<lparr>w_servers := del_assoc s (w_servers w1)\<rparr>)))))))"

fun remove_servers_from :: "nat list \<Rightarrow> server \<Rightarrow> fault + server" where
  "remove_servers_from [] sv = Inr sv"
| "remove_servers_from (s # ss) sv = and_then (remove_server s sv) (remove_servers_from ss)"

definition remove_servers :: "server \<Rightarrow> fault + server" where
  "remove_servers sv = remove_servers_from (map fst (w_servers (sv_world sv))) sv"

definition remove_server_at :: "string \<Rightarrow> string \<Rightarrow> server \<Rightarrow> fault + server" where
  "remove_server_at addr port sv =
     (case findServer addr port (sv_world sv) of None \<Rightarrow> Inr sv | Some s \<Rightarrow> remove_server s sv)"

text \<open>\<open>unregisterHost\<close> and \<open>removeHost\<close>, which may end in removing the server.\<close>

definition unregister_host :: "nat \<Rightarrow> string \<Rightarrow> server \<Rightarrow> fault + server" where
  "unregister_host i port sv =
     and_then (deref (host_at (sv_world sv) i)) (\<lambda>h.
       case findServer (ho_addr h) port (sv_world sv) of
         None \<Rightarrow> Inr sv
       | Some s \<Rightarrow>
           and_then (on_world (unassignHost s i) sv) (\<lambda>sv1.
           and_then (deref (server_at (sv_world sv1) s)) (\<lambda>ls.
           and_then (if ls_hostMap ls = [] then remove_server s sv1 else Inr sv1) (\<lambda>sv2.
           and_then (deref (host_at (sv_world sv2) i)) (\<lambda>h2.
             if ho_listenServers h2 = [] then on_world (removeHost i) sv2 else Inr sv2)))))"

definition remove_host :: "nat \<Rightarrow> string \<Rightarrow> server \<Rightarrow> fault + int \<times> server" where
  "remove_host s name sv =
     and_then (deref (server_at (sv_world sv) s)) (\<lambda>ls.
       case findHost name ls of
         None \<Rightarrow> Inr (1, sv)
       | Some i \<Rightarrow> and_then (unregister_host i (ls_port ls) sv) (\<lambda>sv1. Inr (0, sv1)))"

section \<open>The console\<close>

abbreviation str_arg :: "string \<Rightarrow> log_arg" where
  "str_arg t \<equiv> Arg_string (Some t)"

definition kill_usage :: string where
  "kill_usage = ''Invalid number of argument.'' @ endl @
     TAB # ''- kill all'' @ endl @
     TAB # ''- kill [server_ip] [port]'' @ endl @
     TAB # ''- kill [server_ip] [port] [host]''"

text \<open>With a word that is not \<open>all\<close> as its only argument \<open>kill\<close> does nothing.\<close>

definition handleKillCommand :: "string list \<Rightarrow> server \<Rightarrow> fault + server" where
  "handleKillCommand words sv =
     (if length words < 2 \<or> 4 < length words then Inr (show_it (LOGI kill_usage []) sv)
      else if words ! 1 = ''all'' then remove_servers sv
      else if length words = 3 then
        remove_server_at (words ! 1) (words ! 2)
          (show_it (LOGI ''Trying to remove server %ss:%ss'' [str_arg (words ! 1), str_arg (words ! 2)]) sv)
      else if length words = 4 then
        (case findServer (words ! 1) (words ! 2) (sv_world sv) of
           None \<Rightarrow> Inr (show_it (LOGI ''Invalid server'' []) sv)
         | Some s \<Rightarrow>
             and_then (remove_host s (words ! 3) sv) (\<lambda>(r, sv1).
               Inr (if r \<noteq> 0
                    then show_it (LOGI ''Host (%ss) was not found in server %ss:%ss''
                           [str_arg (words ! 3), str_arg (words ! 1), str_arg (words ! 2)]) sv1
                    else sv1)))
      else Inr sv)"

definition show_server :: "ListenServer \<Rightarrow> server \<Rightarrow> fault + server" where
  "show_server ls sv =
     and_then (server_text (sv_world sv) ls) (\<lambda>t.
       Inr (show_it (LOGI ''%Ls'' [Arg_object Obj_Server (Some t)]) sv))"

fun show_servers :: "(nat \<times> ListenServer) list \<Rightarrow> server \<Rightarrow> fault + server" where
  "show_servers [] sv = Inr sv"
| "show_servers ((s, ls) # rest) sv = and_then (show_server ls sv) (show_servers rest)"

definition handlePrintCommand :: "string list \<Rightarrow> server \<Rightarrow> fault + server" where
  "handlePrintCommand words sv =
     (if length words < 2 then show_servers (w_servers (sv_world sv)) sv
      else if 2 < length words then
        (case findServer (words ! 1) (words ! 2) (sv_world sv) of
           None \<Rightarrow> Inr (show_it (LOGI ''Invalid server'' []) sv)
         | Some s \<Rightarrow>
             and_then (deref (server_at (sv_world sv) s)) (\<lambda>ls.
               if length words = 3 then show_server ls sv
               else
                 (case findHost (words ! 3) ls of
                    None \<Rightarrow> Inr (show_it (LOGI ''Invalid host'' []) sv)
                  | Some i \<Rightarrow>
                      and_then (deref (host_at (sv_world sv) i)) (\<lambda>h.
                        Inr (show_it (LOGI ''%H'' [Arg_object Obj_Host (Some (host_text h))]) sv)))))
      else Inr sv)"

definition parseCommandPrompt :: "string list \<Rightarrow> server \<Rightarrow> fault + int \<times> server" where
  "parseCommandPrompt words sv =
     (case words of
        [] \<Rightarrow> Inr (0, sv)
      | word # _ \<Rightarrow>
          and_then
            (if word = ''kill'' then handleKillCommand words sv
             else if word = ''print'' then handlePrintCommand words sv
             else if word = ''client_nbr'' then
               Inr (show_it (LOGV ''Nbr of clients = %d'' [Arg_int (i32 (int (length (sv_clients sv))))]) sv)
             else if word = ''clear'' then Inr sv
             else Inr (show_it (LOGV ''Invalid command'' []) sv)) (\<lambda>sv1. Inr (0, sv1)))"

text \<open>
  \<open>handleCommandPrompt\<close> on a line of the standard input. Quotes that are not closed raise an
  exception that only \<open>main\<close> catches.
\<close>

definition handleCommandPrompt :: "bool \<Rightarrow> bool \<Rightarrow> string \<Rightarrow> server \<Rightarrow> fault + int \<times> server" where
  "handleCommandPrompt closed readable line sv =
     (if closed then and_then (remove_servers (show_it (LOGI ''Closing stdin'' []) sv)) (\<lambda>sv1. Inr (1, sv1))
      else if \<not> readable then Inr (0, sv)
      else
        (case parse_values 100 0 (stream_of line) [] of (r, words, _) \<Rightarrow>
           (case r of Inl e \<Rightarrow> Inl OtherException | Inr _ \<Rightarrow> parseCommandPrompt words sv)))"

section \<open>Events\<close>

datatype event =
    Console bool bool string
  | Arrival nat arrival
  | Activity nat inputs

definition client_activity :: "system \<Rightarrow> nat \<Rightarrow> inputs \<Rightarrow> server \<Rightarrow> fault + server" where
  "client_activity sys d inp sv = with_client d (client_event sys inp) sv"

text \<open>\<open>handleEpoll\<close> on the events of one \<open>epoll_wait\<close>; 1 stops the batch.\<close>

fun handle_events :: "system \<Rightarrow> event list \<Rightarrow> server \<Rightarrow> fault + int \<times> server" where
  "handle_events sys [] sv = Inr (0, sv)"
| "handle_events sys (Console closed readable line # es) sv =
     and_then (handleCommandPrompt closed readable line sv) (\<lambda>(r, sv1).
       if r \<noteq> 0 then Inr (1, sv1) else handle_events sys es sv1)"
| "handle_events sys (Arrival s a # es) sv =
     and_then (handleListenEvent s a sv) (\<lambda>(_, sv1). handle_events sys es sv1)"
| "handle_events sys (Activity d inp # es) sv =
     and_then (client_activity sys d inp sv) (handle_events sys es)"

definition handleEpoll :: "system \<Rightarrow> event list \<Rightarrow> int \<Rightarrow> server \<Rightarrow> fault + int \<times> server" where
  "handleEpoll sys es nbr_event sv =
     (if nbr_event < 1 then Inr (-1, sv) else handle_events sys (take (nat nbr_event) es) sv)"

text \<open>
  \<open>Client::checkTO\<close> over the list of clients: after a client without a request has been closed
  the others wait for the next call.
\<close>

fun check_clients :: "system \<Rightarrow> (nat \<Rightarrow> int) \<Rightarrow> nat list \<Rightarrow> server \<Rightarrow> fault + server" where
  "check_clients sys silent [] sv = Inr sv"
| "check_clients sys silent (d # ds) sv =
     and_then (deref (client_at sv d)) (\<lambda>c.
       and_then (with_client d (checkTO sys (silent d)) sv) (\<lambda>sv1.
         if cl_mode c = CLIENT_MODE_READ \<and> CLIENT_TIME_OUT < silent d \<and> cl_request c = None
         then Inr sv1 else check_clients sys silent ds sv1))"

definition check_silence :: "system \<Rightarrow> (nat \<Rightarrow> int) \<Rightarrow> server \<Rightarrow> fault + server" where
  "check_silence sys silent sv = check_clients sys silent (map fst (sv_clients sv)) sv"

text \<open>
  One round of the loop of \<open>main\<close>: \<open>nbr\<close> is the result of \<open>epoll_wait\<close>. The result is false
  when the loop is left.
\<close>

record round =
  rd_nbr :: int
  rd_events :: "event list"
  rd_silent :: "nat \<Rightarrow> int"

definition main_round :: "system \<Rightarrow> round \<Rightarrow> server \<Rightarrow> fault + bool \<times> server" where
  "main_round sys rd sv =
     and_then (if rd_nbr rd \<noteq> 0 then handleEpoll sys (rd_events rd) (rd_nbr rd) sv else Inr (0, sv)) (\<lambda>(r, sv1).
       if r < 0 then Inr (False, sv1)
       else and_then (check_silence sys (rd_silent rd) sv1) (\<lambda>sv2. Inr (True, sv2)))"

text \<open>
  The loop on a given list of rounds: it ends when no server is left, when \<open>epoll_wait\<close> fails,
  or when the rounds are used up. Then \<open>cleanExit\<close> closes what is left.
\<close>

fun main_loop :: "system \<Rightarrow> round list \<Rightarrow> server \<Rightarrow> fault + server" where
  "main_loop sys [] sv = Inr sv"
| "main_loop sys (rd # rds) sv =
     (if w_servers (sv_world sv) = [] then Inr sv
      else and_then (main_round sys rd sv) (\<lambda>(go, sv1). if go then main_loop sys rds sv1 else Inr sv1))"

definition cleanExit :: "server \<Rightarrow> fault + server" where
  "cleanExit sv = (if w_servers (sv_world sv) \<noteq> [] then remove_servers sv else Inr sv)"

end
