(* ===== verification/Pointers.thy ===== *)
theory Pointers
  imports Listen
begin

text \<open>
  Which pointers between servers, hosts and clients never dangle (\<open>pointers_ok\<close>): those from the
  names of a server to its hosts and those from a client to its host. Every operation on the
  lists keeps that: connecting, binding and dropping clients, registering and unassigning hosts,
  removing hosts and servers. The pointer from a client to its server is not among them.
\<close>

section \<open>The invariant\<close>

text \<open>
  \<open>hosts_live\<close>: every name of every server leads to a host that is still there, has that name
  and knows the server. \<open>links_live\<close>: the host a client points to is still there and lists
  the client. No number stands for two servers.
\<close>

definition hosts_live :: "world \<Rightarrow> bool" where
  "hosts_live w \<longleftrightarrow>
     (\<forall>s ls. server_at w s = Some ls \<longrightarrow> ls_ok ls \<and>
        (\<forall>n i. findHost n ls = Some i \<longrightarrow>
           (\<exists>h. host_at w i = Some h \<and> s \<in> set (ho_listenServers h) \<and> n \<in> set (ho_server_names h))))"

definition links_live :: "world \<Rightarrow> bool" where
  "links_live w \<longleftrightarrow>
     (\<forall>c i s. map_of (w_links w) c = Some (Some i, s) \<longrightarrow> (\<exists>h. host_at w i = Some h \<and> c \<in> set (ho_clients h)))"

definition pointers_ok :: "world \<Rightarrow> bool" where
  "pointers_ok w \<longleftrightarrow> hosts_live w \<and> links_live w \<and> distinct (map fst (w_servers w))"

lemma pointers_okD:
  assumes "pointers_ok w"
  shows "hosts_live w" "links_live w" "distinct (map fst (w_servers w))"
  using assms by (simp_all add: pointers_ok_def)

lemma hosts_liveI:
  assumes "\<And>s ls. server_at w s = Some ls \<Longrightarrow> ls_ok ls"
    and "\<And>s ls n i. server_at w s = Some ls \<Longrightarrow> findHost n ls = Some i \<Longrightarrow>
      \<exists>h. host_at w i = Some h \<and> s \<in> set (ho_listenServers h) \<and> n \<in> set (ho_server_names h)"
  shows "hosts_live w"
  using assms by (auto simp: hosts_live_def)

lemma hosts_liveD:
  assumes "hosts_live w" and "server_at w s = Some ls"
  shows "ls_ok ls"
    and "findHost n ls = Some i \<Longrightarrow>
      \<exists>h. host_at w i = Some h \<and> s \<in> set (ho_listenServers h) \<and> n \<in> set (ho_server_names h)"
  using assms by (auto simp: hosts_live_def)

text \<open>
  Servers may go, and what is left of a server keeps its map; hosts may change in what does not
  concern the servers.
\<close>

lemma hosts_live_keep:
  assumes "hosts_live w"
    and "\<And>s ls'. server_at w' s = Some ls' \<Longrightarrow> \<exists>ls. server_at w s = Some ls \<and> ls_hostMap ls' = ls_hostMap ls"
    and "\<And>i h. host_at w i = Some h \<Longrightarrow> \<exists>h'. host_at w' i = Some h' \<and>
      ho_listenServers h' = ho_listenServers h \<and> ho_server_names h' = ho_server_names h"
  shows "hosts_live w'"
proof (rule hosts_liveI)
  fix s ls' n i
  assume "server_at w' s = Some ls'"
  then obtain ls where ls: "server_at w s = Some ls" "ls_hostMap ls' = ls_hostMap ls" using assms(2) by blast
  with hosts_liveD(1) [OF assms(1) ls(1)] show "ls_ok ls'" by (simp add: ls_ok_def)
  assume "findHost n ls' = Some i"
  then have "findHost n ls = Some i" using ls(2) by (simp add: findHost_def)
  from hosts_liveD(2) [OF assms(1) ls(1) this] assms(3)
  show "\<exists>h. host_at w' i = Some h \<and> s \<in> set (ho_listenServers h) \<and> n \<in> set (ho_server_names h)"
    by metis
qed

lemma client_list_frames [simp]:
  "ho_listenServers (removeClient c h) = ho_listenServers h" "ho_server_names (removeClient c h) = ho_server_names h"
  "ho_listenServers (addClient c h) = ho_listenServers h" "ho_server_names (addClient c h) = ho_server_names h"
  "ls_hostMap (ls_removeClient c ls) = ls_hostMap ls"
  by (simp_all add: removeClient_def addClient_def ls_removeClient_def)

section \<open>Clients\<close>

lemma accept_pointers:
  assumes "acceptConnection fd s w = Inr (r, w')" and "pointers_ok w" and "world_ok w"
  shows "pointers_ok w'"
proof -
  have fresh: "map_of (w_links w) (w_next w) = None"
    using world_okD(3) [OF assms(3)] by (metis less_irrefl)
  show ?thesis
    unfolding pointers_ok_def
  proof (intro conjI)
    show "hosts_live w'"
      by (rule hosts_live_keep [OF pointers_okD(1) [OF assms(2)]])
        (use assms(1) in \<open>auto simp: acceptConnection_def and_then_eq_Inr Let_def split: if_splits\<close>)
    show "links_live w'"
      using assms(1) pointers_okD(2) [OF assms(2)] fresh
      by (auto simp: links_live_def acceptConnection_def and_then_eq_Inr Let_def map_add_def
          split: if_splits option.splits)
    show "distinct (map fst (w_servers w'))"
      using assms(1,2) by (auto simp: pointers_ok_def acceptConnection_def and_then_eq_Inr Let_def split: if_splits)
  qed
qed

lemma drop_pointers:
  assumes "drop_client c w = Inr w'" and "pointers_ok w"
  shows "pointers_ok w'"
  using assms(1)
proof (rule drop_cases)
  fix host s
  assume hosts: "\<And>i. host_at w' i = map_option (\<lambda>h. if host = Some i then removeClient c h else h) (host_at w i)"
    and servers: "\<And>t. server_at w' t = map_option (\<lambda>ls. if t = s then ls_removeClient c ls else ls) (server_at w t)"
    and links: "\<And>d. map_of (w_links w') d = (if d = c then None else map_of (w_links w) d)"
    and keys: "map fst (w_servers w') = map fst (w_servers w)"
  show ?thesis
    unfolding pointers_ok_def
  proof (intro conjI)
    show "hosts_live w'"
      by (rule hosts_live_keep [OF pointers_okD(1) [OF assms(2)]]) (auto simp: servers hosts)
    show "links_live w'"
      using pointers_okD(2) [OF assms(2)] unfolding links_live_def links hosts
      by (auto split: if_splits) (metis (full_types) in_removeClient)
    show "distinct (map fst (w_servers w'))" using assms(2) by (simp add: keys pointers_ok_def)
  qed
qed

lemma setHost_pointers:
  assumes "setHost c name w = Inr w'" and "pointers_ok w" and "world_ok w"
  shows "pointers_ok w'"
  using assms(1)
proof (cases rule: setHost_cases)
  case (2 host s j w1 w2)
  note w2 = bindClient_cases [OF 2(3)]
  have hosts: "host_at w' i = map_option (\<lambda>h. let h1 = (if host = Some i then removeClient c h else h) in
      if i = j then addClient c h1 else h1) (host_at w i)" for i
    by (cases "host_at w i") (use 2(2,4) w2 in \<open>auto simp: Let_def split: option.splits\<close>)
  have "map_of (w_links w2) c = Some (host, s)" using w2 2(1,2) by (simp split: option.split)
  then have links: "map_of (w_links w') d = (if d = c then Some (Some j, s) else map_of (w_links w) d)" for d
    using w2 2(2,4) by (auto split: option.splits)
  have "host_at w j \<noteq> None" using w2 2(2) by (auto split: option.splits if_splits)
  moreover have servers: "\<exists>ls. server_at w t = Some ls \<and> ls_hostMap ls' = ls_hostMap ls" if "server_at w' t = Some ls'" for t ls'
    using that w2 2(2,4) by (auto split: option.splits if_splits)
  ultimately show ?thesis
    unfolding pointers_ok_def
  proof (intro conjI)
    show "hosts_live w'"
      by (rule hosts_live_keep [OF pointers_okD(1) [OF assms(2)] servers]) (auto simp: hosts Let_def)
    show "links_live w'"
      unfolding links_live_def links
    proof (intro allI impI)
      fix d i t
      assume l: "(if d = c then Some (Some j, s) else map_of (w_links w) d) = Some (Some i, t)"
      show "\<exists>h. host_at w' i = Some h \<and> d \<in> set (ho_clients h)"
      proof (cases "d = c")
        case True
        with l \<open>host_at w j \<noteq> None\<close> show ?thesis by (cases "host = Some j") (auto simp: hosts Let_def)
      next
        case False
        with l pointers_okD(2) [OF assms(2)] obtain h where "host_at w i = Some h" "d \<in> set (ho_clients h)"
          by (auto simp: links_live_def)
        with False show ?thesis by (auto simp: hosts Let_def)
      qed
    qed
    have "map fst (w_servers w') = map fst (w_servers w)" using w2 2(2,4) by (simp split: option.split)
    then show "distinct (map fst (w_servers w'))" using assms(2) by (simp add: pointers_ok_def)
  qed
qed (use assms in simp)

section \<open>Binding\<close>

lemma bind_live:
  assumes "world_ok w" and "pointers_ok w" and "map_of (w_links w) d = Some (host, s)"
    and "server_at w s = Some ls" and "ls_hostMap ls \<noteq> []"
  shows "\<exists>w' i h. setHost d name w = Inr w' \<and> map_of (w_links w') d = Some (Some i, s) \<and>
    host_at w' i = Some h \<and> d \<in> set (ho_clients h) \<and>
    (findHost name ls \<noteq> None \<longrightarrow> name \<in> set (ho_server_names h))"
proof -
  have live: "hosts_live w" "links_live w" using assms(2) by (simp_all add: pointers_ok_def)
  obtain n i m where first: "ls_hostMap ls = (n, i) # m" using assms(5) by (cases "ls_hostMap ls") auto
  have "findHost n ls = Some i"
    using str_map.mem_find [of "ls_hostMap ls" n i] hosts_liveD(1) [OF live(1) assms(4)] first
    by (simp add: findHost_def ls_ok_def)
  then obtain j h where j: "(case findHost name ls of Some i \<Rightarrow> Inr i
        | None \<Rightarrow> (case ls_hostMap ls of [] \<Rightarrow> Inl BadAccess | (n, i) # m \<Rightarrow> Inr i)) = Inr j"
      "host_at w j = Some h" "findHost name ls \<noteq> None \<longrightarrow> name \<in> set (ho_server_names h)"
    using hosts_liveD(2) [OF live(1) assms(4)] first by (cases "findHost name ls") fastforce+
  have bound: "\<exists>w2. bindClient s d name w1 = Inr (j, w2)"
    if "w_servers w1 = w_servers w" "host_at w1 j \<noteq> None" for w1
    using that j(1) assms(4) by (auto simp: bindClient_def)
  define w1 where w1_def: "w1 = (case host of None \<Rightarrow> w | Some k \<Rightarrow> upd_host k (removeClient d) w)"
  then have w1: "w_servers w1 = w_servers w" "w_links w1 = w_links w" "w_next w1 = w_next w"
    "\<exists>h'. host_at w1 j = Some h' \<and> ho_server_names h' = ho_server_names h"
    using j(2) by (simp_all split: option.split)
  then obtain w2 where w2: "bindClient s d name w1 = Inr (j, w2)" using bound [of w1] by auto
  note w2' = bindClient_cases [OF w2]
  let ?w' = "w2\<lparr>w_links := upd_assoc d (\<lambda>_. (Some j, s)) (w_links w2)\<rparr>"
  have links: "map_of (w_links ?w') d = Some (Some j, s)"
    using w2' w1 assms(3) by auto
  have host_j: "\<exists>h'. host_at ?w' j = Some h' \<and> d \<in> set (ho_clients h') \<and> ho_server_names h' = ho_server_names h"
    using w2' w1 by auto
  show ?thesis
  proof (cases host)
    case None
    with assms(3) w2 w1_def have "setHost d name w = Inr ?w'" by (simp add: setHost_def)
    with links host_j j(3) show ?thesis by metis
  next
    case (Some k)
    with live(2) assms(3) obtain g where g: "host_at w k = Some g" "d \<in> set (ho_clients g)"
      unfolding links_live_def by blast
    show ?thesis
    proof (cases "checkServerName g name")
      case True
      with assms(3) Some g have "setHost d name w = Inr w" by (simp add: setHost_def)
      moreover from True have "name \<in> set (ho_server_names g)" by (simp add: checkServerName_def)
      ultimately show ?thesis using assms(3) Some g by blast
    next
      case False
      with assms(3) Some g w2 w1_def have "setHost d name w = Inr ?w'" by (simp add: setHost_def)
      with links host_j j(3) show ?thesis by metis
    qed
  qed
qed

section \<open>Hosts and servers\<close>

lemma unassign_pointers:
  assumes "unassignHost s i w = Inr w'" and "pointers_ok w"
  shows "pointers_ok w'"
proof -
  from assms(1) obtain ls h where ls: "server_at w s = Some ls" and h: "host_at w i = Some h"
    by (auto simp: unassignHost_def and_then_eq_Inr deref_def split: option.splits)
  define f where "f ls = ls\<lparr>ls_hostMap := fold (map_erase str_less) (ho_server_names h) (ls_hostMap ls)\<rparr>" for ls :: ListenServer
  have live: "hosts_live w" "links_live w" using assms(2) by (simp_all add: pointers_ok_def)
  consider "w' = w"
    | g where "w' = upd_host i (removeListenServer s) (upd_server s g w)" "\<And>x. ls_hostMap (g x) = ls_hostMap (f x)"
    using assms(1) ls h
    by (auto simp: unassignHost_def and_then_eq_Inr f_def split: option.splits list.splits)
  then show ?thesis
  proof cases
    case 2
    have find: "findHost n (g ls) = (if n \<in> set (ho_server_names h) then None else findHost n ls)" "ls_ok (g ls)" for n
      using erase_fold [of "ls_hostMap ls" "ho_server_names h"] hosts_liveD(1) [OF live(1) ls]
      by (simp_all add: findHost_def ls_ok_def 2(2) f_def)
    have "hosts_live w'"
    proof (rule hosts_liveI)
      fix t ls'
      assume t: "server_at w' t = Some ls'"
      then show "ls_ok ls'" using hosts_liveD(1) [OF live(1)] find(2) ls by (auto simp: 2(1) split: if_splits)
      fix n j
      assume n: "findHost n ls' = Some j"
      obtain ls0 where ls0: "server_at w t = Some ls0" "findHost n ls0 = Some j"
        "t = s \<longrightarrow> n \<notin> set (ho_server_names h)"
        using t n find(1) ls by (auto simp: 2(1) split: if_splits)
      from hosts_liveD(2) [OF live(1) ls0(1,2)] ls0(3) h
      show "\<exists>h. host_at w' j = Some h \<and> t \<in> set (ho_listenServers h) \<and> n \<in> set (ho_server_names h)"
        by (auto simp: 2(1) removeListenServer_def)
    qed
    moreover have "links_live w'"
      using live(2) by (fastforce simp: links_live_def 2(1) removeListenServer_def)
    ultimately show ?thesis using assms(2) by (simp add: pointers_ok_def 2(1))
  qed (use assms(2) in simp)
qed

lemma servers_pointers:
  assumes "pointers_ok w" and "w_hosts w' = w_hosts w" and "w_links w' = w_links w"
    and "\<And>s ls'. server_at w' s = Some ls' \<Longrightarrow> \<exists>ls. server_at w s = Some ls \<and> ls_hostMap ls' = ls_hostMap ls"
    and "distinct (map fst (w_servers w'))"
  shows "pointers_ok w'"
proof -
  have "hosts_live w'" by (rule hosts_live_keep [where w = w, OF _ assms(4)]) (use assms in \<open>simp_all add: pointers_ok_def\<close>)
  with assms(1-3,5) show ?thesis by (simp add: pointers_ok_def links_live_def)
qed

lemma shutdown_pointers: "pointers_ok w \<Longrightarrow> pointers_ok (upd_server s shutdown w)"
  by (rule servers_pointers) (auto simp: shutdown_def pointers_okD(3) split: if_splits)

lemma del_server_pointers: "pointers_ok w \<Longrightarrow> pointers_ok (w\<lparr>w_servers := del_assoc s (w_servers w)\<rparr>)"
  by (rule servers_pointers) (auto simp: pointers_okD(3) keys_del_assoc split: if_splits)

text \<open>A host is removed once no server leads to it and it has no client.\<close>

lemma removeHost_pointers:
  assumes "removeHost i w = Inr w'" and "pointers_ok w" and "map_option ho_listenServers (host_at w i) = Some []"
  shows "pointers_ok w'"
proof -
  from assms(1,3) obtain h where h: "host_at w i = Some h" "ho_listenServers h = []" "ho_clients h = []"
    and w': "w' = w\<lparr>w_hosts := del_assoc i (w_hosts w)\<rparr>"
    by (auto simp: removeHost_def and_then_eq_Inr split: if_splits)
  have live: "hosts_live w" "links_live w" using assms(2) by (simp_all add: pointers_ok_def)
  have "hosts_live w'"
  proof (rule hosts_liveI)
    fix s ls n j
    assume s: "server_at w' s = Some ls"
    then show "ls_ok ls" using hosts_liveD(1) [OF live(1)] by (simp add: w')
    assume "findHost n ls = Some j"
    with hosts_liveD(2) [OF live(1), of s ls n j] s h(1,2)
    show "\<exists>h. host_at w' j = Some h \<and> s \<in> set (ho_listenServers h) \<and> n \<in> set (ho_server_names h)"
      by (auto simp: w')
  qed
  moreover have "links_live w'"
    using live(2) h(1,3) by (fastforce simp: links_live_def w')
  ultimately show ?thesis using assms(2) by (simp add: pointers_ok_def w')
qed

section \<open>Registration\<close>

text \<open>Numbers yet to be given are not in use.\<close>

definition fresh :: "world \<Rightarrow> bool" where
  "fresh w \<longleftrightarrow> (\<forall>i. w_next w \<le> i \<longrightarrow> server_at w i = None \<and> host_at w i = None)"

definition named :: "nat \<Rightarrow> string list \<Rightarrow> world \<Rightarrow> bool" where
  "named i names w \<longleftrightarrow> map_option ho_server_names (host_at w i) = Some names"

lemma assign_pointers:
  assumes "pointers_ok w" and "named i names w"
  shows "pointers_ok (upd_host i (addListenServer s) (upd_server s (assignHost i names) w))"
proof -
  let ?w = "upd_host i (addListenServer s) (upd_server s (assignHost i names) w)"
  have live: "hosts_live w" "links_live w" using assms(1) by (simp_all add: pointers_ok_def)
  obtain h where h: "host_at w i = Some h" "ho_server_names h = names" using assms(2) by (auto simp: named_def)
  have "hosts_live ?w"
  proof (rule hosts_liveI)
    fix t ls'
    assume t: "server_at ?w t = Some ls'"
    then obtain ls where ls: "server_at w t = Some ls" "ls' = (if t = s then assignHost i names ls else ls)"
      by (auto split: if_splits)
    note ok = hosts_liveD(1) [OF live(1) ls(1)]
    with findHost_assign [OF ok, of i names] ls(2) show "ls_ok ls'" by simp
    fix n j
    assume "findHost n ls' = Some j"
    then have "findHost n ls = Some j \<or> t = s \<and> j = i \<and> n \<in> set names"
      using findHost_assign [OF ok, of i names n] ls(2) by (auto split: if_splits option.splits)
    then show "\<exists>h. host_at ?w j = Some h \<and> t \<in> set (ho_listenServers h) \<and> n \<in> set (ho_server_names h)"
    proof
      assume "findHost n ls = Some j"
      from hosts_liveD(2) [OF live(1) ls(1) this] show ?thesis by (auto simp: addListenServer_def)
    qed (use h in \<open>auto simp: addListenServer_def\<close>)
  qed
  moreover have "links_live ?w"
    using live(2) by (fastforce simp: links_live_def addListenServer_def)
  ultimately show ?thesis using assms(1) by (simp add: pointers_ok_def)
qed

lemma addServer_pointers:
  assumes "addServer sock a p w = (r, w')" and "pointers_ok w" and "fresh w"
  shows "pointers_ok w' \<and> fresh w' \<and> w_hosts w' = w_hosts w"
proof (cases "sock a p")
  case (Some fd)
  with assms(1) have w': "w' = w\<lparr>w_servers := w_servers w @ [(w_next w, (new_ListenServer a p)\<lparr>ls_sockFd := fd\<rparr>)],
      w_next := w_next w + 1\<rparr>" by (auto simp: addServer_def)
  have live: "hosts_live w" "links_live w" using assms(2) by (simp_all add: pointers_ok_def)
  have new: "server_at w (w_next w) = None" using assms(3) by (simp add: fresh_def)
  have at: "server_at w' s = (if s = w_next w then Some ((new_ListenServer a p)\<lparr>ls_sockFd := fd\<rparr>) else server_at w s)" for s
    using new by (auto simp: w' map_add_def split: option.split)
  have "hosts_live w'"
  proof (rule hosts_liveI, unfold at)
    show "ls_ok ls" if "(if s = w_next w then Some ((new_ListenServer a p)\<lparr>ls_sockFd := fd\<rparr>) else server_at w s) = Some ls" for s ls
      using that hosts_liveD(1) [OF live(1)] by (auto simp: ls_ok_def new_ListenServer_def split: if_splits)
    show "\<exists>h. host_at w' i = Some h \<and> s \<in> set (ho_listenServers h) \<and> n \<in> set (ho_server_names h)"
      if "(if s = w_next w then Some ((new_ListenServer a p)\<lparr>ls_sockFd := fd\<rparr>) else server_at w s) = Some ls"
        "findHost n ls = Some i" for s ls n i
      using that hosts_liveD(2) [OF live(1), of s ls n i]
      by (auto simp: w' findHost_def new_ListenServer_def split: if_splits)
  qed
  moreover have "fresh w'"
    using assms(3) at unfolding fresh_def by (auto simp: w' simp del: map_of_append)
  moreover have "distinct (map fst (w_servers w'))"
    using assms(2) new by (simp add: w' pointers_ok_def map_of_eq_None_iff)
  moreover have "links_live w'" using live(2) by (simp add: links_live_def w')
  ultimately show ?thesis by (simp add: pointers_ok_def w')
qed (use assms in \<open>auto simp: addServer_def\<close>)

lemma fresh_upd [simp]: "fresh (upd_host i f w) = fresh w" "fresh (upd_server s g w) = fresh w"
  by (auto simp: fresh_def)

lemma registerHost_port_pointers:
  assumes "registerHost_port sock i h p w = (r, w')"
    and "pointers_ok w" and "fresh w" and "named i (ho_server_names h) w"
  shows "pointers_ok w' \<and> fresh w' \<and> named i (ho_server_names h) w'"
proof -
  have step: "pointers_ok (upd_host i (addListenServer s) (upd_server s (assignHost i (ho_server_names h)) x)) \<and>
      fresh (upd_host i (addListenServer s) (upd_server s (assignHost i (ho_server_names h)) x)) \<and>
      named i (ho_server_names h) (upd_host i (addListenServer s) (upd_server s (assignHost i (ho_server_names h)) x))"
    if "pointers_ok x" "fresh x" "named i (ho_server_names h) x" for s x
    using that assign_pointers [OF that(1,3)]
    by (simp add: named_def) (auto simp: addListenServer_def option.map_comp comp_def fresh_def)
  show ?thesis
  proof (cases "findServer (ho_addr h) p w")
    case (Some s)
    with assms(1) step [OF assms(2-4)] show ?thesis by (auto simp: registerHost_port_def)
  next
    case None
    obtain q w1 where add: "addServer sock (ho_addr h) p w = (q, w1)" by (cases "addServer sock (ho_addr h) p w")
    note new = addServer_pointers [OF add assms(2,3)]
    then have "named i (ho_server_names h) w1" using assms(4) by (simp add: named_def)
    with new step [of w1] assms(1) None add show ?thesis by (auto simp: registerHost_port_def split: option.splits)
  qed
qed

lemma registerHost_ports_pointers:
  assumes "registerHost_ports sock i h ps w = (r, w')"
    and "pointers_ok w" and "fresh w" and "named i (ho_server_names h) w"
  shows "pointers_ok w' \<and> fresh w'"
  using assms
proof (induction ps arbitrary: w r)
  case (Cons p ps)
  then show ?case by (auto split: prod.splits dest: registerHost_port_pointers)
qed simp

lemma addHost_pointers:
  assumes "addHost sock h w = (r, w')" and "pointers_ok w" and "fresh w"
  shows "pointers_ok w' \<and> fresh w'"
proof -
  let ?w = "w\<lparr>w_hosts := w_hosts w @ [(w_next w, h)], w_next := w_next w + 1\<rparr>"
  have new: "host_at w (w_next w) = None" using assms(3) by (simp add: fresh_def)
  then have at: "host_at ?w i = (if i = w_next w then Some h else host_at w i)" for i
    by (auto simp: map_add_def split: option.split)
  have live: "hosts_live w" "links_live w" using assms(2) by (simp_all add: pointers_ok_def)
  have kept: "host_at w i = Some g \<Longrightarrow> host_at ?w i = Some g" for i g using new at by auto
  have "hosts_live ?w"
    by (rule hosts_live_keep [where w = w, OF live(1)]) (use kept in \<open>auto simp del: map_of_append\<close>)
  moreover have "links_live ?w"
    using live(2) kept unfolding links_live_def by (metis world.select_convs(3) world.update_convs(2,4) world.surjective)
  moreover have "fresh ?w" unfolding fresh_def at using assms(3) by (auto simp: fresh_def)
  moreover have "named (w_next w) (ho_server_names h) ?w" unfolding named_def at by simp
  ultimately show ?thesis
    using registerHost_ports_pointers [of sock "w_next w" h "ho_ports h" ?w] assms(1)
      assms(2) by (simp add: addHost_def registerHost_def pointers_ok_def)
qed

lemma startServers_pointers: "pointers_ok w \<Longrightarrow> pointers_ok (snd (startServers listens w))"
proof (rule servers_pointers)
  assume w: "pointers_ok w"
  then have d: "distinct (map fst (w_servers w))" by (simp add: pointers_ok_def)
  then show "distinct (map fst (w_servers (snd (startServers listens w))))"
    by (simp add: startServers_def distinct_map_filter)
  fix s ls'
  assume s: "server_at (snd (startServers listens w)) s = Some ls'"
  from map_of_SomeD [OF s] have "(s, ls') \<in> set (w_servers w)" by (simp add: startServers_def)
  with d show "\<exists>ls. server_at w s = Some ls \<and> ls_hostMap ls' = ls_hostMap ls" by auto
qed (simp_all add: startServers_def)

end
