(* ===== verification/Server_Run.thy ===== *)
theory Server_Run
  imports Server Pointers
begin

text \<open>
  The invariant of the whole server, kept by every operation of the event loop: the lists agree
  with what every client is linked to, exactly the clients that are there are linked, every
  client is well typed, and no host has changed its rules since the configuration was read.
\<close>

section \<open>The lists only shrink\<close>

text \<open>What removing hosts and servers does to the lists of clients.\<close>

definition clients_of_host :: "world \<Rightarrow> nat \<Rightarrow> nat set" where
  "clients_of_host w i = (case host_at w i of None \<Rightarrow> {} | Some h \<Rightarrow> set (ho_clients h))"

definition clients_of_server :: "world \<Rightarrow> nat \<Rightarrow> nat set" where
  "clients_of_server w s =
     (case server_at w s of None \<Rightarrow> {} | Some ls \<Rightarrow> set (ls_connectedClients ls) \<union> set (ls_orphanClients ls))"

text \<open>What a host is configured to do, apart from who is connected and where it listens.\<close>

definition rules :: "Host \<Rightarrow> Host" where
  "rules h = h\<lparr>ho_clients := [], ho_listenServers := []\<rparr>"

definition keeps_rules :: "world \<Rightarrow> world \<Rightarrow> bool" where
  "keeps_rules w w' \<longleftrightarrow>
     (\<forall>i h'. host_at w' i = Some h' \<longrightarrow> (\<exists>h. host_at w i = Some h \<and> rules h' = rules h))"

lemma keeps_rules_refl [simp]: "keeps_rules w w"
  by (simp add: keeps_rules_def)

lemma keeps_rules_trans: "keeps_rules w1 w2 \<Longrightarrow> keeps_rules w2 w3 \<Longrightarrow> keeps_rules w1 w3"
  unfolding keeps_rules_def by metis

lemma keeps_rules_frames [simp]:
  "keeps_rules w0 (w\<lparr>w_servers := x\<rparr>) = keeps_rules w0 w" "keeps_rules w0 (w\<lparr>w_links := y\<rparr>) = keeps_rules w0 w"
  "keeps_rules w0 (w\<lparr>w_next := z\<rparr>) = keeps_rules w0 w"
  "keeps_rules w0 (w\<lparr>w_servers := x, w_hosts := h\<rparr>) = keeps_rules w0 (w\<lparr>w_hosts := h\<rparr>)"
  by (simp_all add: keeps_rules_def)

lemma keeps_rules_del [simp]: "keeps_rules w0 w \<Longrightarrow> keeps_rules w0 (w\<lparr>w_hosts := del_assoc i (w_hosts w)\<rparr>)"
  by (simp add: keeps_rules_def)

lemma rules_simps [simp]:
  "rules (h\<lparr>ho_listenServers := ss\<rparr>) = rules h" "rules (h\<lparr>ho_clients := cs\<rparr>) = rules h"
  by (simp_all add: rules_def)

lemma rules_frames [simp]:
  "rules (addClient c h) = rules h" "rules (removeClient c h) = rules h" "rules (removeListenServer s h) = rules h"
  by (simp_all add: addClient_def removeClient_def removeListenServer_def)

lemma keeps_rules_upd [simp]: "(\<And>h. rules (f h) = rules h) \<Longrightarrow> keeps_rules w0 w \<Longrightarrow> keeps_rules w0 (upd_host i f w)"
  by (fastforce simp: keeps_rules_def split: if_splits)

definition shrinks :: "world \<Rightarrow> world \<Rightarrow> bool" where
  "shrinks w w' \<longleftrightarrow>
     w_links w' = w_links w \<and> w_next w' = w_next w \<and> keeps_rules w w' \<and>
     (pointers_ok w \<longrightarrow> pointers_ok w') \<and>
     (\<forall>i. clients_of_host w' i \<subseteq> clients_of_host w i) \<and>
     (\<forall>s. clients_of_server w' s \<subseteq> clients_of_server w s)"

lemmas clients_of_defs = clients_of_host_def clients_of_server_def

lemma shrinks_refl: "shrinks w w"
  by (simp add: shrinks_def)

lemma shrinks_trans: "shrinks w1 w2 \<Longrightarrow> shrinks w2 w3 \<Longrightarrow> shrinks w1 w3"
  unfolding shrinks_def by (intro conjI) (simp, simp, blast intro: keeps_rules_trans, blast+)

lemma world_ok_lists:
  "world_ok w \<longleftrightarrow>
     (\<forall>i. \<forall>c \<in> clients_of_host w i. \<exists>s. map_of (w_links w) c = Some (Some i, s)) \<and>
     (\<forall>s. \<forall>c \<in> clients_of_server w s. \<exists>host. map_of (w_links w) c = Some (host, s)) \<and>
     (\<forall>c. map_of (w_links w) c \<noteq> None \<longrightarrow> c < w_next w)"
proof -
  have host: "(\<forall>c \<in> clients_of_host w i. P c) = (\<forall>h c. host_at w i = Some h \<and> c \<in> set (ho_clients h) \<longrightarrow> P c)"
    for i P by (auto simp: clients_of_host_def split: option.splits)
  have server: "(\<forall>c \<in> clients_of_server w s. P c) =
      (\<forall>ls c. server_at w s = Some ls \<and> c \<in> set (ls_connectedClients ls @ ls_orphanClients ls) \<longrightarrow> P c)"
    for s P by (auto simp: clients_of_server_def split: option.splits)
  show ?thesis unfolding world_ok_def host server by blast
qed

lemma shrinks_ok: "shrinks w w' \<Longrightarrow> world_ok w \<Longrightarrow> world_ok w'"
  unfolding world_ok_lists shrinks_def by (metis subsetD)

lemma shrinks_shutdown: "shrinks w (upd_server s shutdown w)"
  using shutdown_pointers [of w s] by (auto simp: shrinks_def clients_of_defs shutdown_def split: option.split)

lemma shrinks_del_server: "shrinks w (w\<lparr>w_servers := del_assoc s (w_servers w)\<rparr>)"
  using del_server_pointers [of w s] by (auto simp: shrinks_def clients_of_defs split: option.split)

lemma unassignHost_shrinks: "gives (shrinks w) (unassignHost s i w)"
proof -
  have "shrinks w w'" if "unassignHost s i w = Inr w'" for w'
    using unassign_pointers [OF that] that
    by (auto simp: unassignHost_def and_then_eq_Inr shrinks_def clients_of_defs removeListenServer_def
        split: option.splits list.splits if_splits)
  then show ?thesis by (cases "unassignHost s i w") auto
qed

lemma removeHost_shrinks:
  assumes "map_option ho_listenServers (host_at w i) = Some []"
  shows "gives (shrinks w) (removeHost i w)"
proof -
  have "shrinks w w'" if "removeHost i w = Inr w'" for w'
    using removeHost_pointers [OF that _ assms] that by (auto simp: removeHost_def and_then_eq_Inr shrinks_def clients_of_defs split: if_splits option.splits)
  then show ?thesis by (cases "removeHost i w") auto
qed

lemma unassign_from_shrinks: "gives (shrinks w) (unassign_from s seen entries w)"
proof (induction s seen entries w rule: unassign_from.induct)
  case (2 s seen k i rest w)
  show ?case
  proof (cases "server_at w s")
    case (Some ls)
    show ?thesis
    proof (cases "findHost k ls = None")
      case False
      have "gives (shrinks w) (and_then (unassignHost s i w) (unassign_from s (insert i seen)
          (dropWhile (\<lambda>(k', i'). findHost k' ls = None \<or> i' \<in> insert i seen) rest)))"
      proof (rule gives_bind [OF unassignHost_shrinks])
        fix w1
        assume w1: "shrinks w w1"
        have "gives (shrinks w1) (unassign_from s (insert i seen)
            (dropWhile (\<lambda>(k', i'). findHost k' ls = None \<or> i' \<in> insert i seen) rest) w1)"
          by (rule 2 [OF False refl refl])
        then show "gives (shrinks w) (unassign_from s (insert i seen)
            (dropWhile (\<lambda>(k', i'). findHost k' ls = None \<or> i' \<in> insert i seen) rest) w1)"
          using shrinks_trans [OF w1] by (cases "unassign_from s (insert i seen)
            (dropWhile (\<lambda>(k', i'). findHost k' ls = None \<or> i' \<in> insert i seen) rest) w1") auto
      qed
      with Some False show ?thesis by (simp add: Let_def)
    qed (simp add: Some)
  qed simp
qed (simp add: shrinks_refl)

section \<open>The invariant of the server\<close>

definition server_ok :: "world \<Rightarrow> server \<Rightarrow> bool" where
  "server_ok w0 sv \<longleftrightarrow>
     world_ok (sv_world sv) \<and> pointers_ok (sv_world sv) \<and> keeps_rules w0 (sv_world sv) \<and>
     (\<forall>d. map_of (w_links (sv_world sv)) d \<noteq> None \<longleftrightarrow> client_at sv d \<noteq> None) \<and>
     (\<forall>d c. client_at sv d = Some c \<longrightarrow> client_ok c \<and> cl_id c = d)"

text \<open>What the lists know while client \<open>d\<close> is busy; the other clients are \<open>D\<close>.\<close>

definition client_in :: "world \<Rightarrow> nat set \<Rightarrow> nat \<Rightarrow> nat \<Rightarrow> bool \<Rightarrow> world \<Rightarrow> bool" where
  "client_in w0 D d c alive w \<longleftrightarrow>
     c = d \<and> world_ok w \<and> pointers_ok w \<and> keeps_rules w0 w \<and>
     (\<forall>x. map_of (w_links w) x \<noteq> None \<longleftrightarrow> (if x = d then alive else x \<in> D))"

lemma setHost_links:
  assumes "setHost c n w = Inr w'"
  shows "(map_of (w_links w') x \<noteq> None) = (map_of (w_links w) x \<noteq> None)"
  using assms
proof (cases rule: setHost_cases)
  case (2 host s j w1 w2)
  have "w_links w2 = w_links w"
    using bindClient_cases [OF 2(3)] 2(2) by (auto split: option.splits)
  with 2(4) show ?thesis by simp
qed simp

lemma setHost_rules:
  assumes "setHost c n w = Inr w'" and "keeps_rules w0 w"
  shows "keeps_rules w0 w'"
  using assms(1)
proof (cases rule: setHost_cases)
  case (2 host s j w1 w2)
  have "keeps_rules w0 w1" using assms(2) 2(2) by (simp split: option.split)
  then show ?thesis using bindClient_cases [OF 2(3)] 2(4) by simp
qed (use assms(2) in simp)

lemma drop_rules: "drop_client c w = Inr w' \<Longrightarrow> keeps_rules w0 w \<Longrightarrow> keeps_rules w0 w'"
  by (erule drop_cases) (fastforce simp: keeps_rules_def)

lemma accept_hosts: "acceptConnection fd s w = Inr (r, w') \<Longrightarrow> keeps_rules w0 w' = keeps_rules w0 w"
  by (auto simp: acceptConnection_def and_then_eq_Inr Let_def split: if_splits)

lemma drop_client_links:
  "drop_client c w = Inr w' \<Longrightarrow> (map_of (w_links w') x \<noteq> None) = (x \<noteq> c \<and> map_of (w_links w) x \<noteq> None)"
  by (erule drop_cases) simp

interpretation conn: connection "client_in w0 D d" for w0 D d
proof
  show "client_in w0 D d c alive w'" if "client_in w0 D d c alive w" "setHost c name w = Inr w'" for c alive w name w'
    using that setHost_ok setHost_rules setHost_pointers setHost_links [OF that(2)] by (auto simp: client_in_def)
  show "client_in w0 D d c False w'" if "client_in w0 D d c alive w" "drop_client c w = Inr w'" for c alive w w'
    using that(1) drop_ok [OF _ that(2)] drop_client_links [OF that(2)] drop_rules [OF that(2)] drop_pointers [OF that(2)]
    by (auto simp: client_in_def split: if_splits)
qed

lemma with_client_ok:
  assumes "server_ok w0 sv"
    and "\<And>D s. session_ok (client_in w0 D d) s \<Longrightarrow> gives (session_ok (client_in w0 D d)) (f s)"
  shows "gives (server_ok w0) (with_client d f sv)"
proof (cases "client_at sv d")
  case (Some c)
  let ?D = "{x. client_at sv x \<noteq> None}"
  have "session_ok (client_in w0 ?D d) (session_of sv c)"
    using assms(1) Some by (auto simp: session_ok_def session_of_def client_in_def server_ok_def)
  from assms(2) [OF this] have "gives (session_ok (client_in w0 ?D d)) (f (session_of sv c))" .
  moreover have "server_ok w0 (put_session d s sv)" if "session_ok (client_in w0 ?D d) s" for s
  proof -
    have s: "client_ok (s_client s)" "cl_id (s_client s) = d" "world_ok (s_world s)"
      "pointers_ok (s_world s)" "keeps_rules w0 (s_world s)"
      "\<And>x. map_of (w_links (s_world s)) x \<noteq> None \<longleftrightarrow> (if x = d then s_alive s else client_at sv x \<noteq> None)"
      using that unfolding session_ok_def client_in_def mem_Collect_eq by blast+
    have at: "client_at (put_session d s sv) x =
        (if x = d then if s_alive s then Some (s_client s) else None else client_at sv x)" for x
      using Some by (simp add: put_session_def)
    have world: "sv_world (put_session d s sv) = s_world s" by (simp add: put_session_def)
    have others: "client_at sv x = Some y \<Longrightarrow> client_ok y \<and> cl_id y = x" for x y
      using assms(1) by (simp add: server_ok_def)
    have "map_of (w_links (s_world s)) x \<noteq> None \<longleftrightarrow> client_at (put_session d s sv) x \<noteq> None" for x
      unfolding at s(6) by simp
    moreover have "client_ok y \<and> cl_id y = x" if "client_at (put_session d s sv) x = Some y" for x y
      using that s(1,2) others unfolding at by (metis option.inject option.distinct(1))
    ultimately show ?thesis unfolding server_ok_def world using s(3-5) by blast
  qed
  ultimately show ?thesis
    using Some by (cases "f (session_of sv c)") (auto simp: with_client_def)
qed (simp add: with_client_def)

lemma on_world_here:
  assumes "server_ok w0 sv" and "gives (shrinks (sv_world sv)) (f (sv_world sv))"
  shows "gives (server_ok w0) (on_world f sv)"
proof -
  have "server_ok w0 (sv\<lparr>sv_world := w\<rparr>)" if "shrinks (sv_world sv) w" for w
    using assms(1) shrinks_ok [OF that] that by (auto simp: server_ok_def shrinks_def intro: keeps_rules_trans)
  then show ?thesis unfolding on_world_def by (intro gives_bind [OF assms(2)]) simp
qed

lemma on_world_ok:
  assumes "server_ok w0 sv" and "\<And>w. gives (shrinks w) (f w)"
  shows "gives (server_ok w0) (on_world f sv)"
  using assms by (rule on_world_here)

lemma show_it_ok [simp]: "server_ok w0 (show_it x sv) = server_ok w0 sv"
  by (simp add: show_it_def server_ok_def)

section \<open>Every operation keeps it\<close>

lemma accept_links:
  assumes "acceptConnection fd s w = Inr (r, w')"
  shows "w_links w' = (case r of None \<Rightarrow> w_links w | Some c \<Rightarrow> w_links w @ [(c, None, s)]) \<and>
    (r = None \<or> r = Some (w_next w))"
  using assms by (auto simp: acceptConnection_def and_then_eq_Inr Let_def split: if_splits)

lemma handleListenEvent_ok:
  assumes "server_ok w0 sv"
  shows "gives (\<lambda>(r, sv'). server_ok w0 sv') (handleListenEvent s a sv)"
proof (cases "acceptConnection (ar_fd a) s (sv_world sv)")
  case (Inr p)
  obtain r w where p: "p = (r, w)" by (cases p)
  note acc = Inr [unfolded p]
  have w: "world_ok w" "pointers_ok w"
    using assms accept_ok [OF _ acc] accept_pointers [OF acc] by (simp_all add: server_ok_def)
  have fresh: "map_of (w_links (sv_world sv)) (w_next (sv_world sv)) = None"
    using assms world_okD(3) [of "sv_world sv" "w_next (sv_world sv)"]
    by (metis server_ok_def less_irrefl option.distinct(1) option.exhaust)
  then have free: "client_at sv (w_next (sv_world sv)) = None"
    using assms by (metis server_ok_def)
  have new: "client_ok (newClient c f ad po)" "cl_id (newClient c f ad po) = c" for c f ad po
    by (simp_all add: newClient_def new_Client_def client_ok_def)
  note links = accept_links [OF acc] and rules = accept_hosts [OF acc, of w0]
  show ?thesis
  proof (cases r)
    case None
    with assms acc w links rules show ?thesis by (simp add: handleListenEvent_def server_ok_def)
  next
    case (Some c)
    let ?sv = "sv\<lparr>sv_world := w, sv_clients := sv_clients sv @
      [(c, newClient c (ar_fd a) (ar_addr a) (ar_port a))]\<rparr>"
    have c: "c = w_next (sv_world sv)" "w_links w = w_links (sv_world sv) @ [(c, None, s)]"
      using links Some by simp_all
    have at: "client_at ?sv x = (if x = c then Some (newClient c (ar_fd a) (ar_addr a) (ar_port a))
        else client_at sv x)" for x
      using free c by (auto simp: map_add_def split: option.split)
    have link: "map_of (w_links w) x = (if x = c then Some (None, s) else map_of (w_links (sv_world sv)) x)" for x
      using fresh c by (auto simp: map_add_def split: option.split)
    have others: "map_of (w_links (sv_world sv)) x \<noteq> None \<longleftrightarrow> client_at sv x \<noteq> None"
      "client_at sv x = Some y \<Longrightarrow> client_ok y \<and> cl_id y = x" for x y
      using assms by (simp_all add: server_ok_def)
    have "map_of (w_links w) x \<noteq> None \<longleftrightarrow> client_at ?sv x \<noteq> None" for x
      unfolding at link using others(1) [of x] by simp
    moreover have "client_ok y \<and> cl_id y = x" if "client_at ?sv x = Some y" for x y
      using that new others(2) unfolding at by (metis option.inject)
    moreover have "keeps_rules w0 w" using rules assms by (simp add: server_ok_def)
    ultimately have "server_ok w0 ?sv" using w by (simp add: server_ok_def)
    with acc Some show ?thesis by (simp add: handleListenEvent_def)
  qed
qed (simp add: handleListenEvent_def)

lemma terminate_each_ok: "server_ok w0 sv \<Longrightarrow> gives (server_ok w0) (terminate_each ds sv)"
proof (induction ds arbitrary: sv)
  case (Cons d ds)
  have "gives (server_ok w0) (with_client d terminate sv)"
    by (rule with_client_ok [OF Cons.prems conn.terminate_keeps])
  then show ?case using Cons.IH by (simp add: gives_bind)
qed simp

lemma close_socket_ok: "server_ok w0 sv \<Longrightarrow> server_ok w0 (close_socket s ls sv)"
  using shrinks_ok [OF shrinks_shutdown, of "sv_world sv" s] shutdown_pointers [of "sv_world sv" s] by (auto simp: close_socket_def server_ok_def)

lemma remove_server_ok:
  assumes "server_ok w0 sv"
  shows "gives (server_ok w0) (remove_server s sv)"
proof -
  have emptied: "gives (shrinks w) (and_then (unassign_from s {} m w) (\<lambda>w1.
      Inr (w1\<lparr>w_servers := del_assoc s (w_servers w1)\<rparr>)))" for m w
    by (rule gives_bind [OF unassign_from_shrinks]) (auto intro: shrinks_trans [OF _ shrinks_del_server])
  have last: "server_ok w0 sv1 \<Longrightarrow> gives (server_ok w0) (on_world (\<lambda>w. and_then (unassign_from s {} m w) (\<lambda>w1.
      Inr (w1\<lparr>w_servers := del_assoc s (w_servers w1)\<rparr>))) sv1)" for sv1 m
    by (rule on_world_ok [OF _ emptied])
  show ?thesis
    unfolding remove_server_def
  proof (rule gives_bind [OF gives_any], rule gives_bind [OF terminate_each_ok])
    fix ls sv1
    assume "server_ok w0 sv1"
    then show "gives (server_ok w0) (and_then (deref (server_at (sv_world sv1) s)) (\<lambda>ls1.
      and_then (terminate_each (ls_connectedClients ls1) sv1)
       (on_world (\<lambda>w. and_then (unassign_from s {} (ls_hostMap ls) w) (\<lambda>w1.
          Inr (w1\<lparr>w_servers := del_assoc s (w_servers w1)\<rparr>))))))"
      by (intro gives_bind [OF gives_any] gives_bind [OF terminate_each_ok] last)
  qed (simp add: assms close_socket_ok)
qed

lemma remove_servers_from_ok: "server_ok w0 sv \<Longrightarrow> gives (server_ok w0) (remove_servers_from ss sv)"
  by (induction ss arbitrary: sv) (auto intro: gives_bind [OF remove_server_ok])

lemma remove_servers_ok: "server_ok w0 sv \<Longrightarrow> gives (server_ok w0) (remove_servers sv)"
  unfolding remove_servers_def by (rule remove_servers_from_ok)

lemma remove_server_at_ok: "server_ok w0 sv \<Longrightarrow> gives (server_ok w0) (remove_server_at addr port sv)"
  by (simp add: remove_server_at_def remove_server_ok split: option.split)

lemma unregister_host_ok:
  assumes "server_ok w0 sv"
  shows "gives (server_ok w0) (unregister_host i port sv)"
proof -
  have removal: "gives (server_ok w0) (and_then (deref (host_at (sv_world sv2) i)) (\<lambda>h2.
      if ho_listenServers h2 = [] then on_world (removeHost i) sv2 else Inr sv2))"
    if "server_ok w0 sv2" for sv2
    using that on_world_here [OF that, of "removeHost i"] removeHost_shrinks [of "sv_world sv2" i]
    by (cases "host_at (sv_world sv2) i") auto
  have rest: "gives (server_ok w0) (and_then (deref (server_at (sv_world sv1) s)) (\<lambda>ls.
      and_then (if ls_hostMap ls = [] then remove_server s sv1 else Inr sv1) (\<lambda>sv2.
      and_then (deref (host_at (sv_world sv2) i)) (\<lambda>h2.
        if ho_listenServers h2 = [] then on_world (removeHost i) sv2 else Inr sv2))))"
    if "server_ok w0 sv1" for sv1 s
    by (rule gives_bind [OF gives_any], rule gives_bind [where P = "server_ok w0"])
      (simp_all add: that removal remove_server_ok)
  show ?thesis
    unfolding unregister_host_def
    using assms rest
    by (intro gives_bind [OF gives_any])
      (auto split: option.split intro!: gives_bind [OF on_world_ok [OF _ unassignHost_shrinks]])
qed

lemma remove_host_ok: "server_ok w0 sv \<Longrightarrow> gives (\<lambda>(r, sv'). server_ok w0 sv') (remove_host s name sv)"
  unfolding remove_host_def
  by (intro gives_bind [OF gives_any]) (auto split: option.split intro: gives_bind [OF unregister_host_ok])

lemma handleKillCommand_ok: "server_ok w0 sv \<Longrightarrow> gives (server_ok w0) (handleKillCommand words sv)"
proof -
  assume ok: "server_ok w0 sv"
  have host: "gives (server_ok w0) (and_then (remove_host s n sv) (\<lambda>(r, sv1).
      Inr (if r \<noteq> 0 then show_it x sv1 else sv1)))" for s n x
    by (rule gives_bind [OF remove_host_ok [OF ok]]) auto
  have one: "gives (server_ok w0) (case findServer a p w of None \<Rightarrow> Inr (show_it y sv)
      | Some s \<Rightarrow> and_then (remove_host s n sv) (\<lambda>(r, sv1).
          Inr (if r \<noteq> 0 then show_it x sv1 else sv1)))" for a p w n x y
    using ok host by (simp split: option.split)
  show ?thesis
    unfolding handleKillCommand_def
    by (intro gives_if remove_servers_ok remove_server_at_ok one) (simp_all add: ok)
qed

lemma show_server_ok: "server_ok w0 sv \<Longrightarrow> gives (server_ok w0) (show_server ls sv)"
  unfolding show_server_def by (rule gives_bind [OF gives_any]) simp

lemma show_servers_ok: "server_ok w0 sv \<Longrightarrow> gives (server_ok w0) (show_servers xs sv)"
  by (induction xs sv rule: show_servers.induct) (auto intro: gives_bind [OF show_server_ok])

lemma handlePrintCommand_ok: "server_ok w0 sv \<Longrightarrow> gives (server_ok w0) (handlePrintCommand words sv)"
proof -
  assume ok: "server_ok w0 sv"
  have host: "gives (server_ok w0) (case f of None \<Rightarrow> Inr (show_it x sv)
      | Some i \<Rightarrow> and_then (deref (g i)) (\<lambda>h. Inr (show_it (y h) sv)))" for f g x y
    by (cases f) (auto simp: ok intro!: gives_bind [OF gives_any])
  have one: "gives (server_ok w0) (case f of None \<Rightarrow> Inr (show_it x sv)
      | Some s \<Rightarrow> and_then (deref (g s)) (\<lambda>ls. if b then show_server ls sv
          else (case l ls of None \<Rightarrow> Inr (show_it x' sv)
            | Some i \<Rightarrow> and_then (deref (k i)) (\<lambda>h. Inr (show_it (y h) sv)))))" for f g b l k x x' y
    by (cases f) (auto simp: ok intro!: gives_bind [OF gives_any] show_server_ok host)
  show ?thesis
    unfolding handlePrintCommand_def
    by (intro gives_if show_servers_ok one) (simp_all add: ok)
qed

lemma handleCommandPrompt_ok:
  assumes "server_ok w0 sv"
  shows "gives (\<lambda>(r, sv'). server_ok w0 sv') (handleCommandPrompt closed readable line sv)"
proof -
  have "gives (\<lambda>(r, sv'). server_ok w0 sv') (parseCommandPrompt words sv)" for words
  proof (cases words)
    case (Cons word rest)
    have "gives (server_ok w0)
        (if word = ''kill'' then handleKillCommand words sv
         else if word = ''print'' then handlePrintCommand words sv
         else if word = ''client_nbr'' then
           Inr (show_it (LOGV ''Nbr of clients = %d'' [Arg_int (i32 (int (length (sv_clients sv))))]) sv)
         else if word = ''clear'' then Inr sv
         else Inr (show_it (LOGV ''Invalid command'' []) sv))"
      by (intro gives_if handleKillCommand_ok handlePrintCommand_ok) (simp_all add: assms)
    then show ?thesis
      unfolding parseCommandPrompt_def Cons list.case by (rule gives_bind) simp
  qed (simp add: parseCommandPrompt_def assms)
  then have line: "gives (\<lambda>(r, sv'). server_ok w0 sv') (case p of (r, words, _) \<Rightarrow>
      (case r of Inl e \<Rightarrow> Inl OtherException | Inr _ \<Rightarrow> parseCommandPrompt words sv))"
    for p :: "(config_exn + unit) \<times> string list \<times> istream"
    by (cases p; cases "fst p") auto
  have closing: "gives (\<lambda>(r, sv'). server_ok w0 sv')
      (and_then (remove_servers (show_it (LOGI ''Closing stdin'' []) sv)) (\<lambda>sv1. Inr (1 :: int, sv1)))"
    by (rule gives_bind [OF remove_servers_ok]) (simp_all add: assms)
  show ?thesis
    unfolding handleCommandPrompt_def by (intro gives_if closing line [of "parse_values 100 0 (stream_of line) []"]) (simp add: assms)
qed

lemma handle_events_ok: "server_ok w0 sv \<Longrightarrow> gives (\<lambda>(r, sv'). server_ok w0 sv') (handle_events sys es sv)"
proof (induction sys es sv rule: handle_events.induct)
  case (2 sys closed readable line es sv)
  then show ?case by (auto intro!: gives_bind [OF handleCommandPrompt_ok])
next
  case (3 sys s a es sv)
  then show ?case by (auto intro!: gives_bind [OF handleListenEvent_ok])
next
  case (4 sys d inp es sv)
  have "gives (server_ok w0) (client_activity sys d inp sv)"
    unfolding client_activity_def by (rule with_client_ok [OF 4(2) conn.client_event_keeps])
  then show ?case using 4(1) by (simp add: gives_bind)
qed simp

lemma handleEpoll_ok: "server_ok w0 sv \<Longrightarrow> gives (\<lambda>(r, sv'). server_ok w0 sv') (handleEpoll sys es n sv)"
  by (simp add: handleEpoll_def handle_events_ok)

lemma check_clients_ok: "server_ok w0 sv \<Longrightarrow> gives (server_ok w0) (check_clients sys silent ds sv)"
proof (induction ds arbitrary: sv)
  case (Cons d ds)
  have "gives (server_ok w0) (with_client d (checkTO sys (silent d)) sv)"
    by (rule with_client_ok [OF Cons.prems conn.checkTO_keeps])
  then have "gives (server_ok w0) (and_then (with_client d (checkTO sys (silent d)) sv) (\<lambda>sv1.
      if b then Inr sv1 else check_clients sys silent ds sv1))" for b
    by (rule gives_bind) (simp add: Cons.IH)
  then show ?case unfolding check_clients.simps by (rule gives_bind [OF gives_any])
qed simp

lemma main_round_ok: "server_ok w0 sv \<Longrightarrow> gives (\<lambda>(b, sv'). server_ok w0 sv') (main_round sys rd sv)"
  unfolding main_round_def check_silence_def
  by (rule gives_bind [OF gives_if [OF handleEpoll_ok]])
    (auto intro!: gives_bind [OF check_clients_ok])

lemma main_loop_ok: "server_ok w0 sv \<Longrightarrow> gives (server_ok w0) (main_loop sys rds sv)"
proof (induction rds arbitrary: sv)
  case (Cons rd rds)
  then show ?case by (auto intro!: gives_bind [OF main_round_ok])
qed simp

end
