(* ===== verification/Config.thy ===== *)
theory Config
  imports Config_Lexer Listen
begin

text \<open>
  The configuration parser of srcs/IParseConfig.cpp: directives, blocks and the file.

  The parser's static state is a \<open>conf\<close>: the line buffer, the error flag, the default error
  pages, the pools of location and CGI blocks and the lists of hosts and servers. It is
  returned beside the result, because what was changed before an exception stays changed.
  The object being configured and the streams of its block are dropped by an exception.

  The loops over directives are partial: \<open>None\<close> means that the parser does not return.
\<close>

section \<open>State\<close>

record conf =
  cf_lineBuffer :: string
  cf_error :: bool
  cf_default_error_pages :: string
  cf_locations :: "Location list"
  cf_cgis :: "CGIConfig list"
  cf_world :: world

definition empty_conf :: conf where
  "empty_conf =
     \<lparr> cf_lineBuffer = [], cf_error = False, cf_default_error_pages = [], cf_locations = [],
       cf_cgis = [], cf_world = empty_world \<rparr>"

type_synonym 'o token_handler = "istream \<Rightarrow> string \<Rightarrow> 'o \<Rightarrow> config_exn + 'o \<times> istream"
type_synonym 'o block_handler =
  "istream \<Rightarrow> string \<Rightarrow> 'o \<Rightarrow> conf \<Rightarrow> ((config_exn + 'o \<times> istream) \<times> conf) option"

section \<open>Directives\<close>

text \<open>A name that is missing is a null pointer given to the constructor of a string.\<close>

definition missing :: "string option \<Rightarrow> config_exn" where
  "missing i = (case i of None \<Rightarrow> Fault LogicError | Some name \<Rightarrow> MissingToken name)"

text \<open>The word is appended to \<open>dest\<close>.\<close>

definition need_word :: "istream \<Rightarrow> string \<Rightarrow> config_exn \<Rightarrow> config_exn + string \<times> istream" where
  "need_word s dest e =
     (case getNextWord s dest of (r, word, s1) \<Rightarrow>
        (case r of Inl e' \<Rightarrow> Inl e' | Inr ret \<Rightarrow> if ret \<noteq> 0 then Inl e else Inr (word, s1)))"

definition restrict_end :: "char option \<Rightarrow> string \<Rightarrow> string" where
  "restrict_end c dest =
     (case c of
        None \<Rightarrow> dest
      | Some c \<Rightarrow> if dest \<noteq> [] \<and> last dest \<noteq> c then dest @ [c] else dest)"

definition parsePath :: "istream \<Rightarrow> string \<Rightarrow> string option \<Rightarrow> char option \<Rightarrow> config_exn + string \<times> istream" where
  "parsePath s dest i restrictEnd =
     and_then (need_word s dest (missing i)) (\<lambda>(d, s1). Inr (restrict_end restrictEnd d, s1))"

definition parseExtension :: "istream \<Rightarrow> string \<Rightarrow> config_exn + string \<times> istream" where
  "parseExtension s dest = need_word s dest (MissingToken ''identifier is missing'')"

definition parseBoolean :: "istream \<Rightarrow> string option \<Rightarrow> config_exn + bool \<times> istream" where
  "parseBoolean s i =
     and_then (need_word s [] (missing i)) (\<lambda>(word, s1).
       if word = ''on'' then Inr (True, s1)
       else if word = ''off'' then Inr (False, s1)
       else Inl InvalidBoolean)"

definition parseUri :: "istream \<Rightarrow> string \<Rightarrow> string option \<Rightarrow> config_exn + string \<times> istream" where
  "parseUri s dest i = need_word s dest (missing i)"

definition read_values :: "istream \<Rightarrow> string list \<Rightarrow> config_exn + string list \<times> istream" where
  "read_values s words =
     (case parseValues s words of (r, words1, s1) \<Rightarrow>
        (case r of Inl e \<Rightarrow> Inl e | Inr _ \<Rightarrow> Inr (words1, s1)))"

fun methods_mask :: "string list \<Rightarrow> int \<Rightarrow> config_exn + int" where
  "methods_mask [] dest = Inr dest"
| "methods_mask (m # ms) dest =
     (case getMethodIndex m of
        None \<Rightarrow> Inl InvalidMethod
      | Some i \<Rightarrow> methods_mask ms (or dest (2 ^ method_index i)))"

definition parseAllowedMethods :: "istream \<Rightarrow> config_exn + int \<times> istream" where
  "parseAllowedMethods s =
     and_then (read_values s []) (\<lambda>(ms, s1). and_then (methods_mask ms 0) (\<lambda>dest. Inr (dest, s1)))"

definition parseRedirection :: "istream \<Rightarrow> Location \<Rightarrow> config_exn + Location \<times> istream" where
  "parseRedirection s l =
     and_then (read_values s []) (\<lambda>(vs, s1).
       case vs of
         v # addr # addrs \<Rightarrow>
           (case getInt v 10 0 of (err, status) \<Rightarrow>
              if err \<noteq> 0 \<or> status < 300 \<or> 308 < status \<or> (303 < status \<and> status < 307)
              then Inl InvalidRedirection
              else Inr (l\<lparr>l_redir := status, l_addr_redir := l_addr_redir l @ addr # addrs\<rparr>, s1))
       | _ \<Rightarrow> Inl (MissingToken ''redirection values''))"

text \<open>A \<open>std::set\<close> of strings as an ordered list.\<close>

definition set_insert :: "string \<Rightarrow> string list \<Rightarrow> string list" where
  "set_insert x xs = map fst (map_set str_less x () (map (\<lambda>y. (y, ())) xs))"

fun insert_ports :: "string list \<Rightarrow> string list \<Rightarrow> config_exn + string list" where
  "insert_ports [] ports = Inr ports"
| "insert_ports (p # ps) ports =
     (if fst (getInt p 10 0) \<noteq> 0 then Inl InvalidPort else insert_ports ps (set_insert p ports))"

definition parsePorts :: "istream \<Rightarrow> Host \<Rightarrow> config_exn + Host \<times> istream" where
  "parsePorts s h =
     and_then (read_values s []) (\<lambda>(ps, s1).
       if ps = [] then Inl (MissingToken ''port'')
       else and_then (insert_ports ps (ho_ports h)) (\<lambda>ports. Inr (h\<lparr>ho_ports := ports\<rparr>, s1)))"

definition parseHostName :: "istream \<Rightarrow> Host \<Rightarrow> config_exn + Host \<times> istream" where
  "parseHostName s h =
     and_then (need_word s [] (MissingToken ''host'')) (\<lambda>(a, s1). Inr (h\<lparr>ho_addr := a\<rparr>, s1))"

definition parseServerName :: "istream \<Rightarrow> Host \<Rightarrow> config_exn + Host \<times> istream" where
  "parseServerName s h =
     and_then (read_values s (ho_server_names h)) (\<lambda>(names, s1).
       if names = [] then Inl (MissingToken ''server_name'')
       else Inr (h\<lparr>ho_server_names := names\<rparr>, s1))"

definition parseBodyMaxSize :: "istream \<Rightarrow> Host \<Rightarrow> config_exn + Host \<times> istream" where
  "parseBodyMaxSize s h =
     and_then (need_word s [] (MissingToken ''body_max_size'')) (\<lambda>(word, s1).
       case getInt word 10 (ho_body_max_size h) of (err, n) \<Rightarrow>
         if err \<noteq> 0 then Inl InvalidMaxBodySize else Inr (h\<lparr>ho_body_max_size := n\<rparr>, s1))"

section \<open>Location and CGI blocks\<close>

definition handleCGIConfigToken :: "CGIConfig token_handler" where
  "handleCGIConfigToken s token cgi =
     (if token = ''root'' then
        and_then (parsePath s (c_root cgi) (Some ''root'') (Some (CHR ''/'')))
          (\<lambda>(p, s1). Inr (cgi\<lparr>c_root := p\<rparr>, s1))
      else if token = ''methods'' then
        and_then (parseAllowedMethods s) (\<lambda>(m, s1). Inr (cgi\<lparr>c_methods := m\<rparr>, s1))
      else if token = ''exec'' then
        and_then (parsePath s (c_exec cgi) None None) (\<lambda>(p, s1). Inr (cgi\<lparr>c_exec := p\<rparr>, s1))
      else if token = ''identifier'' then
        and_then (parseExtension s (c_extension cgi)) (\<lambda>(x, s1). Inr (cgi\<lparr>c_extension := x\<rparr>, s1))
      else Inl (UnknownToken token))"

definition handleLocationToken :: "Location token_handler" where
  "handleLocationToken s token l =
     (if token = ''root'' then
        and_then (parsePath s (l_root l) (Some ''root'') (Some (CHR ''/'')))
          (\<lambda>(p, s1). Inr (l\<lparr>l_root := p\<rparr>, s1))
      else if token = ''methods'' then
        and_then (parseAllowedMethods s) (\<lambda>(m, s1). Inr (l\<lparr>l_methods := m\<rparr>, s1))
      else if token = ''dir_listing'' then
        and_then (parseBoolean s None) (\<lambda>(b, s1). Inr (l\<lparr>l_dir_listing := b\<rparr>, s1))
      else if token = ''upload'' then
        and_then (parseBoolean s None) (\<lambda>(b, s1). Inr (l\<lparr>l_upload := b\<rparr>, s1))
      else if token = ''default_uri'' then
        and_then (parseUri s (l_default_uri l) None) (\<lambda>(u, s1). Inr (l\<lparr>l_default_uri := u\<rparr>, s1))
      else if token = ''upload_root'' then
        and_then (parsePath s (l_upload_root l) (Some ''upload_root'') (Some (CHR ''/'')))
          (\<lambda>(p, s1). Inr (l\<lparr>l_upload_root := p\<rparr>, s1))
      else if token = ''return'' then parseRedirection s l
      else Inl (UnknownToken token))"

definition checkLocation :: "Location \<Rightarrow> config_exn option" where
  "checkLocation l = (if l_root l = [] then Some (MissingToken ''root'') else None)"

definition checkCGIConfig :: "CGIConfig \<Rightarrow> config_exn option" where
  "checkCGIConfig c =
     (if c_root c = [] then Some (MissingToken ''root'')
      else if c_extension c = [] then Some (MissingToken ''identifier'')
      else None)"

text \<open>\<open>parseBlock\<close>: directives, each ended by a semicolon, up to the end of the block.\<close>

partial_function (option) parseBlock ::
  "'o block_handler \<Rightarrow> istream \<Rightarrow> 'o \<Rightarrow> conf \<Rightarrow> ((config_exn + 'o \<times> istream) \<times> conf) option" where
  "parseBlock handler s obj cf =
     (case getNextWord s [] of (r, token, s1) \<Rightarrow>
        (case r of
           Inl e \<Rightarrow> Some (Inl e, cf)
         | Inr ret \<Rightarrow>
             if ret = 0 then
               Option.bind (handler s1 token obj cf) (\<lambda>(res, cf1).
                 case res of
                   Inl e \<Rightarrow> Some (Inl e, cf1)
                 | Inr (obj1, s2) \<Rightarrow>
                     (case checkSemiColon s2 of (found, s3) \<Rightarrow>
                        if found then parseBlock handler s3 obj1 cf1
                        else Some (Inl MissingSemicolon, cf1)))
             else if ret = -1 then Some (Inr (obj, s1), cf)
             else Some (Inl (UnexpectedToken token), cf)))"

definition simple :: "'o token_handler \<Rightarrow> 'o block_handler" where
  "simple h s token obj cf = Some (h s token obj, cf)"

text \<open>
  What \<open>parseLocation\<close> and \<open>parseCGIConfig\<close> share: the names, the block, its directives and
  what is done with the object. Errors inside the block are caught, and the parser goes on
  after the block.
\<close>

definition catch_in_block :: "config_exn \<Rightarrow> Host \<Rightarrow> istream \<Rightarrow> conf \<Rightarrow> (config_exn + Host \<times> istream) \<times> conf" where
  "catch_in_block e h s cf =
     (case e of
        LastBlock \<Rightarrow> (Inl MissingOpeningBrace, cf)
      | Fault f \<Rightarrow> (Inl (Fault f), cf)
      | _ \<Rightarrow> (Inr (h, s), cf\<lparr>cf_error := True\<rparr>))"

definition named_block ::
  "'o token_handler \<Rightarrow> 'o \<Rightarrow> (string list \<Rightarrow> 'o \<Rightarrow> conf \<Rightarrow> Host \<Rightarrow> config_exn + conf \<times> Host) \<Rightarrow>
   istream \<Rightarrow> Host \<Rightarrow> conf \<Rightarrow> ((config_exn + Host \<times> istream) \<times> conf) option" where
  "named_block handler new add s h cf =
     (case read_values s [] of
        Inl e \<Rightarrow> Some (Inl e, cf)
      | Inr (names, s1) \<Rightarrow>
          (case getNextBlock s1 (cf_lineBuffer cf) of (r, lb, s2) \<Rightarrow>
             (let cf1 = cf\<lparr>cf_lineBuffer := lb\<rparr> in
              case r of
                Inl e \<Rightarrow> Some (Inl e, cf1)
              | Inr block \<Rightarrow>
                  Option.bind (parseBlock (simple handler) (stream_of block) new cf1) (\<lambda>(res, cf2).
                    Some (case res of
                            Inl e \<Rightarrow> catch_in_block e h s2 cf2
                          | Inr (obj, _) \<Rightarrow>
                              (case add names obj cf2 h of
                                 Inl e \<Rightarrow> catch_in_block e h s2 cf2
                               | Inr (cf3, h1) \<Rightarrow> (Inr (h1, s2), cf3)))))))"

definition add_location :: "string list \<Rightarrow> Location \<Rightarrow> conf \<Rightarrow> Host \<Rightarrow> config_exn + conf \<times> Host" where
  "add_location names l cf h =
     (case checkLocation l of
        Some e \<Rightarrow> Inl e
      | None \<Rightarrow>
          (case addLocation names l (cf_locations cf, h) of (pool, h1) \<Rightarrow>
             Inr (cf\<lparr>cf_locations := pool\<rparr>, h1)))"

definition add_cgi :: "string list \<Rightarrow> CGIConfig \<Rightarrow> conf \<Rightarrow> Host \<Rightarrow> config_exn + conf \<times> Host" where
  "add_cgi names c cf h =
     (case checkCGIConfig c of
        Some e \<Rightarrow> Inl e
      | None \<Rightarrow>
          (case addCGIConfig names c (cf_cgis cf, h) of (pool, h1) \<Rightarrow>
             Inr (cf\<lparr>cf_cgis := pool\<rparr>, h1)))"

definition parseLocation :: "istream \<Rightarrow> Host \<Rightarrow> conf \<Rightarrow> ((config_exn + Host \<times> istream) \<times> conf) option" where
  "parseLocation = named_block handleLocationToken new_Location add_location"

definition parseCGIConfig :: "istream \<Rightarrow> Host \<Rightarrow> conf \<Rightarrow> ((config_exn + Host \<times> istream) \<times> conf) option" where
  "parseCGIConfig = named_block handleCGIConfigToken new_CGIConfig add_cgi"

section \<open>Hosts\<close>

definition handleHostToken :: "Host block_handler" where
  "handleHostToken s token h cf =
     (let pure = (\<lambda>r. Some (r, cf)) in
      if token = ''listen'' then pure (parsePorts s h)
      else if token = ''host'' then pure (parseHostName s h)
      else if token = ''server_name'' then pure (parseServerName s h)
      else if token = ''error_pages'' then
        pure (and_then (parsePath s (ho_dir_errors h) None None)
                (\<lambda>(p, s1). Inr (h\<lparr>ho_dir_errors := p\<rparr>, s1)))
      else if token = ''body_max_size'' then pure (parseBodyMaxSize s h)
      else if token = ''location'' then parseLocation s h cf
      else if token = ''cgi'' then parseCGIConfig s h cf
      else pure (Inl (UnknownToken token)))"

definition checkHost :: "conf \<Rightarrow> Host \<Rightarrow> config_exn + Host" where
  "checkHost cf h =
     (if ho_addr h = [] then Inl (MissingToken ''host address'')
      else if ho_ports h = [] then Inl (MissingToken ''listen'')
      else
        (let h1 = (if ho_dir_errors h = [] then h\<lparr>ho_dir_errors := cf_default_error_pages cf\<rparr> else h) in
         if ho_server_names h1 = [] then Inl (MissingToken ''server_name'')
         else if getLocation h1 ''*'' = None then Inl (MissingToken ''host default location `*`'')
         else if \<not> checkServerNames (ho_addr h1) (ho_ports h1) (ho_server_names h1) (cf_world cf)
         then Inl DuplicateServerName
         else Inr h1))"

text \<open>A host whose servers could not all be opened stays in the list.\<close>

definition add_host :: "(string \<Rightarrow> string \<Rightarrow> int option) \<Rightarrow> Host \<Rightarrow> conf \<Rightarrow> (config_exn + unit) \<times> conf" where
  "add_host sock h cf =
     (case checkHost cf h of
        Inl e \<Rightarrow> (Inl e, cf)
      | Inr h1 \<Rightarrow>
          (case addHost sock h1 (cf_world cf) of (r, w) \<Rightarrow>
             (if r \<noteq> 0 then Inl HostExn else Inr (), cf\<lparr>cf_world := w\<rparr>)))"

text \<open>
  Every exception of the parser inside a host is caught: the error flag is set and the parser
  goes on after the block.
\<close>

definition catch_in_host ::
  "istream \<Rightarrow> (config_exn + unit) \<times> conf \<Rightarrow> (config_exn + istream) \<times> conf" where
  "catch_in_host s rc =
     (case rc of (r, cf) \<Rightarrow>
        (case r of
           Inr _ \<Rightarrow> (Inr s, cf)
         | Inl (Fault f) \<Rightarrow> (Inl (Fault f), cf)
         | Inl _ \<Rightarrow> (Inr s, cf\<lparr>cf_error := True\<rparr>)))"

definition parseHost ::
  "(string \<Rightarrow> string \<Rightarrow> int option) \<Rightarrow> istream \<Rightarrow> conf \<Rightarrow> ((config_exn + istream) \<times> conf) option" where
  "parseHost sock s cf =
     (case getNextBlock s (cf_lineBuffer cf) of (r, lb, s1) \<Rightarrow>
        (let cf1 = cf\<lparr>cf_lineBuffer := lb\<rparr> in
         case r of
           Inl e \<Rightarrow> Some (Inl e, cf1)
         | Inr block \<Rightarrow>
             Option.bind (parseBlock handleHostToken (stream_of block) new_Host cf1) (\<lambda>(res, cf2).
               Some (catch_in_host s1
                 (case res of Inl e \<Rightarrow> (Inl e, cf2) | Inr (h, _) \<Rightarrow> add_host sock h cf2)))))"

section \<open>The file\<close>

definition handleConfigToken ::
  "(string \<Rightarrow> string \<Rightarrow> int option) \<Rightarrow> istream \<Rightarrow> string \<Rightarrow> conf \<Rightarrow> ((config_exn + istream) \<times> conf) option" where
  "handleConfigToken sock s token cf =
     (if token = ''server'' then parseHost sock s cf
      else if token = ''default_error_pages'' then
        (case getNextWord s [] of (r, word, s1) \<Rightarrow>
           Some (case r of
                   Inl e \<Rightarrow> Inl e
                 | Inr ret \<Rightarrow> if ret \<noteq> 0 then Inl (MissingToken ''default error page location'')
                            else Inr s1,
                 cf\<lparr>cf_default_error_pages := word\<rparr>))
      else Some (Inl (UnknownToken token), cf))"

partial_function (option) config_loop ::
  "(string \<Rightarrow> string \<Rightarrow> int option) \<Rightarrow> istream \<Rightarrow> conf \<Rightarrow> ((config_exn + unit) \<times> conf) option" where
  "config_loop sock s cf =
     (case getNextWord s [] of (r, token, s1) \<Rightarrow>
        (case r of
           Inl e \<Rightarrow> Some (Inl e, cf)
         | Inr ret \<Rightarrow>
             if ret = 0 then
               Option.bind (handleConfigToken sock s1 token cf) (\<lambda>(res, cf1).
                 case res of
                   Inl e \<Rightarrow> Some (Inl e, cf1)
                 | Inr s2 \<Rightarrow>
                     (case checkSemiColon s2 of (found, s3) \<Rightarrow>
                        if found then config_loop sock s3 cf1
                        else Some (Inl MissingSemicolon, cf1)))
             else if ret = -1 then Some (Inr (), cf)
             else Some (Inl (UnexpectedToken token), cf)))"

definition checkFilePath :: "system \<Rightarrow> string \<Rightarrow> bool" where
  "checkFilePath sys path = (stat_kind sys path = Some Regular)"

definition openFile :: "system \<Rightarrow> string option \<Rightarrow> istream option" where
  "openFile sys path =
     (case path of
        None \<Rightarrow> None
      | Some p \<Rightarrow>
          if \<not> checkFilePath sys p then None
          else map_option stream_of (file_bytes sys p))"

text \<open>
  \<open>parseConfigFile\<close>: 0 or 1, or an exception that leaves it (a missing
  \<open>default_error_pages\<close> is reported outside the \<open>try\<close> block).
\<close>

definition parseConfigFile ::
  "system \<Rightarrow> (string \<Rightarrow> string \<Rightarrow> int option) \<Rightarrow> string option \<Rightarrow> conf \<Rightarrow> ((config_exn + int) \<times> conf) option" where
  "parseConfigFile sys sock path cf =
     (case openFile sys path of
        None \<Rightarrow> Some (Inr 1, cf)
      | Some s \<Rightarrow>
          Option.bind (config_loop sock s cf) (\<lambda>(res, cf1).
            (let end_result = (if cf_default_error_pages cf1 = []
                               then Inl (MissingToken ''default_error_pages'') else Inr 0) in
             Some (case res of
                     Inr _ \<Rightarrow> (end_result, cf1)
                   | Inl LastBlock \<Rightarrow> (end_result, cf1)
                   | Inl (Fault f) \<Rightarrow> (Inl (Fault f), cf1)
                   | Inl _ \<Rightarrow> (Inr 1, cf1)))))"

declare parseBlock.simps [code] config_loop.simps [code]

end
