(* ===== verification/Config_Blocks.thy ===== *)
theory Config_Blocks
  imports Config
begin

text \<open>
  What the directives, the location blocks and the CGI blocks give: \<open>gives P r\<close> says that
  \<open>r\<close> is an exception or a value with the property \<open>P\<close>. Every directive moves the stream
  forward and keeps the object well formed, so a block's directives are read in finitely many
  rounds. A handler that can also change the parser's state is treated by \<open>parseBlock_keeps\<close>.
\<close>

section \<open>What the directives give\<close>

lemma need_word_gives: "gives (\<lambda>(w, s'). advances s s' \<and> w \<noteq> []) (need_word s d e)"
  by (auto simp: need_word_def split: prod.splits sum.splits
      dest: getNextWord_advances getNextWord_nonempty)

lemma read_values_gives:
  "gives (\<lambda>(ws, s'). advances s s' \<and> ([] \<notin> set ws0 \<longrightarrow> [] \<notin> set ws)) (read_values s ws0)"
  by (auto simp: read_values_def parseValues_def split: prod.splits sum.splits
      dest: parse_values_advances parse_values_nonempty)

definition slash_end :: "string \<Rightarrow> bool" where
  "slash_end p \<longleftrightarrow> p \<noteq> [] \<and> last p = CHR ''/''"

lemma parsePath_gives:
  "gives (\<lambda>(p, s'). advances s s' \<and> p \<noteq> [] \<and> (c = Some (CHR ''/'') \<longrightarrow> slash_end p)) (parsePath s d i c)"
  unfolding parsePath_def
  by (rule gives_bind [OF need_word_gives])
    (auto simp: restrict_end_def slash_end_def split: option.splits)

lemma parseExtension_gives: "gives (\<lambda>(x, s'). advances s s' \<and> x \<noteq> []) (parseExtension s d)"
  unfolding parseExtension_def by (rule need_word_gives)

lemma parseUri_gives: "gives (\<lambda>(x, s'). advances s s' \<and> x \<noteq> []) (parseUri s d i)"
  unfolding parseUri_def by (rule need_word_gives)

lemma parseBoolean_gives: "gives (\<lambda>(b, s'). advances s s') (parseBoolean s i)"
  unfolding parseBoolean_def by (rule gives_bind [OF need_word_gives]) auto

text \<open>A set of methods: bits 0 to 4.\<close>

definition mask_ok :: "int \<Rightarrow> bool" where
  "mask_ok m \<longleftrightarrow> 0 \<le> m \<and> m < 32"

lemma mask_or: "mask_ok a \<Longrightarrow> mask_ok (or a (2 ^ method_index m))"
proof -
  assume a: "mask_ok a"
  have "(2::int) ^ method_index m < 2 ^ 5" by (cases m) simp_all
  with a show ?thesis
    using OR_upper [of a 5 "2 ^ method_index m"] by (simp add: mask_ok_def or_nonnegative_int_iff)
qed

lemma methods_mask_gives: "mask_ok d \<Longrightarrow> gives mask_ok (methods_mask ms d)"
  by (induction ms d rule: methods_mask.induct) (auto split: option.split intro: mask_or)

lemma parseAllowedMethods_gives: "gives (\<lambda>(m, s'). advances s s' \<and> mask_ok m) (parseAllowedMethods s)"
  unfolding parseAllowedMethods_def
proof (rule gives_bind [OF read_values_gives], clarify)
  fix ms s1
  assume "advances s s1"
  moreover have "gives mask_ok (methods_mask ms 0)"
    by (rule methods_mask_gives) (simp add: mask_ok_def)
  ultimately show "gives (\<lambda>(m, s'). advances s s' \<and> mask_ok m)
      (and_then (methods_mask ms 0) (\<lambda>dest. Inr (dest, s1)))"
    by (auto intro: gives_bind)
qed

text \<open>A redirection that can be answered.\<close>

definition redir_ok :: "int \<Rightarrow> string list \<Rightarrow> bool" where
  "redir_ok st addrs \<longleftrightarrow>
     (st \<noteq> 0 \<longrightarrow> st \<in> {300, 301, 302, 303, 307, 308} \<and> addrs \<noteq> []) \<and> [] \<notin> set addrs"

lemma parseRedirection_gives:
  assumes "redir_ok (l_redir l) (l_addr_redir l)"
  shows "gives (\<lambda>(l', s'). advances s s' \<and> redir_ok (l_redir l') (l_addr_redir l') \<and>
    (\<exists>st as. l' = l\<lparr>l_redir := st, l_addr_redir := as\<rparr>)) (parseRedirection s l)"
  unfolding parseRedirection_def
proof (rule gives_bind [OF read_values_gives], clarify)
  fix vs :: "string list" and s1
  assume adv: "advances s s1" and ne: "[] \<notin> set ([] :: string list) \<longrightarrow> [] \<notin> set vs"
  have st: "x \<in> {300, 301, 302, 303, 307, 308}"
    if "\<not> x < 300" "\<not> 308 < x" "\<not> (303 < x \<and> x < 307)" for x :: int
    using that by auto
  show "gives (\<lambda>(l', s'). advances s s' \<and> redir_ok (l_redir l') (l_addr_redir l') \<and>
      (\<exists>st as. l' = l\<lparr>l_redir := st, l_addr_redir := as\<rparr>))
    (case vs of [] \<Rightarrow> Inl (MissingToken ''redirection values'')
     | [v] \<Rightarrow> Inl (MissingToken ''redirection values'')
     | v # addr # addrs \<Rightarrow>
         (case getInt v 10 0 of (err, status) \<Rightarrow>
            if err \<noteq> 0 \<or> status < 300 \<or> 308 < status \<or> (303 < status \<and> status < 307)
            then Inl InvalidRedirection
            else Inr (l\<lparr>l_redir := status, l_addr_redir := l_addr_redir l @ addr # addrs\<rparr>, s1)))"
    using adv ne assms st by (auto simp: redir_ok_def split: list.split prod.split)
qed

section \<open>What the blocks give\<close>

text \<open>A location as it is being configured, and when its block is complete.\<close>

definition location_open :: "Location \<Rightarrow> bool" where
  "location_open l \<longleftrightarrow>
     (l_root l = [] \<or> slash_end (l_root l)) \<and> mask_ok (l_methods l) \<and>
     (l_upload_root l = [] \<or> slash_end (l_upload_root l)) \<and> redir_ok (l_redir l) (l_addr_redir l)"

definition location_ok :: "Location \<Rightarrow> bool" where
  "location_ok l \<longleftrightarrow> location_open l \<and> slash_end (l_root l)"

definition cgi_open :: "CGIConfig \<Rightarrow> bool" where
  "cgi_open c \<longleftrightarrow> (c_root c = [] \<or> slash_end (c_root c)) \<and> mask_ok (c_methods c)"

definition cgi_ok :: "CGIConfig \<Rightarrow> bool" where
  "cgi_ok c \<longleftrightarrow> slash_end (c_root c) \<and> mask_ok (c_methods c) \<and> c_extension c \<noteq> []"

lemma handleLocationToken_gives:
  assumes "location_open l"
  shows "gives (\<lambda>(l', s'). advances s s' \<and> location_open l') (handleLocationToken s token l)"
  unfolding handleLocationToken_def
  using assms parseRedirection_gives [of l s]
  by (intro gives_if gives_bind [OF parsePath_gives] gives_bind [OF parseAllowedMethods_gives]
        gives_bind [OF parseBoolean_gives] gives_bind [OF parseUri_gives])
    (auto simp: location_open_def gives_def yields_def split: sum.splits)

lemma handleCGIConfigToken_gives:
  assumes "cgi_open c"
  shows "gives (\<lambda>(c', s'). advances s s' \<and> cgi_open c') (handleCGIConfigToken s token c)"
  unfolding handleCGIConfigToken_def
  using assms
  by (intro gives_if gives_bind [OF parsePath_gives] gives_bind [OF parseAllowedMethods_gives]
        gives_bind [OF parseExtension_gives])
    (auto simp: cgi_open_def)

lemma open_new: "location_open new_Location" "cgi_open new_CGIConfig"
  by (simp_all add: location_open_def new_Location_def mask_ok_def redir_ok_def cgi_open_def new_CGIConfig_def)

section \<open>Blocks end, and keep what their directives keep\<close>

lemma parseBlock_returns:
  assumes "\<And>s t x. I x \<Longrightarrow> gives (\<lambda>(x', s'). advances s s' \<and> I x') (h s t x)" and "I x"
  shows "\<exists>res. parseBlock (simple h) s x cf = Some (res, cf) \<and> gives (\<lambda>(x', s'). I x') res"
  using assms(2)
proof (induction "left s" arbitrary: s x rule: less_induct)
  case less
  obtain r token s1 where w: "getNextWord s [] = (r, token, s1)" by (cases "getNextWord s []")
  show ?case
  proof (cases "r = Inr 0 \<and> (\<exists>x' s'. h s1 token x = Inr (x', s') \<and> fst (checkSemiColon s'))")
    case True
    then obtain x' s2 s3 where h: "r = Inr 0" "h s1 token x = Inr (x', s2)"
      and semi: "checkSemiColon s2 = (True, s3)" by (metis prod.collapse)
    have x': "advances s1 s2" "I x'" using givesD [OF assms(1) [OF less.prems] h(2)] by auto
    then have "left s2 \<le> left s"
      using left_advances [OF getNextWord_advances [OF w]] left_advances by (metis order_trans)
    with checkSemiColon_left [OF semi] have "left s3 < left s" by simp
    from less.hyps [OF this x'(2)] show ?thesis
      using w h semi by (subst parseBlock.simps) (simp add: simple_def)
  next
    case False
    then show ?thesis
      using w less.prems assms(1)
      by (subst parseBlock.simps) (auto simp: simple_def split: sum.split prod.split)
  qed
qed

lemma parseBlock_keeps:
  assumes "parseBlock handler s x cf = Some r" and "I x" and "J cf"
    and handler: "\<And>s t x cf res cf'. I x \<Longrightarrow> J cf \<Longrightarrow> handler s t x cf = Some (res, cf') \<Longrightarrow>
      J cf' \<and> gives (\<lambda>(x', s'). I x') res"
  shows "J (snd r) \<and> gives (\<lambda>(x', s'). I x') (fst r)"
proof -
  have "h = handler \<longrightarrow> I x \<longrightarrow> J cf \<longrightarrow> J (snd r) \<and> gives (\<lambda>(x', s'). I x') (fst r)"
    if "parseBlock h s x cf = Some r" for h
  proof (rule parseBlock.raw_induct [where P = "\<lambda>h s x cf r. h = handler \<longrightarrow> I x \<longrightarrow> J cf \<longrightarrow>
        J (snd r) \<and> gives (\<lambda>(x', s'). I x') (fst r)", OF _ that], intro impI)
    fix f h s x cf r
    assume IH: "\<And>h s x cf r. f h s x cf = Some r \<Longrightarrow> h = handler \<longrightarrow> I x \<longrightarrow> J cf \<longrightarrow>
        J (snd r) \<and> gives (\<lambda>(x', s'). I x') (fst r)"
      and h: "h = handler" and start: "I x" "J cf"
      and round: "(case getNextWord s [] of (r, token, s1) \<Rightarrow>
        (case r of
           Inl e \<Rightarrow> Some (Inl e, cf)
         | Inr ret \<Rightarrow>
             if ret = 0 then
               Option.bind (h s1 token x cf) (\<lambda>(res, cf1).
                 case res of
                   Inl e \<Rightarrow> Some (Inl e, cf1)
                 | Inr (obj1, s2) \<Rightarrow>
                     (case checkSemiColon s2 of (found, s3) \<Rightarrow>
                        if found then f h s3 obj1 cf1
                        else Some (Inl MissingSemicolon, cf1)))
             else if ret = -1 then Some (Inr (x, s1), cf)
             else Some (Inl (UnexpectedToken token), cf))) = Some r"
    show "J (snd r) \<and> gives (\<lambda>(x', s'). I x') (fst r)"
    proof (cases "getNextWord s []")
      case (fields w token s1)
      show ?thesis
      proof (cases "w = Inr 0")
        case True
        with round fields h obtain res cf1 where step: "handler s1 token x cf = Some (res, cf1)"
          by (auto simp: bind_eq_Some_conv)
        note ok = handler [OF start step]
        show ?thesis
        proof (cases res)
          case (Inr p)
          obtain x1 s2 where p: "p = (x1, s2)" by (cases p)
          obtain found s3 where semi: "checkSemiColon s2 = (found, s3)" by (cases "checkSemiColon s2")
          show ?thesis
            using round True fields h step Inr p semi ok IH [of handler s3 x1 cf1 r]
            by (cases found) auto
        qed (use round True fields h step ok in auto)
      next
        case False
        with round fields h start show ?thesis by (auto split: sum.splits if_splits)
      qed
    qed
  qed
  then show ?thesis using assms(1-3) by blast
qed

section \<open>The location and CGI blocks end\<close>

lemma named_block_returns:
  assumes "\<And>s t x. I x \<Longrightarrow> gives (\<lambda>(x', s'). advances s s' \<and> I x') (handler s t x)" and "I new"
  shows "\<exists>r. named_block handler new add s h cf = Some r"
proof (cases "read_values s []")
  case (Inr p)
  obtain names s1 where p: "p = (names, s1)" by (cases p)
  obtain r lb s2 where g: "getNextBlock s1 (cf_lineBuffer cf) = (r, lb, s2)"
    by (cases "getNextBlock s1 (cf_lineBuffer cf)")
  show ?thesis
  proof (cases r)
    case (Inr block)
    obtain res where "parseBlock (simple handler) (stream_of block) new (cf\<lparr>cf_lineBuffer := lb\<rparr>) =
        Some (res, cf\<lparr>cf_lineBuffer := lb\<rparr>)"
      using parseBlock_returns [of I handler new "stream_of block" "cf\<lparr>cf_lineBuffer := lb\<rparr>"] assms by blast
    with Inr g p \<open>read_values s [] = Inr p\<close> show ?thesis by (simp add: named_block_def Let_def)
  qed (use g p Inr in \<open>simp add: named_block_def\<close>)
qed (simp add: named_block_def)

text \<open>
  C14. The parser gets through every location and CGI block, whatever is in it: it returns
  the block's host and stream, or an exception.
\<close>

theorem location_and_cgi_blocks_end:
  "(\<exists>r. parseLocation s h cf = Some r) \<and> (\<exists>r. parseCGIConfig s h cf = Some r)"
  unfolding parseLocation_def parseCGIConfig_def
  by (intro conjI named_block_returns [of location_open] named_block_returns [of cgi_open])
    (rule handleLocationToken_gives handleCGIConfigToken_gives open_new; assumption?)+

end
