(* ===== verification/Config_File.thy ===== *)
theory Config_File
  imports Config_Blocks Pointers
begin

text \<open>
  What a configuration file leaves behind (\<open>conf_ok\<close>, \<open>host_ok\<close>).
\<close>

section \<open>Hosts\<close>

lemma values_set: "snd ` set (map_set lt k v m) \<subseteq> insert v (snd ` set m)"
proof (induction m)
  case (Cons p m)
  then show ?case by (cases p) (auto split: if_splits)
qed simp

lemma values_fold_set:
  "snd ` set (fold (\<lambda>n m. map_set lt n v m) names m) \<subseteq> insert v (snd ` set m)"
proof (induction names arbitrary: m)
  case (Cons n names)
  have sub: "A \<subseteq> insert v B \<Longrightarrow> B \<subseteq> insert v C \<Longrightarrow> A \<subseteq> insert v C" for A B C :: "'a set" by blast
  show ?case using sub [OF Cons [of "map_set lt n v m"] values_set [of lt n v m]] by simp
qed auto

lemma all_fold_set:
  assumes "P v" and "\<forall>x \<in> snd ` set m. P x"
  shows "\<forall>x \<in> snd ` set (fold (\<lambda>n m. map_set lt n v m) names m). P x"
proof
  fix x
  assume "x \<in> snd ` set (fold (\<lambda>n m. map_set lt n v m) names m)"
  then have "x \<in> insert v (snd ` set m)" by (rule subsetD [OF values_fold_set])
  then show "P x" using assms by blast
qed

text \<open>
  A host as it is being configured, and one that \<open>checkHost\<close> lets through; the second is
  what the request handling relies on.
\<close>

definition blocks_ok :: "Host \<Rightarrow> bool" where
  "blocks_ok h \<longleftrightarrow>
     (\<forall>l \<in> snd ` set (ho_locationMap h). location_ok l) \<and> (\<forall>c \<in> snd ` set (ho_cgiMap h). cgi_ok c) \<and>
     [] \<notin> set (ho_server_names h) \<and> in_i32 (ho_body_max_size h)"

definition host_ok :: "Host \<Rightarrow> bool" where
  "host_ok h \<longleftrightarrow> blocks_ok h \<and> ho_addr h \<noteq> [] \<and> ho_ports h \<noteq> [] \<and> ho_server_names h \<noteq> [] \<and>
     getLocation h ''*'' \<noteq> None"

text \<open>While the configuration is read there is no client yet.\<close>

definition host_open :: "Host \<Rightarrow> bool" where
  "host_open h \<longleftrightarrow> blocks_ok h \<and> ho_clients h = []"

definition idle :: "world \<Rightarrow> bool" where
  "idle w \<longleftrightarrow> w_links w = [] \<and>
     (\<forall>ls \<in> snd ` set (w_servers w). ls_connectedClients ls = [] \<and> ls_orphanClients ls = [])"

lemma idle_hosts [simp]: "idle (w\<lparr>w_hosts := hs\<rparr>) = idle w" "idle (w\<lparr>w_next := n\<rparr>) = idle w"
  by (simp_all add: idle_def)

definition conf_ok :: "conf \<Rightarrow> bool" where
  "conf_ok cf \<longleftrightarrow>
     (\<forall>l \<in> set (cf_locations cf). location_ok l) \<and> (\<forall>c \<in> set (cf_cgis cf). cgi_ok c) \<and>
     (\<forall>i h. host_at (cf_world cf) i = Some h \<longrightarrow> host_ok h \<and> ho_clients h = []) \<and>
     idle (cf_world cf) \<and> pointers_ok (cf_world cf) \<and> fresh (cf_world cf)"

lemma conf_ok_simps [simp]:
  "conf_ok (cf\<lparr>cf_lineBuffer := b\<rparr>) = conf_ok cf" "conf_ok (cf\<lparr>cf_error := e\<rparr>) = conf_ok cf"
  "conf_ok (cf\<lparr>cf_default_error_pages := p\<rparr>) = conf_ok cf"
  by (simp_all add: conf_ok_def)

lemma add_location_gives:
  assumes "location_open l" and "conf_ok cf" and "host_open h"
  shows "gives (\<lambda>(cf', h'). conf_ok cf' \<and> host_open h') (add_location names l cf h)"
proof (cases "l_root l = []")
  case False
  then have l: "location_ok l" using assms(1) by (simp add: location_ok_def location_open_def)
  obtain l' pool' where i: "intern Location_eq l (cf_locations cf) = (l', pool')"
    by (cases "intern Location_eq l (cf_locations cf)")
  note i' = intern_eq [OF Location_eq_iff i]
  with l have "location_ok l'" by simp
  with assms(3) have "\<forall>x \<in> snd ` set (fold (\<lambda>n m. map_set str_less n l' m) names (ho_locationMap h)).
      location_ok x"
    by (intro all_fold_set) (simp_all add: host_open_def blocks_ok_def)
  with i' l assms(2,3) False show ?thesis
    by (simp add: add_location_def checkLocation_def addLocation_def i conf_ok_def host_open_def blocks_ok_def)
qed (simp add: add_location_def checkLocation_def)

lemma add_cgi_gives:
  assumes "cgi_open c" and "conf_ok cf" and "host_open h"
  shows "gives (\<lambda>(cf', h'). conf_ok cf' \<and> host_open h') (add_cgi names c cf h)"
proof (cases "checkCGIConfig c")
  case None
  then have c: "cgi_ok c" using assms(1) by (auto simp: cgi_ok_def cgi_open_def checkCGIConfig_def split: if_splits)
  obtain c' pool' where i: "intern CGIConfig_eq c (cf_cgis cf) = (c', pool')"
    by (cases "intern CGIConfig_eq c (cf_cgis cf)")
  note i' = intern_eq [OF CGIConfig_eq_iff i]
  with c have "cgi_ok c'" by simp
  with assms(3) have "\<forall>x \<in> snd ` set (fold (\<lambda>n m. map_set str_less n c' m) names (ho_cgiMap h)). cgi_ok x"
    by (intro all_fold_set) (simp_all add: host_open_def blocks_ok_def)
  with i' c assms(2,3) None show ?thesis
    by (simp add: add_cgi_def addCGIConfig_def i conf_ok_def host_open_def blocks_ok_def)
qed (simp add: add_cgi_def)

lemma named_block_keeps:
  assumes "named_block handler new add s h cf = Some (res, cf')" and "conf_ok cf" and "host_open h"
    and "\<And>s t x. I x \<Longrightarrow> gives (\<lambda>(x', s'). advances s s' \<and> I x') (handler s t x)" and "I new"
    and add: "\<And>names x cf. I x \<Longrightarrow> conf_ok cf \<Longrightarrow>
      gives (\<lambda>(cf', h'). conf_ok cf' \<and> host_open h') (add names x cf h)"
  shows "conf_ok cf' \<and> gives (\<lambda>(h', s'). host_open h') res"
proof (cases "read_values s []")
  case (Inr p)
  obtain names s1 where p: "p = (names, s1)" by (cases p)
  obtain r lb s2 where g: "getNextBlock s1 (cf_lineBuffer cf) = (r, lb, s2)"
    by (cases "getNextBlock s1 (cf_lineBuffer cf)")
  let ?cf = "cf\<lparr>cf_lineBuffer := lb\<rparr>"
  have catch: "conf_ok (snd (catch_in_block e h s2 ?cf)) \<and>
      gives (\<lambda>(h', s'). host_open h') (fst (catch_in_block e h s2 ?cf))" for e
    using assms(2,3) by (cases e) (simp_all add: catch_in_block_def)
  show ?thesis
  proof (cases r)
    case (Inr block)
    obtain q where q: "parseBlock (simple handler) (stream_of block) new ?cf = Some (q, ?cf)"
      and I: "gives (\<lambda>(x', s'). I x') q"
      using parseBlock_returns [of I handler new "stream_of block" ?cf] assms(4,5) by blast
    show ?thesis
    proof (cases q)
      case (Inl e)
      then show ?thesis
        using assms(1) \<open>read_values s [] = Inr p\<close> p g Inr q catch [of e]
        by (simp add: named_block_def Let_def)
    next
      case (Inr o1)
      obtain x s3 where o1: "o1 = (x, s3)" by (cases o1)
      have "gives (\<lambda>(cf', h'). conf_ok cf' \<and> host_open h') (add names x ?cf h)"
        using I assms(2) by (intro add) (simp_all add: Inr o1)
      then show ?thesis
        using assms(1) \<open>read_values s [] = Inr p\<close> p g \<open>r = Inr block\<close> q Inr o1 catch
        by (cases "add names x ?cf h") (auto simp: named_block_def Let_def, (metis fst_conv snd_conv)+)
    qed
  next
    case (Inl e)
    with assms(1,2) g p \<open>read_values s [] = Inr p\<close> show ?thesis
      by (auto simp: named_block_def Let_def)
  qed
next
  case (Inl e)
  with assms(1,2) show ?thesis by (auto simp: named_block_def)
qed

lemma parseLocation_keeps:
  "parseLocation s h cf = Some (res, cf') \<Longrightarrow> conf_ok cf \<Longrightarrow> host_open h \<Longrightarrow>
   conf_ok cf' \<and> gives (\<lambda>(h', s'). host_open h') res"
  unfolding parseLocation_def
  by (rule named_block_keeps [of handleLocationToken new_Location add_location _ _ _ _ _ location_open])
    (auto intro: handleLocationToken_gives add_location_gives open_new)

lemma parseCGIConfig_keeps:
  "parseCGIConfig s h cf = Some (res, cf') \<Longrightarrow> conf_ok cf \<Longrightarrow> host_open h \<Longrightarrow>
   conf_ok cf' \<and> gives (\<lambda>(h', s'). host_open h') res"
  unfolding parseCGIConfig_def
  by (rule named_block_keeps [of handleCGIConfigToken new_CGIConfig add_cgi _ _ _ _ _ cgi_open])
    (auto intro: handleCGIConfigToken_gives add_cgi_gives open_new)

lemma getInt_in_i32: "getInt str b r = (0, v) \<Longrightarrow> in_i32 v"
  by (auto simp: getInt_def Let_def split: if_splits prod.splits)

lemma handleHostToken_keeps:
  assumes "host_open h" and "conf_ok cf" and "handleHostToken s token h cf = Some (res, cf')"
  shows "conf_ok cf' \<and> gives (\<lambda>(h', s'). host_open h') res"
proof -
  have "gives (\<lambda>(h', s'). host_open h') (parsePorts s h)"
    unfolding parsePorts_def
    by (rule gives_bind [OF read_values_gives])
      (use assms(1) in \<open>auto simp: host_open_def blocks_ok_def intro!: gives_bind [OF gives_any]\<close>)
  moreover have "gives (\<lambda>(h', s'). host_open h') (parseHostName s h)"
    unfolding parseHostName_def
    by (rule gives_bind [OF need_word_gives]) (use assms(1) in \<open>auto simp: host_open_def blocks_ok_def\<close>)
  moreover have "gives (\<lambda>(h', s'). host_open h') (parseServerName s h)"
    unfolding parseServerName_def
    by (rule gives_bind [OF read_values_gives]) (use assms(1) in \<open>auto simp: host_open_def blocks_ok_def\<close>)
  moreover have "gives (\<lambda>(h', s'). host_open h')
      (and_then (parsePath s (ho_dir_errors h) None None) (\<lambda>(p, s1). Inr (h\<lparr>ho_dir_errors := p\<rparr>, s1)))"
    by (rule gives_bind [OF parsePath_gives]) (use assms(1) in \<open>auto simp: host_open_def blocks_ok_def\<close>)
  moreover have "gives (\<lambda>(h', s'). host_open h') (parseBodyMaxSize s h)"
    unfolding parseBodyMaxSize_def
    by (rule gives_bind [OF need_word_gives])
      (use assms(1) in \<open>auto simp: host_open_def blocks_ok_def split: prod.split dest: getInt_in_i32\<close>)
  ultimately show ?thesis
    using assms parseLocation_keeps parseCGIConfig_keeps
    by (auto simp: handleHostToken_def Let_def split: if_splits)
qed

text \<open>Registering a host changes only which servers the hosts point to.\<close>

definition same_hosts :: "world \<Rightarrow> world \<Rightarrow> bool" where
  "same_hosts w w' \<longleftrightarrow>
     (\<forall>i h'. host_at w' i = Some h' \<longrightarrow>
        (\<exists>h ss. host_at w i = Some h \<and> h' = h\<lparr>ho_listenServers := ss\<rparr>))"

lemma same_hosts_trans: "same_hosts w1 w2 \<Longrightarrow> same_hosts w2 w3 \<Longrightarrow> same_hosts w1 w3"
  unfolding same_hosts_def by fastforce

lemma same_hosts_upd: "same_hosts w (upd_host i (addListenServer s) w)"
  by (auto simp: same_hosts_def addListenServer_def split: if_splits)
    (metis Host.surjective Host.update_convs(9) old.unit.exhaust)

lemma registerHost_port_same: "registerHost_port sock i h p w = (r, w') \<Longrightarrow> same_hosts w w'"
proof -
  have add: "same_hosts w w2" if "w_hosts w1 = w_hosts w" and "w_hosts w2 = w_hosts (upd_host i (addListenServer s) w1)"
    for w1 w2 s
    using same_hosts_upd [of w i s] that by (simp add: same_hosts_def)
  have "w_hosts w1 = w_hosts w" if "addServer sock a b w = (q, w1)" for a b q w1
    using that by (auto simp: addServer_def split: option.splits)
  then show "registerHost_port sock i h p w = (r, w') \<Longrightarrow> same_hosts w w'"
    by (auto simp: registerHost_port_def split: option.splits prod.splits intro: add)
      (simp add: same_hosts_def, metis Host.surjective Host.update_convs(9) old.unit.exhaust)
qed

lemma registerHost_ports_same: "registerHost_ports sock i h ps w = (r, w') \<Longrightarrow> same_hosts w w'"
proof (induction ps arbitrary: w r)
  case Nil
  then show ?case
    by (simp add: same_hosts_def) (metis Host.surjective Host.update_convs(9) old.unit.exhaust)
next
  case (Cons p ps)
  then show ?case
    by (auto split: prod.splits intro: same_hosts_trans registerHost_port_same)
qed

lemma registerHost_port_idle: "registerHost_port sock i h p w = (r, w') \<Longrightarrow> idle w \<Longrightarrow> idle w'"
  by (fastforce simp: registerHost_port_def addServer_def idle_def assignHost_def new_ListenServer_def upd_assoc_def
      split: option.splits if_splits)

lemma registerHost_ports_idle: "registerHost_ports sock i h ps w = (r, w') \<Longrightarrow> idle w \<Longrightarrow> idle w'"
  by (induction ps arbitrary: w r) (auto split: prod.splits dest: registerHost_port_idle)

lemma host_ok_servers [simp]:
  "host_ok (h\<lparr>ho_listenServers := ss\<rparr>) = host_ok h" "host_ok (h\<lparr>ho_clients := cs\<rparr>) = host_ok h"
  by (simp_all add: host_ok_def blocks_ok_def getLocation_def)

lemma add_host_keeps:
  assumes "add_host sock h cf = (r, cf')" and "host_open h" and "conf_ok cf"
  shows "conf_ok cf'"
proof (cases "checkHost cf h")
  case (Inl e)
  with assms show ?thesis by (simp add: add_host_def)
next
  case (Inr h1)
  then have h1: "host_ok h1 \<and> ho_clients h1 = []"
    using assms(2) by (auto simp: checkHost_def Let_def host_ok_def host_open_def blocks_ok_def getLocation_def split: if_splits)
  let ?w = "cf_world cf"
  let ?w1 = "?w\<lparr>w_hosts := w_hosts ?w @ [(w_next ?w, h1)], w_next := w_next ?w + 1\<rparr>"
  obtain q w' where reg: "registerHost sock (w_next ?w) h1 ?w1 = (q, w')"
    by (cases "registerHost sock (w_next ?w) h1 ?w1")
  have "idle w'"
    using registerHost_ports_idle [of sock "w_next ?w" h1 "ho_ports h1" ?w1] reg assms(3)
    by (simp add: registerHost_def conf_ok_def)
  moreover have "same_hosts ?w1 w'" using reg registerHost_ports_same by (simp add: registerHost_def)
  moreover have "host_at ?w1 i = Some g \<Longrightarrow> host_ok g \<and> ho_clients g = []" for i g
    using assms(3) h1 by (auto simp: conf_ok_def map_add_def split: if_splits option.splits)
  ultimately have "idle w'" "host_at w' i = Some g \<Longrightarrow> host_ok g \<and> ho_clients g = []" for i g
    unfolding same_hosts_def by fastforce+
  moreover have "pointers_ok w' \<and> fresh w'"
    using addHost_pointers [of sock h1 ?w q w'] reg assms(3) by (simp add: addHost_def conf_ok_def)
  moreover have "cf' = cf\<lparr>cf_world := w'\<rparr>"
    using assms(1) reg Inr by (simp add: add_host_def addHost_def)
  ultimately show ?thesis using assms(3) by (simp add: conf_ok_def)
qed

section \<open>What a configuration file leaves\<close>

lemma catch_in_host_keeps:
  assumes "conf_ok (snd rc)"
  shows "conf_ok (snd (catch_in_host s rc))"
proof -
  obtain r cf where rc: "rc = (r, cf)" by (cases rc)
  show ?thesis
  proof (cases r)
    case (Inl e)
    with rc assms show ?thesis by (cases e) (simp_all add: catch_in_host_def)
  qed (use rc assms in \<open>simp add: catch_in_host_def\<close>)
qed

lemma new_Host_open: "host_open new_Host"
  by (simp add: host_open_def blocks_ok_def new_Host_def in_i32_def)

lemma parseHost_keeps:
  assumes "parseHost sock s cf = Some (res, cf')" and "conf_ok cf"
  shows "conf_ok cf'"
proof -
  obtain r lb s1 where g: "getNextBlock s (cf_lineBuffer cf) = (r, lb, s1)"
    by (cases "getNextBlock s (cf_lineBuffer cf)")
  let ?cf = "cf\<lparr>cf_lineBuffer := lb\<rparr>"
  show ?thesis
  proof (cases r)
    case (Inl e)
    with assms g show ?thesis by (auto simp: parseHost_def)
  next
    case (Inr block)
    with assms(1) g obtain q cf2 where q: "parseBlock handleHostToken (stream_of block) new_Host ?cf = Some (q, cf2)"
      by (auto simp: parseHost_def Let_def bind_eq_Some_conv)
    have "conf_ok (snd (q, cf2)) \<and> gives (\<lambda>(h, s'). host_open h) (fst (q, cf2))"
      by (rule parseBlock_keeps [OF q]) (use assms(2) handleHostToken_keeps in \<open>blast | simp add: new_Host_open\<close>)+
    then have ok: "conf_ok cf2" "gives (\<lambda>(h, s'). host_open h) q" by simp_all
    have "conf_ok (snd (add_host sock h cf2))" if "host_open h" for h
      using add_host_keeps [OF prod.collapse [symmetric] that ok(1)] .
    with ok have "conf_ok (snd (case q of Inl e \<Rightarrow> (Inl e, cf2) | Inr (h, _) \<Rightarrow> add_host sock h cf2))"
      by (auto split: sum.split prod.split)
    from catch_in_host_keeps [OF this, of s1] assms(1) g Inr q show ?thesis
      by (auto simp: parseHost_def Let_def)
  qed
qed

lemma handleConfigToken_keeps:
  "handleConfigToken sock s token cf = Some (res, cf') \<Longrightarrow> conf_ok cf \<Longrightarrow> conf_ok cf'"
  by (auto simp: handleConfigToken_def split: if_splits prod.splits dest: parseHost_keeps)

lemma config_loop_keeps:
  assumes "config_loop sock s cf = Some r" and "conf_ok cf"
  shows "conf_ok (snd r)"
proof -
  have "conf_ok cf \<longrightarrow> conf_ok (snd r)"
  proof (rule config_loop.raw_induct [where P = "\<lambda>sock s cf r. conf_ok cf \<longrightarrow> conf_ok (snd r)", OF _ assms(1)],
      intro impI)
    fix f sock s cf r
    assume IH: "\<And>sock s cf r. f sock s cf = Some r \<Longrightarrow> conf_ok cf \<longrightarrow> conf_ok (snd r)"
      and start: "conf_ok cf"
      and round: "(case getNextWord s [] of (r, token, s1) \<Rightarrow>
        (case r of
           Inl e \<Rightarrow> Some (Inl e, cf)
         | Inr ret \<Rightarrow>
             if ret = 0 then
               Option.bind (handleConfigToken sock s1 token cf) (\<lambda>(res, cf1).
                 case res of
                   Inl e \<Rightarrow> Some (Inl e, cf1)
                 | Inr s2 \<Rightarrow>
                     (case checkSemiColon s2 of (found, s3) \<Rightarrow>
                        if found then f sock s3 cf1
                        else Some (Inl MissingSemicolon, cf1)))
             else if ret = -1 then Some (Inr (), cf)
             else Some (Inl (UnexpectedToken token), cf))) = Some r"
    show "conf_ok (snd r)"
    proof (cases "getNextWord s []")
      case (fields w token s1)
      show ?thesis
      proof (cases "w = Inr 0")
        case True
        with round fields obtain res cf1 where step: "handleConfigToken sock s1 token cf = Some (res, cf1)"
          by (auto simp: bind_eq_Some_conv)
        note ok = handleConfigToken_keeps [OF step start]
        show ?thesis
        proof (cases res)
          case (Inr s2)
          obtain found s3 where semi: "checkSemiColon s2 = (found, s3)" by (cases "checkSemiColon s2")
          show ?thesis
            using round True fields step Inr semi ok IH [of sock s3 cf1 r] by (cases found) auto
        qed (use round True fields step ok in auto)
      next
        case False
        with round fields start show ?thesis by (auto split: sum.splits if_splits)
      qed
    qed
  qed
  with assms(2) show ?thesis by simp
qed

lemma parseConfigFile_keeps:
  assumes "parseConfigFile sys sock path cf = Some (res, cf')" and "conf_ok cf"
  shows "conf_ok cf'"
proof (cases "openFile sys path")
  case None
  with assms show ?thesis by (simp add: parseConfigFile_def)
next
  case (Some s)
  with assms(1) obtain q cf1 where q: "config_loop sock s cf = Some (q, cf1)"
    by (auto simp: parseConfigFile_def bind_eq_Some_conv)
  have "cf' = cf1"
  proof (cases q)
    case (Inl e)
    with assms(1) Some q show ?thesis by (cases e) (simp_all add: parseConfigFile_def)
  qed (use assms(1) Some q in \<open>simp add: parseConfigFile_def\<close>)
  with config_loop_keeps [OF q assms(2)] show ?thesis by simp
qed

lemma parse_conf_ok:
  assumes "parseConfigFile sys sock path empty_conf = Some (res, cf)"
  shows "conf_ok cf"
proof -
  have empty: "conf_ok empty_conf" 
    by (simp add: conf_ok_def idle_def empty_conf_def empty_world_def pointers_ok_def hosts_live_def links_live_def fresh_def)
  show ?thesis by (rule parseConfigFile_keeps [OF assms empty])
qed

text \<open>
  C9. Whatever the configuration file holds, errors included, every host the parser leaves
  behind is complete: it has an address, a port, a name and a default location, every
  location and CGI root is a directory path that ends in a slash, every set of methods is one, and every
  redirection has one of the six statuses and an address.
\<close>

theorem configured_hosts_complete:
  assumes "parseConfigFile sys sock path empty_conf = Some (res, cf)"
    and "host_at (cf_world cf) i = Some h"
  shows "host_ok h"
  using parse_conf_ok [OF assms(1)] assms(2) by (auto simp: conf_ok_def)

section \<open>A small file\<close>

definition one_file :: "string \<Rightarrow> system" where
  "one_file text =
     \<lparr> sys_stat = (\<lambda>p. if p = ''conf'' then Some Regular else None), sys_access = (\<lambda>p m. True),
       sys_read = (\<lambda>p. if p = ''conf'' then Some text else None), sys_list = (\<lambda>p. None),
       sys_create = (\<lambda>p. False), sys_stack = [], sys_now = 0 \<rparr>"

definition one_sock :: "string \<Rightarrow> string \<Rightarrow> int option" where
  "one_sock a p = Some 3"

definition small_config :: string where
  "small_config = ''default_error_pages e;server {listen 80;host h;server_name a;location * {root w;methods GET;};};''"

theorem configured_hosts_complete_witness:
  "\<exists>res cf' h. parseConfigFile (one_file small_config) one_sock (Some ''conf'') empty_conf = Some (res, cf') \<and>
     host_at (cf_world cf') 0 = Some h \<and> host_ok h"
proof -
  have "case parseConfigFile (one_file small_config) one_sock (Some ''conf'') empty_conf of
      None \<Rightarrow> False | Some (r, cf) \<Rightarrow> host_at (cf_world cf) 0 \<noteq> None"
    by code_simp
  then obtain res cf' h
    where run: "parseConfigFile (one_file small_config) one_sock (Some ''conf'') empty_conf = Some (res, cf')"
      and h: "host_at (cf_world cf') 0 = Some h"
    by (auto split: option.splits)
  with run h show ?thesis using configured_hosts_complete [OF run] by blast
qed

end
