(* ===== verification/Configured.thy ===== *)
theory Configured
  imports Request_Maps Config_File
begin

text \<open>
  The configuration parser and the request handling together: on a host the parser let
  through (\<open>host_ok\<close>), every redirection has addresses, so every answer can be generated.
\<close>

section \<open>Redirections of configured hosts\<close>

text \<open>What every step of \<open>checkRequest\<close> on a configured host keeps.\<close>

definition redirects_well :: "Host \<Rightarrow> int \<times> Request \<Rightarrow> bool" where
  "redirects_well h r \<longleftrightarrow> rules_of h (snd r) \<and> (fst r div 100 = 3 \<longrightarrow> usable_redirection (snd r))"

lemma redirects_well_same:
  "redirects_well h (0, r1) \<Longrightarrow> same_rules r1 r2 \<Longrightarrow> res div 100 \<noteq> 3 \<Longrightarrow> redirects_well h (res, r2)"
  using same_rules_cong [of r1 r2 h] by (simp add: redirects_well_def)

lemma redirection_well:
  assumes "checkRedirection r1 = Inr (res, r2)" and "blocks_ok h" and "redirects_well h (0, r1)"
  shows "redirects_well h (res, r2)"
proof -
  obtain l where l: "locationRules r1 = Some l"
    using assms(1) by (cases "locationRules r1") (auto simp: checkRedirection_def)
  with assms(2,3) have "redir_ok (l_redir l) (l_addr_redir l)"
    by (auto simp: redirects_well_def rules_of_def blocks_ok_def location_ok_def location_open_def)
  then have "res div 100 = 3 \<longrightarrow> usable_redirection r2"
    using assms(1) l
    by (auto simp: checkRedirection_def usable_redirection_def redir_ok_def Let_def split: if_splits)
  with assms(3) checkRedirection_result [OF assms(1)] show ?thesis
    using same_rules_cong [of r1 r2 h] by (simp add: redirects_well_def)
qed

lemma dir_well:
  assumes "checkDirRessource h r1 = Inr (res, r2)" and "redirects_well h (0, r1)"
  shows "redirects_well h (res, r2)"
proof -
  obtain l where l: "locationRules r1 = Some l"
    using assms(1) by (cases "locationRules r1") (auto simp: checkDirRessource_def)
  have "rules_of h r2"
  proof (cases "l_default_uri l = []")
    case True
    with assms(1) l have "same_rules r1 r2"
      by (auto simp: checkDirRessource_def same_rules_def split: if_splits)
    with assms(2) same_rules_cong [of r1 r2 h] show ?thesis by (simp add: redirects_well_def)
  next
    case False
    with assms(1) l show ?thesis
      by (auto simp: checkDirRessource_def and_then_eq_Inr dest: matchRequest_result)
  qed
  with checkDirRessource_maps [OF assms(1)] show ?thesis by (simp add: redirects_well_def)
qed

lemma step_well:
  assumes "step_if c f r = Inr r'" and "redirects_well h r"
    and "\<And>res r2. f (snd r) = Inr (res, r2) \<Longrightarrow> redirects_well h (0, snd r) \<Longrightarrow> redirects_well h (res, r2)"
  shows "redirects_well h r'"
  using assms by (cases r; cases r') (auto simp: step_if_def split: if_splits)

lemma checkRequest_well:
  assumes "checkRequest sys h rq = Inr r" and "blocks_ok h"
  shows "redirects_well h r"
proof -
  from assms(1) obtain r1 r2 r3 r4 r5 where s: "matchRequest h rq = Inr r1"
    "step_if (locationRules (snd r1) \<noteq> None) checkRedirection r1 = Inr r2"
    "step_if (r_type (snd r2) = REQ_TYPE_DIR) (checkDirRessource h) r2 = Inr r3"
    "step_if (locationRules (snd r3) \<noteq> None) checkLocationRules r3 = Inr r4"
    "step_if (r_type (snd r4) = REQ_TYPE_CGI) checkCGIRules r4 = Inr r5"
    "step_if True (checkRessourceExistence sys) r5 = Inr r"
    by (rule checkRequest_steps)
  have "redirects_well h r1"
    using matchRequest_maps [of h rq "fst r1" "snd r1"] matchRequest_result [of h rq "fst r1" "snd r1"] s(1)
    by (simp add: redirects_well_def)
  from step_well [OF s(2) this redirection_well [OF _ assms(2)]] have r2: "redirects_well h r2" .
  from step_well [OF s(3) this dir_well] have r3: "redirects_well h r3" .
  have r4: "redirects_well h r4"
    by (rule step_well [OF s(4) r3])
      (use checkLocationRules_result checkLocationRules_maps redirects_well_same in blast)
  have r5: "redirects_well h r5"
    by (rule step_well [OF s(5) r4])
      (use checkCGIRules_result checkCGIRules_maps redirects_well_same in blast)
  show ?thesis
    by (rule step_well [OF s(6) r5])
      (use checkRessourceExistence_result checkRessourceExistence_maps redirects_well_same in blast)
qed

section \<open>Configured hosts answer\<close>

text \<open>
  On a host that went through the configuration parser, every request that is checked against
  the rules and not accepted is answered, redirections included.
\<close>

lemma refused_request_answered:
  assumes "getHost s = Inr (Some h)" and "host_ok h"
    and "hints_ordered (getRequest s)" and "cl_response (s_client s) = None"
    and "check_host_request sys s = Inr (res, s1)" and "res \<noteq> 0"
  shows "\<exists>s2. generateResponse sys res s1 = Inr (0, s2) \<and> cl_response (s_client s2) \<noteq> None \<and>
    cl_mode (s_client s2) = CLIENT_MODE_WRITE"
proof -
  from assms(1,5) obtain rq where rq: "checkRequest sys h (getRequest s) = Inr (res, rq)"
    and s1: "s1 = set_request rq s"
    by (auto simp: check_host_request_def on_request_def and_then_eq_Inr)
  show ?thesis
  proof (rule generateResponse_responds)
    show "getHost s1 = Inr (Some h)" using assms(1) s1 by simp
    show "cl_response (s_client s1) = None" using assms(4) s1 by simp
    show "hints_ordered (getRequest s1)"
      using checkRequest_maps [OF rq] assms(3) s1 by (simp add: same_maps_def hints_ordered_def)
    show "answered_status res (getRequest s1) div 100 = 3 \<longrightarrow> usable_redirection (getRequest s1)"
      using checkRequest_well [OF rq] assms(2,6) s1
      by (simp add: redirects_well_def answered_status_def host_ok_def)
  qed
qed

end
