(* ===== verification/Program.thy ===== *)
theory Program
  imports Server_Run Configured
begin

text \<open>
  The program as a whole: \<open>main\<close> reads the configuration, starts the servers, runs the event loop
  and closes what is left. Theorems about any run of it, which join the invariant of the
  configuration parser, that of the event loop and the totality of responses.
\<close>

section \<open>From the command line to the exit\<close>

text \<open>\<open>IControl::cleanExit\<close>: the descriptors of the log files and of \<open>epoll\<close> are left out.\<close>

definition boot :: "(int \<Rightarrow> bool) \<Rightarrow> conf \<Rightarrow> server" where
  "boot listens cf =
     \<lparr> sv_world = snd (startServers listens (cf_world cf)), sv_clients = [],
       sv_pages = cf_default_error_pages cf, sv_log = [], sv_shown = [] \<rparr>"

definition config_path :: "string list \<Rightarrow> string" where
  "config_path args = (case args of [] \<Rightarrow> ''conf/default.conf'' | a # _ \<Rightarrow> a)"

definition exit_fault :: "config_exn \<Rightarrow> fault" where
  "exit_fault e = (case e of Fault f \<Rightarrow> f | _ \<Rightarrow> OtherException)"

text \<open>
  \<open>main\<close>: None when the configuration is never finished; an exception, which ends the program
  with status 1; or the status and what is left. \<open>console\<close> tells whether the standard input
  could be registered.
\<close>

definition main_program ::
  "system \<Rightarrow> (string \<Rightarrow> string \<Rightarrow> int option) \<Rightarrow> (int \<Rightarrow> bool) \<Rightarrow> bool \<Rightarrow> string list \<Rightarrow> round list \<Rightarrow>
   (fault + int \<times> server) option" where
  "main_program sys sock listens console args rds =
     Option.bind (parseConfigFile sys sock (Some (config_path args)) empty_conf) (\<lambda>(res, cf).
       Some (case res of
               Inl e \<Rightarrow> Inl (exit_fault e)
             | Inr _ \<Rightarrow>
                 if \<not> console then
                   and_then (cleanExit (boot (\<lambda>_. True) cf)) (\<lambda>sv. Inr (1, sv))
                 else
                   and_then (main_loop sys rds (boot listens cf)) (\<lambda>sv.
                     and_then (cleanExit sv) (\<lambda>sv1. Inr (0, sv1)))))"

section \<open>A run of the configured server\<close>

lemma idle_world_ok:
  assumes "idle w" and "\<And>i h. host_at w i = Some h \<Longrightarrow> ho_clients h = []"
  shows "world_ok w"
proof -
  have "ls_connectedClients ls = [] \<and> ls_orphanClients ls = []" if "server_at w s = Some ls" for s ls
    using assms(1) map_of_SomeD [OF that] by (force simp: idle_def)
  with assms show ?thesis by (intro world_okI) (auto simp: idle_def)
qed

lemma boot_ok:
  assumes "conf_ok cf"
  shows "server_ok (cf_world cf) (boot listens cf)"
proof -
  let ?w = "snd (startServers listens (cf_world cf))"
  have "idle ?w" using assms by (auto simp: conf_ok_def idle_def startServers_def)
  then have "world_ok ?w"
    by (rule idle_world_ok) (use assms in \<open>auto simp: conf_ok_def startServers_def\<close>)
  moreover have "pointers_ok ?w" using assms by (simp add: conf_ok_def startServers_pointers)
  ultimately show ?thesis
    using assms by (simp add: server_ok_def boot_def startServers_def conf_ok_def idle_def)
qed

lemma rules_host_ok: "rules h' = rules h \<Longrightarrow> host_ok h' = host_ok h"
proof -
  have "host_ok (rules x) = host_ok x" for x by (simp add: rules_def)
  then show "rules h' = rules h \<Longrightarrow> host_ok h' = host_ok h" by metis
qed

lemma run_ok:
  assumes "parseConfigFile sys sock path empty_conf = Some (res, cf)"
    and "main_loop sys rds (boot listens cf) = Inr sv"
  shows "server_ok (cf_world cf) sv \<and> (\<forall>i h. host_at (sv_world sv) i = Some h \<longrightarrow> host_ok h)"
proof -
  note cf = parse_conf_ok [OF assms(1)]
  have ok: "server_ok (cf_world cf) sv" using givesD [OF main_loop_ok [OF boot_ok [OF cf]] assms(2)] .
  have "host_ok h" if "host_at (sv_world sv) i = Some h" for i h
  proof -
    from ok that obtain h0 where h0: "host_at (cf_world cf) i = Some h0" and r: "rules h = rules h0"
      unfolding server_ok_def keeps_rules_def by blast
    with cf have "host_ok h0" unfolding conf_ok_def by blast
    then show ?thesis unfolding rules_host_ok [OF r] .
  qed
  with ok show ?thesis by blast
qed

text \<open>
  C4. Whatever the clients and the console do, in whatever rounds of the event loop, a server that
  was started from a configuration file keeps its state well formed: every client has its own
  number, the types the operations rely on, and one link; a host or a server that lists it is
  the one it is linked to; and every host still has the rules the file gave it.
\<close>

theorem running_server_typed:
  assumes "parseConfigFile sys sock path empty_conf = Some (res, cf)"
    and "main_loop sys rds (boot listens cf) = Inr sv"
    and "client_at sv d = Some c"
  shows "client_ok c \<and> cl_id c = d \<and>
    (\<exists>host s. map_of (w_links (sv_world sv)) d = Some (host, s) \<and>
       (\<forall>i h. host_at (sv_world sv) i = Some h \<longrightarrow>
          (d \<in> set (ho_clients h) \<longrightarrow> host = Some i) \<and> host_ok h \<and>
          (\<exists>h0. host_at (cf_world cf) i = Some h0 \<and> rules h = rules h0)) \<and>
       (\<forall>t ls. server_at (sv_world sv) t = Some ls \<longrightarrow>
          d \<in> set (ls_connectedClients ls @ ls_orphanClients ls) \<longrightarrow> t = s))"
proof -
  note ok = run_ok [OF assms(1,2)]
  then have w: "world_ok (sv_world sv)" and k: "keeps_rules (cf_world cf) (sv_world sv)"
    and c: "client_ok c" "cl_id c = d"
    using assms(3) by (simp_all add: server_ok_def)
  from ok assms(3) have "map_of (w_links (sv_world sv)) d \<noteq> None" by (simp add: server_ok_def)
  then obtain host s where l: "map_of (w_links (sv_world sv)) d = Some (host, s)" by auto
  have "host_at (sv_world sv) i = Some h \<Longrightarrow> d \<in> set (ho_clients h) \<Longrightarrow> host = Some i" for i h
    using world_okD(1) [OF w, of i h d] l by auto
  moreover have "server_at (sv_world sv) t = Some ls \<Longrightarrow>
      d \<in> set (ls_connectedClients ls @ ls_orphanClients ls) \<Longrightarrow> t = s" for t ls
    using world_okD(2) [OF w, of t ls d] l by auto
  ultimately show ?thesis using c l ok k unfolding keeps_rules_def by blast
qed

lemma setHost_found:
  assumes "setHost c n w = Inr w'"
  shows "\<exists>i s h. map_of (w_links w') c = Some (Some i, s) \<and> host_at w' i = Some h"
  using assms
proof (cases rule: setHost_cases)
  case (1 host s)
  with assms have "host \<noteq> None" by (cases host) (auto simp: setHost_def and_then_eq_Inr)
  with assms 1 show ?thesis by (auto simp: setHost_def and_then_eq_Inr deref_def split: option.splits)
next
  case (2 host s j w1 w2)
  note w2 = bindClient_cases [OF 2(3)]
  have "map_of (w_links w2) c = Some (host, s)" using w2 2(1,2) by (simp split: option.split)
  then have "map_of (w_links w') c = Some (Some j, s)" by (simp add: 2(4))
  moreover have "host_at w' j \<noteq> None" using w2 2(4) by (auto split: option.splits)
  ultimately show ?thesis by auto
qed

lemma assigned_host:
  assumes "assignHost s = Inr (0, s')"
  shows "\<exists>i h. getHost s' = Inr (Some h) \<and> host_at (s_world s') i = Some h \<and> s_client s' = s_client s \<and>
    (keeps_rules w0 (s_world s) \<longrightarrow> keeps_rules w0 (s_world s'))"
proof -
  obtain w where w: "setHost (cl_id (s_client s)) (getHeader (getRequest s) ''host'') (s_world s) = Inr w"
    and s': "s' = s\<lparr>s_world := w\<rparr>"
    using assms by (auto simp: assignHost_def Let_def and_then_eq_Inr res_defs split: if_splits)
  from setHost_found [OF w] setHost_rules [OF w] show ?thesis by (auto simp: getHost_def s')
qed

text \<open>
  C3. In any state a run of the configured server reaches, a client without a response whose
  request names a host is given one to answer it: whatever the request is, when the checks on
  that host's rules turn it down (with an error or a redirection), generating the response
  succeeds and leaves the client writing it.
\<close>

theorem running_server_answers:
  assumes "parseConfigFile sys sock path empty_conf = Some (res, cf)"
    and "main_loop sys rds (boot listens cf) = Inr sv"
    and "client_at sv d = Some c" and "cl_response c = None" and "request_ok rq"
    and "assignHost (set_request rq (session_of sv c)) = Inr (0, s)"
    and "check_host_request sys s = Inr (refusal, s1)" and "refusal \<noteq> 0"
  shows "\<exists>s2. generateResponse sys refusal s1 = Inr (0, s2) \<and> cl_response (s_client s2) \<noteq> None \<and>
    cl_mode (s_client s2) = CLIENT_MODE_WRITE"
proof -
  note cf = parse_conf_ok [OF assms(1)]
  have "keeps_rules (cf_world cf) (sv_world sv)"
    using run_ok [OF assms(1,2)] by (simp add: server_ok_def)
  then obtain i h where h: "getHost s = Inr (Some h)" "host_at (s_world s) i = Some h"
    and c: "s_client s = s_client (set_request rq (session_of sv c))"
    and k: "keeps_rules (cf_world cf) (s_world s)"
    using assigned_host [OF assms(6), of "cf_world cf"] by (auto simp: session_of_def)
  from k h(2) obtain h0 where h0: "host_at (cf_world cf) i = Some h0" and r: "rules h = rules h0"
    unfolding keeps_rules_def by blast
  from cf h0 have "host_ok h0" unfolding conf_ok_def by blast
  then have "host_ok h" unfolding rules_host_ok [OF r] .
  moreover have "hints_ordered (getRequest s)" "cl_response (s_client s) = None"
    using assms(4,5) c by (simp_all add: session_of_def getRequest_def request_ok_def)
  ultimately show ?thesis by (intro refused_request_answered [OF h(1) _ _ _ assms(7,8)])
qed

section \<open>Where a name leads\<close>

text \<open>
  C5. In any state a run of the configured server reaches, giving a client a host cannot touch a
  host that is gone, as long as the client's own server is still there and has a host: the
  client is bound to a host that is still there, is complete and lists it, and that has the
  name the client asked for if any host of the server has it.
\<close>

theorem running_server_binds:
  assumes "parseConfigFile sys sock path empty_conf = Some (res, cf)"
    and "main_loop sys rds (boot listens cf) = Inr sv"
    and "map_of (w_links (sv_world sv)) d = Some (host, s)"
    and "server_at (sv_world sv) s = Some ls" and "ls_hostMap ls \<noteq> []"
  shows "\<exists>w i h. setHost d name (sv_world sv) = Inr w \<and> map_of (w_links w) d = Some (Some i, s) \<and>
    host_at w i = Some h \<and> d \<in> set (ho_clients h) \<and> host_ok h \<and>
    (findHost name ls \<noteq> None \<longrightarrow> name \<in> set (ho_server_names h))"
proof -
  note ok = run_ok [OF assms(1,2)]
  have "world_ok (sv_world sv)" "pointers_ok (sv_world sv)" using ok by (simp_all add: server_ok_def)
  from bind_live [OF this assms(3-5), of name] obtain w i h where
    w: "setHost d name (sv_world sv) = Inr w" "map_of (w_links w) d = Some (Some i, s)" "host_at w i = Some h"
      "d \<in> set (ho_clients h)" "findHost name ls \<noteq> None \<longrightarrow> name \<in> set (ho_server_names h)"
    by blast
  have "keeps_rules (sv_world sv) w" by (rule setHost_rules [OF w(1)]) simp
  then obtain h0 where "host_at (sv_world sv) i = Some h0" "rules h = rules h0"
    using w(3) unfolding keeps_rules_def by blast
  with ok have "host_ok h" using rules_host_ok by blast
  with w show ?thesis by blast
qed

section \<open>A small run\<close>

definition moved_config :: string where
  "moved_config = ''default_error_pages e;server {listen 80;host h;server_name a;location * {root w;methods GET;return 301 http://b/;};};''"

definition small_round :: "event \<Rightarrow> round" where
  "small_round e = \<lparr> rd_nbr = 1, rd_events = [e], rd_silent = (\<lambda>_. 0) \<rparr>"

definition small_arrival :: round where
  "small_arrival =
     small_round (Arrival 1 \<lparr> ar_fd = 5, ar_addr = ''1.2.3.4'', ar_port = 4000, ar_registered = True \<rparr>)"

definition hello_request :: Request where
  "hello_request = (demo_request GET ''/a'')\<lparr>r_headers := [(''host'', ''a'')]\<rparr>"

abbreviation moved_system :: system where
  "moved_system \<equiv> one_file moved_config"

abbreviation moved_parse :: "((config_exn + int) \<times> conf) option" where
  "moved_parse \<equiv> parseConfigFile moved_system one_sock (Some ''conf'') empty_conf"

lemma evaluated:
  "(case x of Inl e \<Rightarrow> False | Inr y \<Rightarrow> P y) \<longleftrightarrow> (\<exists>y. x = Inr y \<and> P y)"
  "(case r of None \<Rightarrow> False | Some z \<Rightarrow> Q z) \<longleftrightarrow> (\<exists>z. r = Some z \<and> Q z)"
  "(case p of (a, b) \<Rightarrow> R a b) \<longleftrightarrow> (\<exists>a b. p = (a, b) \<and> R a b)"
  by (auto split: sum.split option.split prod.split)

text \<open>A client that has connected, and its first request.\<close>

lemma arrived:
  "\<exists>cf sv c. moved_parse = Some (Inr 0, cf) \<and>
     main_loop moved_system [small_arrival] (boot (\<lambda>_. True) cf) = Inr sv \<and> client_at sv 2 = Some c \<and>
     cl_response c = None \<and>
     (\<exists>s s1. assignHost (set_request hello_request (session_of sv c)) = Inr (0, s) \<and>
        check_host_request moved_system s = Inr (301, s1))"
proof -
  have "case moved_parse of None \<Rightarrow> False | Some (r, cf) \<Rightarrow> r = Inr 0 \<and>
      (case main_loop moved_system [small_arrival] (boot (\<lambda>_. True) cf) of
         Inl e \<Rightarrow> False
       | Inr sv \<Rightarrow>
           (case client_at sv 2 of
              None \<Rightarrow> False
            | Some c \<Rightarrow> cl_response c = None \<and>
                (case assignHost (set_request hello_request (session_of sv c)) of
                   Inl e \<Rightarrow> False
                 | Inr (r, s) \<Rightarrow> r = 0 \<and>
                     (case check_host_request moved_system s of Inl e \<Rightarrow> False | Inr (k, _) \<Rightarrow> k = 301))))"
    by code_simp
  then show ?thesis unfolding evaluated by blast
qed

theorem running_server_typed_witness:
  "\<exists>cf sv c. moved_parse = Some (Inr 0, cf) \<and>
     main_loop moved_system [small_arrival] (boot (\<lambda>_. True) cf) = Inr sv \<and>
     client_at sv 2 = Some c \<and> client_ok c \<and> map_of (w_links (sv_world sv)) 2 \<noteq> None"
  using arrived running_server_typed [of moved_system one_sock "Some ''conf''" "Inr 0" _ "[small_arrival]"]
  by (metis option.distinct(1))

theorem running_server_answers_witness:
  "\<exists>cf sv c s s1 s2. moved_parse = Some (Inr 0, cf) \<and>
     main_loop moved_system [small_arrival] (boot (\<lambda>_. True) cf) = Inr sv \<and> client_at sv 2 = Some c \<and>
     assignHost (set_request hello_request (session_of sv c)) = Inr (0, s) \<and>
     check_host_request moved_system s = Inr (301, s1) \<and>
     generateResponse moved_system 301 s1 = Inr (0, s2) \<and> cl_response (s_client s2) \<noteq> None"
proof -
  from arrived obtain cf sv c s s1 where run: "moved_parse = Some (Inr 0, cf)"
    "main_loop moved_system [small_arrival] (boot (\<lambda>_. True) cf) = Inr sv"
    "client_at sv 2 = Some c" "cl_response c = None"
    and checked: "assignHost (set_request hello_request (session_of sv c)) = Inr (0, s)"
    "check_host_request moved_system s = Inr (301, s1)"
    by blast
  have "request_ok hello_request" by code_simp
  from running_server_answers [OF run this checked] have "\<exists>s2. generateResponse moved_system 301 s1 = Inr (0, s2) \<and>
    cl_response (s_client s2) \<noteq> None" by auto
  with run(1-3) checked show ?thesis by blast
qed

theorem running_server_binds_witness:
  "\<exists>cf sv w i h. moved_parse = Some (Inr 0, cf) \<and>
     main_loop moved_system [small_arrival] (boot (\<lambda>_. True) cf) = Inr sv \<and>
     setHost 2 ''a'' (sv_world sv) = Inr w \<and> host_at w i = Some h \<and> 2 \<in> set (ho_clients h)"
proof -
  have "case moved_parse of None \<Rightarrow> False | Some (r, cf) \<Rightarrow> r = Inr 0 \<and>
      (case main_loop moved_system [small_arrival] (boot (\<lambda>_. True) cf) of
         Inl e \<Rightarrow> False
       | Inr sv \<Rightarrow> map_of (w_links (sv_world sv)) 2 = Some (None, 1) \<and>
           (case server_at (sv_world sv) 1 of None \<Rightarrow> False | Some ls \<Rightarrow> \<not> List.null (ls_hostMap ls)))"
    by code_simp
  then obtain cf sv ls where run: "moved_parse = Some (Inr 0, cf)"
    "main_loop moved_system [small_arrival] (boot (\<lambda>_. True) cf) = Inr sv"
    "map_of (w_links (sv_world sv)) 2 = Some (None, 1)" "server_at (sv_world sv) 1 = Some ls" "ls_hostMap ls \<noteq> []"
    unfolding evaluated by (auto simp: List.null_iff)
  from running_server_binds [OF this, of "''a''"] run(1,2) show ?thesis by blast
qed

end
