(* ===== verification/Console.thy ===== *)
theory Console
  imports Program
begin

text \<open>
  What the console shows of a running server: the text of a server in terms of its map
  (\<open>server_listing\<close>), the print command in every state a run reaches, and what its messages write
  to the streams of the logger.
\<close>

section \<open>The text of a server\<close>

text \<open>The header of a server, then each of its hosts under the first of its names.\<close>

definition server_listing :: "world \<Rightarrow> ListenServer \<Rightarrow> string" where
  "server_listing w ls =
     server_header ls @
     concat (map (\<lambda>(n, i). host_printShort (the (host_at w i))) (firsts {} (ls_hostMap ls)))"

lemma firsts_subset: "set (firsts seen m) \<subseteq> set m"
  by (induction seen m rule: firsts.induct) auto

lemma print_hosts_live:
  assumes "\<And>n i. (n, i) \<in> set es \<Longrightarrow> host_at w i \<noteq> None"
  shows "print_hosts f w es = Inr (concat (map (\<lambda>(n, i). f (the (host_at w i))) es))"
  using assms
proof (induction es)
  case (Cons e es)
  obtain n i where e: "e = (n, i)" by (cases e)
  with Cons.prems [of n i] obtain h where "host_at w i = Some h" by auto
  moreover have "print_hosts f w es = Inr (concat (map (\<lambda>(n, i). f (the (host_at w i))) es))"
    by (intro Cons.IH Cons.prems) auto
  ultimately show ?case using e by simp
qed simp

lemma server_text_live:
  assumes "hosts_live w" and "server_at w s = Some ls"
  shows "server_text w ls = Inr (server_listing w ls)"
proof -
  have live: "host_at w i \<noteq> None" if "(n, i) \<in> set (firsts {} (ls_hostMap ls))" for n i
  proof -
    have "(n, i) \<in> set (ls_hostMap ls)" using that firsts_subset by fast
    then have "findHost n ls = Some i"
      using str_map.mem_find hosts_liveD(1) [OF assms] by (simp add: findHost_def ls_ok_def)
    from hosts_liveD(2) [OF assms this] show ?thesis by auto
  qed
  have "printShort_hosts (ls_hostMap ls) = Inr (firsts {} (ls_hostMap ls))"
    using visit_safe [of 0 "ls_hostMap ls" "{}"] by (simp add: printShort_hosts_def umi_of_def)
  with print_hosts_live [OF live] show ?thesis
    by (simp add: server_text_def server_printShort_def server_listing_def)
qed

section \<open>The command\<close>

definition server_call :: "world \<Rightarrow> nat \<times> ListenServer \<Rightarrow> log_call" where
  "server_call w e = LOGI ''%Ls'' [Arg_object Obj_Server (Some (server_listing w (snd e)))]"

lemma show_servers_live:
  assumes "pointers_ok (sv_world sv)" and "set es \<subseteq> set (w_servers (sv_world sv))"
  shows "show_servers es sv = Inr (sv\<lparr>sv_shown := sv_shown sv @ map (server_call (sv_world sv)) es\<rparr>)"
  using assms
proof (induction es arbitrary: sv)
  case (Cons e es)
  obtain s ls where e: "e = (s, ls)" by (cases e)
  have "server_at (sv_world sv) s = Some ls"
    using Cons.prems e pointers_okD(3) [OF Cons.prems(1)] by simp
  from server_text_live [OF pointers_okD(1) [OF Cons.prems(1)] this]
  have shown: "show_server ls sv = Inr (show_it (server_call (sv_world sv) e) sv)"
    by (simp add: show_server_def server_call_def e)
  have "sv_world (show_it x sv) = sv_world sv" "sv_shown (show_it x sv) = sv_shown sv @ [x]" for x
    by (simp_all add: show_it_def)
  with Cons.IH [of "show_it (server_call (sv_world sv) e) sv"] Cons.prems shown e
  show ?case by (simp add: show_it_def)
qed simp

lemma print_total:
  assumes "pointers_ok (sv_world sv)"
  shows "\<exists>sv'. handlePrintCommand words sv = Inr sv'"
proof -
  have server: "\<exists>ls. server_at (sv_world sv) s = Some ls \<and> (\<exists>sv'. show_server ls sv = Inr sv') \<and>
      (\<forall>i. findHost n ls = Some i \<longrightarrow> host_at (sv_world sv) i \<noteq> None)"
    if "findServer a p (sv_world sv) = Some s" for a p s n
  proof -
    from that obtain ls where "(s, ls) \<in> set (w_servers (sv_world sv))"
      by (auto simp: findServer_def find_Some_iff) (metis nth_mem)
    then have ls: "server_at (sv_world sv) s = Some ls" using pointers_okD(3) [OF assms] by simp
    with server_text_live [OF pointers_okD(1) [OF assms] ls] hosts_liveD(2) [OF pointers_okD(1) [OF assms] ls]
    show ?thesis by (fastforce simp: show_server_def)
  qed
  show ?thesis
    unfolding handlePrintCommand_def
    using show_servers_live [OF assms] server [of "words ! 1" "words ! 2" _ "words ! 3"]
    by (auto split: option.split)
qed

section \<open>What the console shows of a running server\<close>

text \<open>
  In any state a run of the configured server reaches, the console can print: the print
  command, whatever its arguments, and the text of any client touch no host that is gone and
  raise no exception.
\<close>

theorem running_server_prints:
  assumes "parseConfigFile sys sock path empty_conf = Some (res, cf)"
    and "main_loop sys rds (boot listens cf) = Inr sv"
  shows "(\<exists>sv'. handlePrintCommand words sv = Inr sv') \<and>
    (client_at sv d = Some c \<longrightarrow> (\<exists>t. client_text pe (sv_world sv) c = Inr t))"
proof
  note ok = run_ok [OF assms]
  then have live: "pointers_ok (sv_world sv)" by (simp add: server_ok_def)
  then show "\<exists>sv'. handlePrintCommand words sv = Inr sv'" by (rule print_total)
  show "client_at sv d = Some c \<longrightarrow> (\<exists>t. client_text pe (sv_world sv) c = Inr t)"
  proof
    assume c: "client_at sv d = Some c"
    with ok have "map_of (w_links (sv_world sv)) d \<noteq> None" "cl_id c = d" by (simp_all add: server_ok_def)
    then obtain host s where l: "map_of (w_links (sv_world sv)) d = Some (host, s)" "cl_id c = d" by auto
    show "\<exists>t. client_text pe (sv_world sv) c = Inr t"
    proof (cases host)
      case (Some i)
      with l pointers_okD(2) [OF live] obtain h where h: "host_at (sv_world sv) i = Some h"
        unfolding links_live_def by blast
      with ok have "ho_server_names h \<noteq> []" by (auto simp: host_ok_def)
      with l h Some show ?thesis by (auto simp: client_text_def neq_Nil_conv)
    qed (use l in \<open>simp add: client_text_def\<close>)
  qed
qed

lemma render_object: "render (c_str (''%Ls'' @ endl)) [Arg_object Obj_Server (Some t)] = Some (t @ endl)"
proof -
  have fmt: "c_str (''%Ls'' @ endl) = ''%Ls'' @ endl" by code_simp
  have last: "render endl [] = Some endl" by code_simp
  have "directive CHR ''L'' (CHR ''s'' # endl) = Some (To_object Obj_Server, endl)" by code_simp
  then show ?thesis
    unfolding fmt by (subst render.simps) (simp add: char_at_def take_arg_def arg_text_def null_text_def last)
qed

text \<open>Logging the calls of a list one by one.\<close>

lemma log_server_calls:
  assumes "streams_ok (lg_streams lg)" and "lg_isInit lg"
  shows "log_calls env (map (server_call w) es) lg = Inr (append_out (\<lambda>os.
    if taken (\<lambda>_. True) LOG_INFO lg os
    then concat (map (\<lambda>e. stamp env LOG_INFO (taken le_colorize LOG_INFO lg os) @ server_listing w (snd e) @ endl) es)
    else []) lg)"
  using assms
proof (induction es arbitrary: lg)
  case (Cons e es)
  have info: "0 \<le> LOG_INFO" "min LOG_INFO 5 = LOG_INFO" by (simp_all add: LOG_INFO_def)
  note first = log_appends [OF Cons.prems info(1) render_object, of env "server_listing w (snd e)", unfolded info(2)]
  show ?case
    using Cons.IH [of "append_out f lg" for f] Cons.prems first
    by (simp add: server_call_def LOGI_def) (auto intro!: arg_cong [where f = "\<lambda>f. append_out f lg"])
qed (simp cong: if_cong)

text \<open>
  C18. What \<open>print\<close> shows: for every server in the order of the list one message, its header
  and each of its hosts exactly once, on every stream that takes infos and on no other.
\<close>

theorem console_print_lists_hosts:
  assumes "parseConfigFile sys sock path empty_conf = Some (res, cf)"
    and "main_loop sys rds (boot listens cf) = Inr sv"
    and "streams_ok (lg_streams lg)" and "lg_isInit lg"
  shows "\<exists>sv' calls lg'. handlePrintCommand [''print''] sv = Inr sv' \<and> sv_shown sv' = sv_shown sv @ calls \<and>
    log_calls env calls lg = Inr lg' \<and>
    (\<forall>os. lg_out lg' os = lg_out lg os @
      (if taken (\<lambda>_. True) LOG_INFO lg os
       then concat (map (\<lambda>e. stamp env LOG_INFO (taken le_colorize LOG_INFO lg os) @
              server_listing (sv_world sv) (snd e) @ endl) (w_servers (sv_world sv)))
       else []))"
proof -
  have "pointers_ok (sv_world sv)" using run_ok [OF assms(1,2)] by (simp add: server_ok_def)
  from show_servers_live [OF this, of "w_servers (sv_world sv)"]
  have "handlePrintCommand [''print''] sv =
      Inr (sv\<lparr>sv_shown := sv_shown sv @ map (server_call (sv_world sv)) (w_servers (sv_world sv))\<rparr>)"
    by (simp add: handlePrintCommand_def)
  with log_server_calls [OF assms(3,4)] show ?thesis by (simp add: append_out_def)
qed

section \<open>A small run\<close>

definition plain_env :: print_env where
  "plain_env = \<lparr> pe_host = (\<lambda>_. ''0''), pe_location = (\<lambda>_. ''1''), pe_cgi = (\<lambda>_. ''2''), pe_silent = (\<lambda>_. 0) \<rparr>"

theorem running_server_prints_witness:
  "\<exists>cf sv c t. moved_parse = Some (Inr 0, cf) \<and>
     main_loop moved_system [small_arrival] (boot (\<lambda>_. True) cf) = Inr sv \<and> client_at sv 2 = Some c \<and>
     (\<exists>sv'. handlePrintCommand [''print'', ''h'', ''80'', ''a''] sv = Inr sv') \<and>
     client_text plain_env (sv_world sv) c = Inr t"
proof -
  from arrived obtain cf sv c where run: "moved_parse = Some (Inr 0, cf)"
    "main_loop moved_system [small_arrival] (boot (\<lambda>_. True) cf) = Inr sv" "client_at sv 2 = Some c"
    by blast
  from running_server_prints [OF run(1,2), of "[''print'', ''h'', ''80'', ''a'']" 2 c plain_env] run show ?thesis by blast
qed

theorem console_print_lists_hosts_witness:
  "\<exists>cf sv sv'. moved_parse = Some (Inr 0, cf) \<and>
     main_loop moved_system [small_arrival] (boot (\<lambda>_. True) cf) = Inr sv \<and>
     handlePrintCommand [''print''] sv = Inr sv' \<and> streams_ok (lg_streams (setInit new_logger))"
proof -
  from arrived obtain cf sv where run: "moved_parse = Some (Inr 0, cf)"
    "main_loop moved_system [small_arrival] (boot (\<lambda>_. True) cf) = Inr sv"
    by blast
  have log: "streams_ok (lg_streams (setInit new_logger))" "lg_isInit (setInit new_logger)"
    by (simp_all add: setInit_def new_logger_def streams_ok_def)
  from console_print_lists_hosts [OF run log, of quiet_env] run log(1) show ?thesis by blast
qed

end
