(* ===== verification/Config_Words.thy ===== *)
theory Config_Words
  imports Config_Lexer
begin

text \<open>
  Two properties of the lexer in both directions: a word written between quotes is read back
  as it was, and \<open>getNextBlock\<close>, which works on lines and moves the stream back, gives what a
  single pass over the text (\<open>block_body\<close>) finds between the braces.
\<close>

section \<open>Quoted words are read back\<close>

text \<open>How a word is written so that it is read as it is.\<close>

fun escape :: "string \<Rightarrow> string" where
  "escape [] = []"
| "escape (c # cs) = (if c = BACKSLASH \<or> c = QUOTE then [BACKSLASH, c] else [c]) @ escape cs"

definition quoted :: "string \<Rightarrow> string" where
  "quoted w = QUOTE # escape w @ [QUOTE]"

lemma special_chars [simp]:
  "BACKSLASH \<noteq> QUOTE" "QUOTE \<noteq> BACKSLASH" "\<not> delimiter QUOTE" "\<not> isspace QUOTE"
  by (simp_all add: BACKSLASH_def QUOTE_def delimiter_def isspace_def char_code_def EOF_def)

lemma parse_quote_read:
  assumes "good s" and "rest_of s = c # cs"
  shows "parse_quote e s d =
    (if c = BACKSLASH \<and> \<not> e then parse_quote True (skip 1 s) d
     else if c = QUOTE \<and> \<not> e then (Inr (), d, skip 1 s)
     else parse_quote False (skip 1 s) (d @ [c]))"
  using assms by (subst parse_quote.simps) (simp add: sget_rest to_char_def)

lemma parse_quote_escape:
  "good s \<Longrightarrow> rest_of s = escape w @ QUOTE # cs \<Longrightarrow>
   parse_quote False s d = (Inr (), d @ w, skip (length (escape w) + 1) s)"
proof (induction w arbitrary: s d)
  case (Cons c w)
  show ?case
  proof (cases "c = BACKSLASH \<or> c = QUOTE")
    case True
    with Cons.prems have "parse_quote False s d = parse_quote False (skip 2 s) (d @ [c])"
      by (subst parse_quote_read [of s BACKSLASH "c # escape w @ QUOTE # cs"], simp_all)
        (subst parse_quote_read [of "skip (Suc 0) s" c "escape w @ QUOTE # cs"], simp_all add: numeral_2_eq_2)
    with True Cons.prems Cons.IH [of "skip 2 s" "d @ [c]"] show ?thesis by (simp add: numeral_2_eq_2)
  next
    case False
    with Cons.prems have "parse_quote False s d = parse_quote False (skip 1 s) (d @ [c])"
      by (subst parse_quote_read [of s c "escape w @ QUOTE # cs"]) simp_all
    with False Cons.prems Cons.IH [of "skip 1 s" "d @ [c]"] show ?thesis by simp
  qed
qed (simp add: parse_quote_read)

lemma skipSpace_read:
  assumes "good s" and "rest_of s = c # cs"
  shows "skipSpace s = (if isspace c then skipSpace (skip 1 s) else s)"
  using assms by (subst skipSpace.simps) (simp add: peek_rest sget_rest is_space_def)

lemma word_loop_delimiter:
  assumes "good s" and "rest_of s = c # cs" and "delimiter c"
  shows "word_loop False s w =
    (Inr (if w \<noteq> [] then 0 else if c = EOF then -1 else int (char_code c)), w, s)"
  using assms by (subst word_loop.simps) (simp add: peek_rest to_char_def)

lemma word_loop_quoted:
  assumes "good s" and "rest_of s = quoted w @ cs"
  shows "word_loop False s d = word_loop False (skip (length (quoted w)) s) (d @ w)"
proof -
  have rest: "rest_of s = QUOTE # escape w @ QUOTE # cs" using assms(2) by (simp add: quoted_def)
  have "parseQuote (skip 1 s) d = (Inr (), d @ w, skip (length (quoted w)) s)"
    using parse_quote_escape [of "skip 1 s" w cs d] assms(1) rest by (simp add: parseQuote_def quoted_def)
  with assms(1) rest show ?thesis
    by (subst word_loop.simps) (simp add: peek_rest sget_rest to_char_def)
qed

lemma getNextWord_quoted:
  assumes "good s" and "rest_of s = CHR '' '' # quoted w @ c # cs" and "delimiter c" and "w \<noteq> []"
  shows "getNextWord s [] = (Inr 0, w, skip (1 + length (quoted w)) s)"
proof -
  have "isspace (CHR '' '')" by (simp add: isspace_def char_code_def)
  then have "skipSpace s = skip 1 s"
    using assms(1,2) skipSpace_read [of "skip 1 s" QUOTE] by (simp add: skipSpace_read quoted_def)
  with assms show ?thesis
    by (simp add: getNextWord_def word_loop_quoted [of "skip (Suc 0) s" w "c # cs"]
        word_loop_delimiter [of "skip (Suc (length (quoted w))) s" c cs])
qed

definition quoted_list :: "string list \<Rightarrow> string" where
  "quoted_list ws = concat (map (\<lambda>w. CHR '' '' # quoted w) ws)"

lemma parse_values_quoted:
  assumes "good s" and "rest_of s = quoted_list ws @ CHR '';'' # cs" and "[] \<notin> set ws"
    and "i + int (length ws) < n"
  shows "parse_values n i s ws0 = (Inr (), ws0 @ ws, skip (length (quoted_list ws)) s)"
  using assms
proof (induction ws arbitrary: i s ws0)
  case Nil
  have semi: "\<not> isspace (CHR '';'')" "delimiter (CHR '';'')" "CHR '';'' \<noteq> EOF" "char_code (CHR '';'') = 59"
    by (simp_all add: isspace_def char_code_def delimiter_def EOF_def)
  with Nil have "getNextWord s [] = (Inr 59, [], s)"
    by (simp add: getNextWord_def skipSpace_read quoted_list_def word_loop_delimiter)
  then show ?case by (subst parse_values.simps) (simp add: quoted_list_def)
next
  case (Cons w ws)
  let ?s = "skip (1 + length (quoted w)) s"
  obtain c cs' where c: "quoted_list ws @ CHR '';'' # cs = c # cs'" and d: "delimiter c"
    by (cases ws) (auto simp: quoted_list_def delimiter_def isspace_def char_code_def)
  have "getNextWord s [] = (Inr 0, w, ?s)"
    using Cons.prems c d by (intro getNextWord_quoted [where c = c and cs = cs']) (auto simp: quoted_list_def)
  moreover have "parse_values n (i + 1) ?s (ws0 @ [w]) =
      (Inr (), (ws0 @ [w]) @ ws, skip (length (quoted_list ws)) ?s)"
    using Cons.prems by (intro Cons.IH) (simp_all add: quoted_list_def)
  ultimately show ?case
    using Cons.prems(4) by (subst parse_values.simps) (simp add: quoted_list_def add.commute add.left_commute)
qed

text \<open>
  C32. Any non-empty words, written between quotes with a backslash before each quote and
  backslash, are read back by \<open>parseValues\<close> as they were, and the stream is left at the
  semicolon.
\<close>

theorem parseValues_roundtrip:
  assumes "good s" and "rest_of s = quoted_list ws @ CHR '';'' # cs" and "[] \<notin> set ws"
    and "int (length ws) < 2147483647"
  shows "\<exists>s'. parseValues s words = (Inr (), words @ ws, s') \<and> good s' \<and> rest_of s' = CHR '';'' # cs"
  using parse_values_quoted [of s ws cs 0 2147483647 words] assms by (simp add: parseValues_def)

theorem parseValues_roundtrip_witness:
  "\<exists>s'. parseValues (stream_of (quoted_list [''a b'', [QUOTE, BACKSLASH]] @ '';}'')) [''x''] =
      (Inr (), [''x'', ''a b'', [QUOTE, BACKSLASH]], s') \<and> good s' \<and> rest_of s' = '';}''"
  using parseValues_roundtrip [of "stream_of (quoted_list [''a b'', [QUOTE, BACKSLASH]] @ '';}'')"
      "[''a b'', [QUOTE, BACKSLASH]]" "''}''" "[''x'']"]
  by simp

section \<open>Blocks are cut at the right brace\<close>

text \<open>
  A reference for \<open>getNextBlock\<close>, over the text after the opening brace: the content of the
  block and the text after the brace that closes it. Line ends do not count for a backslash.
\<close>

definition before :: "char \<Rightarrow> (string \<times> string) option \<Rightarrow> (string \<times> string) option" where
  "before c r = map_option (\<lambda>(body, rest). (c # body, rest)) r"

fun block_body :: "int \<Rightarrow> bool \<Rightarrow> bool \<Rightarrow> string \<Rightarrow> (string \<times> string) option" where
  "block_body depth isEscaped isQuoted [] = None"
| "block_body depth isEscaped isQuoted (c # cs) =
     (if c = newline then before c (block_body depth isEscaped isQuoted cs)
      else if isEscaped then before c (block_body depth False isQuoted cs)
      else if c = BACKSLASH then before c (block_body depth True isQuoted cs)
      else if c = QUOTE then before c (block_body depth False (\<not> isQuoted) cs)
      else if \<not> isQuoted \<and> c = CHR ''{'' then before c (block_body (depth + 1) False isQuoted cs)
      else if \<not> isQuoted \<and> c = CHR ''}'' then
        (if depth = 1 then Some ([], cs) else before c (block_body (depth - 1) False isQuoted cs))
      else before c (block_body depth False isQuoted cs))"

text \<open>One line inside a block.\<close>

definition line_agrees ::
  "nat \<Rightarrow> nat \<Rightarrow> string \<Rightarrow> string \<Rightarrow> (string \<times> string) option \<Rightarrow>
   (config_exn + int \<times> bool \<times> bool \<times> nat \<times> nat option) \<Rightarrow> bool" where
  "line_agrees start i line below body scan =
     (case scan of
        Inl e \<Rightarrow> False
      | Inr (d', e', q', start', None) \<Rightarrow>
          start' = start \<and> 1 \<le> d' \<and>
          body = map_option (\<lambda>(b, r). (line @ b, r)) (block_body d' e' q' below)
      | Inr (d', e', q', start', Some k) \<Rightarrow>
          start' = start \<and> d' = 0 \<and> i \<le> k \<and> k < i + length line \<and>
          body = Some (take (k - i) line, drop (Suc k - i) line @ below))"

lemma line_agrees_Cons:
  assumes "line_agrees start (i + 1) line below body scan"
  shows "line_agrees start i (c # line) below (before c body) scan"
proof -
  have "drop (Suc k - i) (c # line) = drop (k - i) line \<and> take (k - i) (c # line) = c # take (k - Suc i) line"
    if "Suc i \<le> k" for k
    using that by (auto simp: le_iff_add)
  with assms show ?thesis
    by (auto simp: line_agrees_def before_def option.map_comp comp_def case_prod_unfold
        split: sum.splits prod.splits option.splits)
qed

lemma scan_line_agrees:
  "1 \<le> d \<Longrightarrow> newline \<notin> set line \<Longrightarrow>
   line_agrees start i line below (block_body d e q (line @ below)) (scan_line d e q start i line)"
proof (induction line arbitrary: d e q i)
  case Nil
  then show ?case
    by (simp add: line_agrees_def option.map_ident case_prod_unfold)
next
  case (Cons c line)
  from Cons.IH Cons.prems show ?case
    by (auto simp: line_agrees_Cons) (auto simp: line_agrees_def)
qed

lemma takeWhile_whole: "\<not> length (takeWhile P xs) < length xs \<Longrightarrow> takeWhile P xs = xs"
  by (induction xs) (auto split: if_splits)

lemma getline_then_back:
  assumes "good s" and "getline s lb = (line, s1)" and "k < length line"
  shows "seek_back s1 line k = skip (k + 1) s"
proof (cases "length line < length (rest_of s)")
  case True
  then have "is_pos s + length line + 1 \<le> length (is_text s)"
    by (simp add: rest_of_def)
  with True assms show ?thesis
    by (auto simp: getline_def seek_back_def tellg_def seekg_def good_def skip_def Let_def split: if_splits)
next
  case False
  from assms(1,2) have line: "line = takeWhile (\<lambda>c. c \<noteq> newline) (rest_of s)"
    by (auto simp: getline_def Let_def split: if_splits)
  with False have "line = rest_of s" by (simp add: takeWhile_whole)
  with assms(3) have pos: "is_pos s + length line = length (is_text s)" "rest_of s \<noteq> []"
    by (auto simp: rest_of_def)
  from assms(1,2) False line have "s1 = s\<lparr>is_pos := length (is_text s), is_eof := True, is_fail := False\<rparr>"
    using pos by (auto simp: getline_def Let_def good_def split: if_splits)
  moreover have "s\<lparr>is_pos := p, is_eof := False, is_fail := False\<rparr> = s\<lparr>is_pos := p\<rparr>" for p
    using assms(1) by (simp add: good_def)
  ultimately show ?thesis
    using pos assms(1,3) by (simp add: seek_back_def tellg_def seekg_def clear_state_def good_def skip_def Let_def nat_int_add)
qed

lemma block_body_ne: "block_body d e q t = Some r \<Longrightarrow> t \<noteq> []"
  by (cases t) auto

lemma block_loop_content:
  assumes "good s" and "rest_of s = p @ cs" and "newline \<notin> set p" and "1 \<le> d"
    and "\<And>t. scan_line d0 e0 q0 0 0 (p @ t) = scan_line d e q (length p) (length p) t"
    and "block_body d e q cs = Some (body, rest)"
  shows "\<exists>lb' s'. block_loop d0 e0 q0 out lb s = (Inr (out @ body), lb', s') \<and> good s' \<and> rest_of s' = rest"
  using assms
proof (induction "left s" arbitrary: s p cs d d0 e0 q0 e q body out lb rule: less_induct)
  case less
  define line where "line = takeWhile (\<lambda>c. c \<noteq> newline) cs"
  define below where "below = dropWhile (\<lambda>c. c \<noteq> newline) cs"
  have cs: "cs = line @ below" by (simp add: line_def below_def)
  have nl: "newline \<notin> set line" by (auto simp: line_def dest: set_takeWhileD)
  have full: "takeWhile (\<lambda>c. c \<noteq> newline) (rest_of s) = p @ line"
    using less.prems(2,3) by (auto simp: line_def takeWhile_append2 takeWhile_append)
  obtain s1 where g: "getline s lb = (p @ line, s1)"
    using less.prems(1) full
    by (cases "length (p @ line) < length (rest_of s)") (simp_all add: getline_def)
  have agrees: "line_agrees (length p) (length p) line below (Some (body, rest))
      (scan_line d e q (length p) (length p) line)"
    using scan_line_agrees [OF less.prems(4) nl, of "length p" "length p" below e q] less.prems(6)
    by (simp add: cs)
  then obtain r where "scan_line d e q (length p) (length p) line = Inr r"
    by (cases "scan_line d e q (length p) (length p) line") (simp_all add: line_agrees_def)
  then obtain d' e' q' st close
    where scan: "scan_line d e q (length p) (length p) line = Inr (d', e', q', st, close)"
    by (cases r rule: prod_cases5) auto
  note agrees = agrees [unfolded scan]
  note step = block_loop.simps [of d0 e0 q0 out lb s]
  show ?case
  proof (cases close)
    case (Some k)
    with agrees have k: "st = length p" "d' = 0" "length p \<le> k" "k < length p + length line"
      "body = take (k - length p) line" "rest = drop (Suc k - length p) line @ below"
      by (simp_all add: line_agrees_def)
    have put: "seek_back s1 (p @ line) k = skip (k + 1) s"
      using getline_then_back [OF less.prems(1) g] k by simp
    moreover have "rest_of (skip (k + 1) s) = rest"
      using k less.prems(2) cs by simp
    ultimately show ?thesis
      using less.prems(1,5) k
      by (subst step) (simp add: g scan Some block_part_def Let_def)
  next
    case None
    with agrees obtain body' where k: "st = length p" "1 \<le> d'" "body = line @ body'"
      "block_body d' e' q' below = Some (body', rest)"
      by (cases "block_body d' e' q' below") (auto simp: line_agrees_def)
    then have "below \<noteq> []" using block_body_ne by blast
    then obtain below' where below': "below = newline # below'"
      using hd_dropWhile [of "\<lambda>c. c \<noteq> newline" cs] by (cases below) (auto simp: below_def)
    have s1: "s1 = skip (length (p @ line) + 1) s"
      using getline_rest [OF less.prems(1), of "p @ line" below' lb] less.prems(2,3) nl g cs below' by simp
    have content: "block_body d' e' q' below = map_option (\<lambda>(b, r). (newline # b, r)) (block_body d' e' q' below')"
      using below' by (simp add: before_def)
    with k(4) obtain body2 where body2: "block_body d' e' q' below' = Some (body2, rest)" "body' = newline # body2"
      by auto
    have less': "left s1 < left s"
      using rest_Cons [of s "hd (rest_of s)" "tl (rest_of s)"] less.prems(2) cs below' s1
      by (auto simp: left_def skip_def)
    have "\<exists>lb' s'. block_loop d' e' q' (out @ line @ [newline]) (p @ line) s1 =
        (Inr ((out @ line @ [newline]) @ body2), lb', s') \<and> good s' \<and> rest_of s' = rest"
      using less.prems(1,2) cs below' s1 k(2) body2(1)
      by (intro less.hyps [OF less', of "[]" below' d' d' e' q' e' q']) simp_all
    then show ?thesis
      using less.prems(1,5) k s1 body2
      by (subst step) (simp add: g scan None block_part_def Let_def)
  qed
qed

text \<open>What may come before the block: anything without quotes, braces and backslashes.\<close>

definition plain_char :: "char \<Rightarrow> bool" where
  "plain_char c \<longleftrightarrow> c \<noteq> BACKSLASH \<and> c \<noteq> QUOTE \<and> c \<noteq> CHR ''{'' \<and> c \<noteq> CHR ''}''"

lemma scan_line_plain:
  "\<forall>c \<in> set p. plain_char c \<Longrightarrow>
   scan_line 0 False False st i (p @ t) = scan_line 0 False False st (i + length p) t"
  by (induction p arbitrary: i) (auto simp: plain_char_def)

lemma brace_chars [simp]: "CHR ''{'' \<noteq> BACKSLASH" "CHR ''{'' \<noteq> QUOTE" "newline \<noteq> CHR ''{''"
  "BACKSLASH \<noteq> newline" "QUOTE \<noteq> newline"
  by (simp_all add: BACKSLASH_def QUOTE_def newline_def)

text \<open>
  C16. \<open>getNextBlock\<close>, which reads the stream line by line, gives the content of the block and
  leaves the stream just after the brace that closes it, wherever on its line that brace is.
\<close>

theorem getNextBlock_content:
  assumes "good s" and "rest_of s = before_block @ CHR ''{'' # cs"
    and "\<forall>c \<in> set before_block. plain_char c"
    and "block_body 1 False False cs = Some (body, rest)"
  shows "\<exists>lb' s'. getNextBlock s lb = (Inr body, lb', s') \<and> good s' \<and> rest_of s' = rest"
  using assms
proof (induction before_block arbitrary: s lb rule: length_induct)
  case (1 before_block)
  show ?case
  proof (cases "newline \<in> set before_block")
    case False
    have "scan_line 0 False False 0 0 ((before_block @ [CHR ''{'']) @ t) =
        scan_line 1 False False (length (before_block @ [CHR ''{''])) (length (before_block @ [CHR ''{''])) t" for t
      using 1(4) scan_line_plain [of before_block 0 0 "CHR ''{'' # t"] by simp
    with 1 False block_loop_content [of s "before_block @ [CHR ''{'']" cs 1 0 False False False False body rest "[]" lb]
    show ?thesis by (simp add: getNextBlock_def)
  next
    case True
    then obtain line below where split: "before_block = line @ newline # below" "newline \<notin> set line"
      by (metis split_list_first)
    let ?s = "skip (length line + 1) s"
    have g: "getline s lb = (line, ?s)"
      using 1(2,3) split by (intro getline_rest) simp_all
    have "scan_line 0 False False 0 0 line = Inr (0, False, False, 0, None)"
      using 1(4) split scan_line_plain [of line 0 0 "[]"] by simp
    then have "getNextBlock s lb = getNextBlock ?s line"
      using 1(2) unfolding getNextBlock_def
      by (subst block_loop.simps) (simp add: g block_part_def)
    moreover have "\<exists>lb' s'. getNextBlock ?s line = (Inr body, lb', s') \<and> good s' \<and> rest_of s' = rest"
      using 1(2-5) split by (intro 1(1) [rule_format, of below]) simp_all
    ultimately show ?thesis by simp
  qed
qed

definition block_text :: string where
  "block_text = ''x {y} '' @ [QUOTE] @ ''}'' @ [QUOTE, newline]"

theorem getNextBlock_content_witness:
  "\<exists>lb' s'. getNextBlock (stream_of ('' a'' @ [newline] @ ''{'' @ block_text @ ''};z'')) [] =
      (Inr block_text, lb', s') \<and> good s' \<and> rest_of s' = '';z''"
proof (rule getNextBlock_content)
  show "block_body 1 False False (block_text @ ''};z'') = Some (block_text, '';z'')" by code_simp
qed (auto simp: plain_char_def BACKSLASH_def QUOTE_def newline_def)

end
