(* ===== verification/Config_Endless.thy ===== *)
theory Config_Endless
  imports Config_Words Config_File
begin

text \<open>
  Files the parser never finishes. When the end of the file stops the word \<open>server\<close>, the next
  \<open>getline\<close> fails and leaves the line the parser has kept as it was; a complete server block on
  that line is found again, and the stream is moved back behind it.
\<close>

section \<open>Reading plain words\<close>

definition word_char :: "char \<Rightarrow> bool" where
  "word_char c \<longleftrightarrow> \<not> delimiter c \<and> c \<noteq> BACKSLASH \<and> c \<noteq> QUOTE \<and> c \<noteq> CHR ''#'' \<and> c \<noteq> CHR ''/''"

lemma word_loop_char:
  assumes "good s" and "rest_of s = c # cs" and "word_char c"
  shows "word_loop False s w = word_loop False (skip 1 s) (w @ [c])"
  using assms by (subst word_loop.simps) (simp add: peek_rest sget_rest to_char_def word_char_def comment_start_def)

lemma word_loop_plain:
  "good s \<Longrightarrow> rest_of s = v @ cs \<Longrightarrow> \<forall>c \<in> set v. word_char c \<Longrightarrow>
   word_loop False s w = word_loop False (skip (length v) s) (w @ v)"
proof (induction v arbitrary: s w)
  case (Cons c v)
  then show ?case using word_loop_char [of s c "v @ cs" w] Cons.IH [of "skip 1 s" "w @ [c]"] by simp
qed simp

lemma word_loop_end:
  assumes "good s" and "rest_of s = []" and "w \<noteq> []"
  shows "word_loop False s w = (Inr 0, w, s\<lparr>is_eof := True\<rparr>)"
  using assms by (subst word_loop.simps) (simp add: peek_def rest_of_def to_char_def delimiter_def)

lemma skipSpace_blank:
  "good s \<Longrightarrow> rest_of s = replicate n (CHR '' '') @ c # cs \<Longrightarrow> \<not> isspace c \<Longrightarrow> skipSpace s = skip n s"
proof (induction n arbitrary: s)
  case (Suc n)
  then show ?case
    using skipSpace_read [of s "CHR '' ''"] Suc.IH [of "skip 1 s"] by (simp add: isspace_def char_code_def)
qed (simp add: skipSpace_read)

lemma server_chars: "\<forall>c \<in> set ''server''. word_char c" "\<not> isspace (CHR ''s'')"
  by (simp_all add: word_char_def delimiter_def isspace_def char_code_def EOF_def BACKSLASH_def QUOTE_def)

lemma delimiter_chars: "delimiter (CHR '' '')" "delimiter (CHR ''{'')" "\<not> isspace (CHR '';'')"
  by (simp_all add: delimiter_def isspace_def char_code_def)

text \<open>The word \<open>server\<close> before a block, and at the end of the file.\<close>

lemma server_word:
  assumes "good s" and "rest_of s = ''server'' @ c # cs" and "delimiter c"
  shows "getNextWord s [] = (Inr 0, ''server'', skip 6 s)"
proof -
  have "skipSpace s = s" using assms(1,2) server_chars(2) by (simp add: skipSpace_read)
  then show ?thesis
    using assms word_loop_plain [of s "''server''" "c # cs" "[]"] server_chars(1)
      word_loop_delimiter [of "skip 6 s" c cs "''server''"] by (simp add: getNextWord_def eval_nat_numeral)
qed

lemma server_word_end:
  assumes "good s" and "rest_of s = replicate n (CHR '' '') @ ''server''"
  shows "getNextWord s [] = (Inr 0, ''server'', (skip (n + 6) s)\<lparr>is_eof := True\<rparr>)"
proof -
  have "skipSpace s = skip n s" using assms server_chars(2) by (intro skipSpace_blank) simp_all
  then show ?thesis
    using assms word_loop_plain [of "skip n s" "''server''" "[]" "[]"] server_chars(1)
      word_loop_end [of "skip (n + 6) s" "''server''"] by (simp add: getNextWord_def eval_nat_numeral)
qed

section \<open>The block is found again\<close>

lemma scan_line_inside:
  "\<forall>c \<in> set p. plain_char c \<Longrightarrow>
   scan_line d False False st i (p @ t) = scan_line d False False st (i + length p) t"
  by (induction p arbitrary: i) (auto simp: plain_char_def)

lemma closing_brace [simp]: "CHR ''}'' \<noteq> BACKSLASH" "CHR ''}'' \<noteq> QUOTE"
  by (simp_all add: BACKSLASH_def QUOTE_def)

lemma scan_block:
  assumes "\<forall>c \<in> set pre. plain_char c" and "\<forall>c \<in> set body. plain_char c"
  shows "scan_line 0 False False 0 0 (pre @ ''{'' @ body @ ''}'' @ t) =
    Inr (0, False, False, length pre + 1, Some (length pre + 1 + length body))"
  using scan_line_inside [OF assms(1), of 0 0 0] scan_line_inside [OF assms(2), of 1] by simp

text \<open>One line that holds a whole block.\<close>

lemma getNextBlock_line:
  assumes "getline s lb = (pre @ ''{'' @ body @ ''}'' @ t, s1)"
    and "\<forall>c \<in> set pre. plain_char c" and "\<forall>c \<in> set body. plain_char c"
  shows "getNextBlock s lb = (Inr body, pre @ ''{'' @ body @ ''}'' @ t,
    seek_back s1 (pre @ ''{'' @ body @ ''}'' @ t) (length pre + 1 + length body))"
  unfolding getNextBlock_def
  using assms(1) scan_block [OF assms(2,3), of t]
  by (subst block_loop.simps) (simp add: block_part_def Let_def)

lemma getline_last:
  assumes "good s" and "rest_of s = line" and "newline \<notin> set line" and "line \<noteq> []"
  shows "getline s lb = (line, s\<lparr>is_pos := length (is_text s), is_eof := True, is_fail := False\<rparr>)"
proof -
  have "takeWhile (\<lambda>c. c \<noteq> newline) line = line" using assms(3) by (auto simp: takeWhile_eq_all_conv)
  with assms show ?thesis by (simp add: getline_def Let_def)
qed

text \<open>At the end of the file the kept line counts, and the stream is moved back as from it.\<close>

lemma getline_stopped: "is_eof s \<Longrightarrow> getline s lb = (lb, s\<lparr>is_fail := True\<rparr>)"
  by (simp add: getline_def good_def)

lemma seek_back_end:
  assumes "is_eof s" and "is_eof s'" and "is_text s' = is_text s" and "is_pos s' = is_pos s"
  shows "seek_back s' line k = seek_back s line k"
  using assms by (cases s; cases s') (simp add: seek_back_def tellg_def seekg_def clear_state_def good_def Let_def)

section \<open>The loop comes back\<close>

text \<open>
  A round of the loop that leads back to the same place of the stream, in whatever state with
  the property \<open>I\<close> the rest of the parser is.
\<close>

lemma config_loop_back:
  assumes "getNextWord s [] = (Inr 0, token, s1)" and "checkSemiColon s2 = (True, s)"
    and returns: "\<And>cf r. I cf \<Longrightarrow> handleConfigToken sock s1 token cf = Some r \<Longrightarrow> fst r = Inr s2 \<and> I (snd r)"
    and "I cf"
  shows "config_loop sock s cf = None"
proof (rule ccontr)
  assume "config_loop sock s cf \<noteq> None"
  then obtain r where r: "config_loop sock s cf = Some r" by blast
  have "\<not> (sock = sock \<and> s = s \<and> I cf)"
  proof (rule config_loop.raw_induct
      [where P = "\<lambda>sock' s' cf' r. \<not> (sock' = sock \<and> s' = s \<and> I cf')", OF _ r])
    fix f sock' s' cf' r'
    assume IH: "\<And>sock' s' cf' r. f sock' s' cf' = Some r \<Longrightarrow> \<not> (sock' = sock \<and> s' = s \<and> I cf')"
      and round: "(case getNextWord s' [] of (r, token, s1) \<Rightarrow>
        (case r of
           Inl e \<Rightarrow> Some (Inl e, cf')
         | Inr ret \<Rightarrow>
             if ret = 0 then
               Option.bind (handleConfigToken sock' s1 token cf') (\<lambda>(res, cf1).
                 case res of
                   Inl e \<Rightarrow> Some (Inl e, cf1)
                 | Inr s2 \<Rightarrow>
                     (case checkSemiColon s2 of (found, s3) \<Rightarrow>
                        if found then f sock' s3 cf1
                        else Some (Inl MissingSemicolon, cf1)))
             else if ret = -1 then Some (Inr (), cf')
             else Some (Inl (UnexpectedToken token), cf'))) = Some r'"
    show "\<not> (sock' = sock \<and> s' = s \<and> I cf')"
    proof
      assume at: "sock' = sock \<and> s' = s \<and> I cf'"
      with round assms(1) obtain q where "handleConfigToken sock s1 token cf' = Some q"
        by (auto simp: bind_eq_Some_conv)
      with returns [of cf' q] at obtain cf1 where q: "handleConfigToken sock s1 token cf' = Some (Inr s2, cf1)" "I cf1"
        by (cases q) auto
      with round at assms(1,2) have "f sock s cf1 = Some r'" by simp
      from IH [OF this] q(2) show False by simp
    qed
  qed
  with assms(4) show False by simp
qed

text \<open>
  A block that does not disturb the parser: reading its directives does not read a block inside
  it, which would replace the kept line, and throws no exception but the parser's own.
\<close>

definition flat_block :: "string \<Rightarrow> bool" where
  "flat_block body \<longleftrightarrow>
     (\<forall>c res c'. parseBlock handleHostToken (stream_of body) new_Host c = Some (res, c') \<longrightarrow>
        cf_lineBuffer c' = cf_lineBuffer c \<and> (\<forall>f. res \<noteq> Inl (Fault f)))"

lemma add_host_frame:
  "add_host sock h cf = (r, cf') \<Longrightarrow> cf_lineBuffer cf' = cf_lineBuffer cf \<and> (\<forall>f. r \<noteq> Inl (Fault f))"
  by (auto simp: add_host_def checkHost_def Let_def split: if_splits prod.splits)

lemma catch_in_host_goes_on:
  "\<forall>f. fst rc \<noteq> Inl (Fault f) \<Longrightarrow>
   fst (catch_in_host s rc) = Inr s \<and> cf_lineBuffer (snd (catch_in_host s rc)) = cf_lineBuffer (snd rc)"
  by (auto simp: catch_in_host_def split: prod.split sum.split config_exn.split)

lemma parseHost_flat:
  assumes "getNextBlock s (cf_lineBuffer cf) = (Inr body, line, s')" and "flat_block body"
    and "handleConfigToken sock s ''server'' cf = Some r"
  shows "fst r = Inr s' \<and> cf_lineBuffer (snd r) = line"
proof -
  let ?c = "cf\<lparr>cf_lineBuffer := line\<rparr>"
  obtain res c' where p: "parseBlock handleHostToken (stream_of body) new_Host ?c = Some (res, c')"
    and r: "r = catch_in_host s' (case res of Inl e \<Rightarrow> (Inl e, c') | Inr (h, _) \<Rightarrow> add_host sock h c')"
    using assms(1,3) by (auto simp: handleConfigToken_def parseHost_def Let_def bind_eq_Some_conv)
  have c': "cf_lineBuffer c' = line" "\<forall>f. res \<noteq> Inl (Fault f)"
    using assms(2) p by (auto simp: flat_block_def)
  let ?rc = "case res of Inl e \<Rightarrow> (Inl e, c') | Inr (h, _) \<Rightarrow> add_host sock h c'"
  have "(\<forall>f. fst ?rc \<noteq> Inl (Fault f)) \<and> cf_lineBuffer (snd ?rc) = line"
  proof (cases res)
    case (Inr hs)
    then show ?thesis
      using add_host_frame [of sock "fst hs" c'] c'(1)
      by (cases "add_host sock (fst hs) c'") (auto split: prod.split)
  qed (use c' in auto)
  with catch_in_host_goes_on [of ?rc s'] r show ?thesis by simp
qed

text \<open>
  C15. Wherever the parser's loop comes to a last line \<open>server {\<close>body\<open>}; server\<close> that has no line
  end, whatever it has read before, it never returns: the body is any text without quotes,
  backslashes, braces and line ends whose directives throw no exception but the parser's own
  and do not hold a block. If the whole file is such a line, \<open>parseConfigFile\<close> never returns.
\<close>

theorem config_file_endless:
  assumes "good s" and "rest_of s =
      ''server'' @ replicate m (CHR '' '') @ ''{'' @ body @ ''};'' @ replicate n (CHR '' '') @ ''server''"
    and "\<forall>c \<in> set body. plain_char c \<and> c \<noteq> newline" and "flat_block body"
  shows "config_loop sock s cf = None \<and>
    (s = stream_of t \<and> checkFilePath sys path \<and> file_bytes sys path = Some t \<longrightarrow>
       parseConfigFile sys sock (Some path) cf = None)"
proof -
  let ?pre = "replicate m (CHR '' '')" and ?t = "'';'' @ replicate n (CHR '' '') @ ''server''"
  let ?line = "?pre @ ''{'' @ body @ ''}'' @ ?t" and ?k = "m + 1 + length body"
  let ?s1 = "skip 6 s" and ?s2 = "skip (6 + (?k + 1)) s" and ?s3 = "skip (6 + (?k + 2)) s"
  let ?eof = "s\<lparr>is_pos := length (is_text s), is_eof := True\<rparr>"
  have plain: "\<forall>c \<in> set ?pre. plain_char c" "\<forall>c \<in> set body. plain_char c"
    using assms(3) by (auto simp: plain_char_def BACKSLASH_def QUOTE_def)
  have nl: "newline \<notin> set ?line" using assms(3) by (auto simp: newline_def)
  have word: "getNextWord s [] = (Inr 0, ''server'', ?s1)"
    using assms(1,2) delimiter_chars by (cases m) (auto intro!: server_word)
  have line: "good ?s1" "rest_of ?s1 = ?line" using assms(1,2) by simp_all
  have got: "getline ?s1 lb = (?line, ?eof)" for lb
    using getline_last [OF line nl] assms(1) by (simp add: skip_def good_def)
  have put: "seek_back ?eof ?line ?k = ?s2"
    using getline_then_back [OF line(1) got, of ?k] by simp
  have first: "getNextBlock ?s1 lb = (Inr body, ?line, ?s2)" for lb
    using getNextBlock_line [OF got plain] put by simp
  have again: "getNextBlock ?eof ?line = (Inr body, ?line, ?s2)"
    using getNextBlock_line [OF getline_stopped plain, of ?eof] put seek_back_end [of ?eof "?eof\<lparr>is_fail := True\<rparr>"]
    by simp
  let ?block = "''server'' @ ?pre @ ''{'' @ body @ ''}''"
  have "length ?block = 6 + (?k + 1)" by simp
  moreover have "rest_of s = ?block @ ?t" using assms(2) by simp
  ultimately have rest: "rest_of ?s2 = ?t" by (metis append_eq_conv_conj skip_simps(2))
  then have "skipSpace ?s2 = ?s2" using assms(1) delimiter_chars(3) by (simp add: skipSpace_read)
  then have semi: "checkSemiColon ?s2 = (True, ?s3)"
    using assms(1) rest sget_rest [of ?s2] by (simp add: checkSemiColon_def peek_rest)
  have rest3: "rest_of ?s3 = replicate n (CHR '' '') @ ''server''"
    using arg_cong [OF rest, of "drop 1"] by simp
  have len: "length (is_text s) = is_pos s + (6 + (?k + 2) + (n + 6))"
    using arg_cong [OF assms(2), of length] unfolding rest_of_def by simp
  have last: "getNextWord ?s3 [] = (Inr 0, ''server'', ?eof)"
  proof -
    have "(skip (n + 6) ?s3)\<lparr>is_eof := True\<rparr> = ?eof" using len by (simp add: skip_def algebra_simps)
    moreover have "good ?s3" using assms(1) by simp
    ultimately show ?thesis using server_word_end [OF _ rest3] by metis
  qed
  let ?I = "\<lambda>cf. cf_lineBuffer cf = ?line"
  have "fst r = Inr ?s2 \<and> ?I (snd r)"
    if "?I cf" "handleConfigToken sock ?eof ''server'' cf = Some r" for cf r
    using again that by (intro parseHost_flat [OF _ assms(4)]) (simp_all only:)
  then have loop: "config_loop sock ?s3 cf = None" if "?I cf" for cf
    by (rule config_loop_back [where I = ?I, OF last semi _ that])
  have none: "config_loop sock s cf = None"
  proof (cases "handleConfigToken sock ?s1 ''server'' cf")
    case (Some r)
    from parseHost_flat [OF first assms(4) this] obtain cf1 where "r = (Inr ?s2, cf1)" "?I cf1" by (cases r) auto
    with Some word semi loop show ?thesis by (subst config_loop.simps) simp
  qed (use word in \<open>subst config_loop.simps, simp\<close>)
  then show ?thesis by (auto simp: parseConfigFile_def openFile_def)
qed

lemma flat_listen: "flat_block ''listen 80;''"
proof -
  let ?s = "stream_of ''listen 80;''"
  have "getNextWord ?s [] = (Inr 0, ''listen'', ?s\<lparr>is_pos := 6\<rparr>)"
    and "parsePorts (?s\<lparr>is_pos := 6\<rparr>) new_Host = Inr (new_Host\<lparr>ho_ports := [''80'']\<rparr>, ?s\<lparr>is_pos := 9\<rparr>)"
    and "checkSemiColon (?s\<lparr>is_pos := 9\<rparr>) = (True, ?s\<lparr>is_pos := 10\<rparr>)"
    and "getNextWord (?s\<lparr>is_pos := 10\<rparr>) [] = (Inr (-1), [], ?s\<lparr>is_pos := 10, is_eof := True, is_fail := True\<rparr>)"
    by code_simp+
  then show ?thesis
    unfolding flat_block_def by (subst parseBlock.simps, simp add: handleHostToken_def, subst parseBlock.simps, simp)
qed

theorem config_file_endless_witness:
  "parseConfigFile (one_file ''server {listen 80;};server'') one_sock (Some ''conf'') empty_conf = None"
proof -
  have "\<forall>c \<in> set ''listen 80;''. plain_char c \<and> c \<noteq> newline"
    by (simp add: plain_char_def BACKSLASH_def QUOTE_def newline_def)
  from config_file_endless [OF _ _ this flat_listen, of "stream_of ''server {listen 80;};server''" 1 0 one_sock empty_conf
      "''server {listen 80;};server''" "one_file ''server {listen 80;};server''" "''conf''"]
  show ?thesis
    by (simp add: checkFilePath_def stat_kind_def file_bytes_def one_file_def c_str_def NUL_def)
qed

end
