(* ===== verification/Removal.thy ===== *)
theory Removal
  imports Program
begin

text \<open>
  What the console's \<open>kill\<close> does to a host that listens on more than one server: it is taken off
  one of them, and its clients off the list of that server, but they keep their pointer to it.
\<close>

section \<open>The host and its server\<close>

text \<open>
  A host that is the only one of server \<open>t\<close> but listens on another server too, every client of
  \<open>t\<close> being one of its own.
\<close>

definition sole_host :: "world \<Rightarrow> nat \<Rightarrow> nat \<Rightarrow> bool" where
  "sole_host w t i \<longleftrightarrow>
     (\<exists>ls h. server_at w t = Some ls \<and> host_at w i = Some h \<and> ls_ip ls = ho_addr h \<and>
        findHost (hd (ho_server_names h)) ls = Some i \<and> (\<forall>n j. findHost n ls = Some j \<longrightarrow> j = i) \<and>
        ls_orphanClients ls = [] \<and> set (ls_connectedClients ls) \<subseteq> set (ho_clients h) \<and>
        set (ho_listenServers h) - {t} \<noteq> {})"

lemma find_nothing: "(\<And>k. map_find str_less k m = None) \<Longrightarrow> m = []"
proof (cases m)
  case (Cons p rest)
  assume none: "\<And>k. map_find str_less k m = None"
  have "map_find str_less (fst p) m \<noteq> None" using str_less_irrefl by (cases p) (simp add: Cons)
  with none show ?thesis by simp
qed

lemma findServer_at:
  assumes "findServer addr port w = Some t" and "distinct (map fst (w_servers w))" and "server_at w t = Some ls"
  shows "ls_ip ls = addr \<and> ls_port ls = port"
proof -
  obtain ls' where "(t, ls') \<in> set (w_servers w)" "ls_ip ls' = addr" "ls_port ls' = port"
    using assms(1) by (auto simp: findServer_def find_Some_iff) (metis nth_mem)
  with map_of_is_SomeI [OF assms(2) this(1)] assms(3) show ?thesis by simp
qed

text \<open>What taking the host off the server leaves of both.\<close>

lemma unassign_sole:
  assumes "hosts_live w" and "server_at w t = Some ls" and "host_at w i = Some h" and "ho_server_names h \<noteq> []"
    and "findHost (hd (ho_server_names h)) ls = Some i" and "\<And>n j. findHost n ls = Some j \<Longrightarrow> j = i"
    and "set (ls_connectedClients ls) \<subseteq> set (ho_clients h)"
  shows "unassignHost t i w = Inr (upd_host i (removeListenServer t)
    (upd_server t (\<lambda>ls. ls\<lparr>ls_connectedClients := filter (\<lambda>c. c \<notin> set (ho_clients h)) (ls_connectedClients ls),
       ls_hostMap := fold (map_erase str_less) (ho_server_names h) (ls_hostMap ls),
       ls_nbrHost := i32 (ls_nbrHost ls - 1)\<rparr>) w))"
    and "filter (\<lambda>c. c \<notin> set (ho_clients h)) (ls_connectedClients ls) = []"
    and "fold (map_erase str_less) (ho_server_names h) (ls_hostMap ls) = []"
proof -
  show "unassignHost t i w = Inr (upd_host i (removeListenServer t)
    (upd_server t (\<lambda>ls. ls\<lparr>ls_connectedClients := filter (\<lambda>c. c \<notin> set (ho_clients h)) (ls_connectedClients ls),
       ls_hostMap := fold (map_erase str_less) (ho_server_names h) (ls_hostMap ls),
       ls_nbrHost := i32 (ls_nbrHost ls - 1)\<rparr>) w))"
    using assms(2-5) by (cases "ho_server_names h") (simp_all add: unassignHost_def)
  show "filter (\<lambda>c. c \<notin> set (ho_clients h)) (ls_connectedClients ls) = []"
    using assms(7) by (auto simp: filter_empty_conv)
  have "findHost k ls = None" if "k \<notin> set (ho_server_names h)" for k
    using that hosts_liveD(2) [OF assms(1,2), of k i] assms(3,6) by (cases "findHost k ls") auto
  then show "fold (map_erase str_less) (ho_server_names h) (ls_hostMap ls) = []"
    using erase_fold [of "ls_hostMap ls" "ho_server_names h"] hosts_liveD(1) [OF assms(1,2)]
    by (intro find_nothing) (simp add: ls_ok_def findHost_def)
qed

lemma remove_empty_server:
  assumes "server_at (sv_world sv) t = Some ls" and "ls_orphanClients ls = []" and "ls_connectedClients ls = []"
    and "ls_hostMap ls = []"
  shows "\<exists>sv'. remove_server t sv = Inr sv' \<and> w_links (sv_world sv') = w_links (sv_world sv) \<and>
    w_hosts (sv_world sv') = w_hosts (sv_world sv) \<and> server_at (sv_world sv') t = None \<and>
    sv_clients sv' = sv_clients sv"
  using assms by (auto simp: remove_server_def close_socket_def on_world_def shutdown_def)

lemma remove_sole_host:
  assumes "pointers_ok (sv_world sv)" and "sole_host (sv_world sv) t i" and "findServer addr port (sv_world sv) = Some t"
    and "\<And>h. host_at (sv_world sv) i = Some h \<Longrightarrow> ho_server_names h \<noteq> []"
  shows "\<exists>sv'. unregister_host i port sv = Inr sv' \<and> w_links (sv_world sv') = w_links (sv_world sv) \<and>
    server_at (sv_world sv') t = None \<and> sv_clients sv' = sv_clients sv"
proof -
  let ?w = "sv_world sv"
  obtain ls h where ls: "server_at ?w t = Some ls" and h: "host_at ?w i = Some h" and at: "ls_ip ls = ho_addr h"
    and named: "findHost (hd (ho_server_names h)) ls = Some i" "\<And>n j. findHost n ls = Some j \<Longrightarrow> j = i"
    and clients: "ls_orphanClients ls = []" "set (ls_connectedClients ls) \<subseteq> set (ho_clients h)"
    and more: "set (ho_listenServers h) - {t} \<noteq> {}"
    using assms(2) unfolding sole_host_def by blast
  note p = pointers_okD [OF assms(1)]
  note un = unassign_sole [OF p(1) ls h assms(4) [OF h] named clients(2)]
  define w1 where "w1 = upd_host i (removeListenServer t)
    (upd_server t (\<lambda>ls. ls\<lparr>ls_connectedClients := filter (\<lambda>c. c \<notin> set (ho_clients h)) (ls_connectedClients ls),
       ls_hostMap := fold (map_erase str_less) (ho_server_names h) (ls_hostMap ls),
       ls_nbrHost := i32 (ls_nbrHost ls - 1)\<rparr>) ?w)"
  let ?sv1 = "sv\<lparr>sv_world := w1\<rparr>"
  have w1: "unassignHost t i ?w = Inr w1" using un(1) by (simp only: w1_def)
  have ls1: "server_at w1 t = Some (ls\<lparr>ls_connectedClients := [], ls_hostMap := [], ls_nbrHost := i32 (ls_nbrHost ls - 1)\<rparr>)"
    using ls un(2,3) by (simp add: w1_def)
  then obtain sv2 where sv2: "remove_server t ?sv1 = Inr sv2" "w_links (sv_world sv2) = w_links w1"
    "w_hosts (sv_world sv2) = w_hosts w1" "server_at (sv_world sv2) t = None" "sv_clients sv2 = sv_clients sv"
    using remove_empty_server [of ?sv1 t] clients(1) by auto
  have h2: "host_at (sv_world sv2) i = Some (removeListenServer t h)" using sv2(3) h by (simp add: w1_def)
  have "ho_listenServers (removeListenServer t h) \<noteq> []"
    using more by (auto simp: removeListenServer_def) (metis empty_iff insert_iff list.set(1) set_removeAll Diff_iff)
  moreover have "findServer (ho_addr h) port ?w = Some t"
    using findServer_at [OF assms(3) p(3) ls] assms(3) at by simp
  ultimately have "unregister_host i port sv = Inr sv2"
    using h w1 ls1 sv2(1) h2 by (simp add: unregister_host_def on_world_def)
  moreover have "w_links w1 = w_links ?w" by (simp add: w1_def)
  ultimately show ?thesis using sv2 by auto
qed

section \<open>The client that is left\<close>

text \<open>A client whose server is gone cannot be closed.\<close>

lemma hangup_dangling:
  assumes "client_at sv d = Some c" and "client_ok c" and "cl_id c = d" and "in_hup inp"
    and "map_of (w_links (sv_world sv)) d = Some (host, t)" and "server_at (sv_world sv) t = None"
  shows "client_activity sys d inp sv = Inl NullDeref"
proof -
  let ?s = "session_of sv c"
  let ?s1 = "case cl_cgiProcess c of None \<Rightarrow> ?s | Some cg \<Rightarrow> if 0 < cg_pid cg then syscall (Kill (cg_pid cg)) ?s else ?s"
  let ?s2 = "syscall (EpollDel (cl_fd c)) ?s1"
  have s2: "s_client ?s2 = c" "s_world ?s2 = sv_world sv" by (auto simp: session_of_def split: option.split)
  have "cgi_has_request ?s2"
    using assms(2) unfolding cgi_has_request_def s2(1) by (auto simp: client_ok_def split: option.splits)
  from clear_result [OF this] obtain s3 where "clear ?s2 = Inr s3" "s_world s3 = s_world ?s2" by blast
  then have s3: "clear ?s2 = Inr s3" "s_world s3 = sv_world sv" using s2(2) by (simp_all only:)
  have drop: "drop_client d (sv_world sv) = Inl NullDeref"
    using assms(5,6) by (cases host) (simp_all add: drop_client_def deref_def split: option.split)
  have "s_client ?s = c" by (simp add: session_of_def)
  then have "terminate ?s = Inl NullDeref"
    using s3 drop assms(3) by (simp add: terminate_def Let_def)
  then show ?thesis
    using assms(1,4) by (simp add: client_activity_def with_client_def client_event_def handleClientEvent_def Let_def)
qed

text \<open>
  C17. In any state a run of the configured server reaches: if a host is the only one of a
  server, listens on another server too and holds all the clients of the first, then removing it
  from the first by any of its names succeeds and deletes that server, and every client that was
  bound to the host there is left with a pointer to the deleted server: whatever the event in
  which it hangs up, closing it dereferences that pointer.
\<close>

theorem killed_host_leaves_client:
  assumes "parseConfigFile sys sock path empty_conf = Some (res, cf)"
    and "main_loop sys rds (boot listens cf) = Inr sv"
    and "findServer addr port (sv_world sv) = Some t" and "addr \<noteq> ''all''" and "sole_host (sv_world sv) t i"
    and "server_at (sv_world sv) t = Some ls" and "findHost name ls = Some i"
  shows "\<exists>sv'. handleKillCommand [''kill'', addr, port, name] sv = Inr sv' \<and> server_at (sv_world sv') t = None \<and>
    (\<forall>d. map_of (w_links (sv_world sv)) d = Some (Some i, t) \<longrightarrow>
       map_of (w_links (sv_world sv')) d = Some (Some i, t) \<and>
       (\<forall>sys' inp. in_hup inp \<longrightarrow> client_activity sys' d inp sv' = Inl NullDeref))"
proof -
  note run = run_ok [OF assms(1,2)]
  then have ok: "server_ok (cf_world cf) sv" and p: "pointers_ok (sv_world sv)" by (simp_all add: server_ok_def)
  have "ho_server_names h \<noteq> []" if "host_at (sv_world sv) i = Some h" for h
    using run that by (simp add: host_ok_def)
  then obtain sv' where sv': "unregister_host i port sv = Inr sv'" "w_links (sv_world sv') = w_links (sv_world sv)"
    "server_at (sv_world sv') t = None" "sv_clients sv' = sv_clients sv"
    using remove_sole_host [OF p assms(5,3)] by blast
  have "ls_port ls = port" using findServer_at [OF assms(3) pointers_okD(3) [OF p] assms(6)] by simp
  then have kill: "handleKillCommand [''kill'', addr, port, name] sv = Inr sv'"
    using assms(3,4,6,7) sv'(1) by (simp add: handleKillCommand_def remove_host_def)
  have "client_activity sys' d inp sv' = Inl NullDeref"
    if d: "map_of (w_links (sv_world sv)) d = Some (Some i, t)" "in_hup inp" for d inp sys'
  proof -
    obtain c where c: "client_at sv d = Some c" using ok d(1) unfolding server_ok_def by fastforce
    with ok have "client_ok c" "cl_id c = d" unfolding server_ok_def by blast+
    with c d sv' show ?thesis by (intro hangup_dangling [of sv' d c inp "Some i" t]) simp_all
  qed
  with kill sv' show ?thesis by auto
qed

section \<open>A run that gets there\<close>

text \<open>One host on two ports, and a client that is uploading to it over the first.\<close>

definition upload_config :: string where
  "upload_config = ''default_error_pages e;server {listen 80 81;host h;server_name a;body_max_size 9;location * {root w;methods POST;upload on;};};''"
definition chunked_post where "chunked_post = ''POST /b HTTP/1.1'' @ CRLF @ ''host: a'' @ CRLF @ ''transfer-encoding: chunked'' @ CRLF @ CRLF"
definition upload_system :: system where
  "upload_system = (one_file upload_config)\<lparr>sys_stat := (\<lambda>p. if p = ''conf'' then Some Regular else if p = ''w//'' then Some Directory else None)\<rparr>"
abbreviation "upload_parse \<equiv> parseConfigFile upload_system one_sock (Some ''conf'') empty_conf"

definition upload_rounds :: "round list" where
  "upload_rounds = [small_arrival, small_round (Activity 3 (demo_inputs\<lparr>in_in := True, in_read := Some chunked_post\<rparr>))]"

lemma upload_run:
  "case upload_parse of None \<Rightarrow> False | Some (r, cf) \<Rightarrow>
     (case main_loop upload_system upload_rounds (boot (\<lambda>_. True) cf) of
        Inl e \<Rightarrow> False
      | Inr sv \<Rightarrow> map_of (w_links (sv_world sv)) 3 = Some (Some 0, 1) \<and> findServer ''h'' ''80'' (sv_world sv) = Some 1 \<and>
          (case server_at (sv_world sv) 1 of None \<Rightarrow> False | Some ls \<Rightarrow>
             ls_ip ls = ''h'' \<and> ls_hostMap ls = [(''a'', 0)] \<and> ls_orphanClients ls = [] \<and> ls_connectedClients ls = [3]) \<and>
          (case host_at (sv_world sv) 0 of None \<Rightarrow> False | Some h \<Rightarrow>
             ho_addr h = ''h'' \<and> ho_server_names h = [''a''] \<and> ho_clients h = [3] \<and> ho_listenServers h = [2, 1]))"
  by code_simp

theorem killed_host_leaves_client_witness:
  "\<exists>cf sv sv'. upload_parse = Some cf \<and> main_loop upload_system upload_rounds (boot (\<lambda>_. True) (snd cf)) = Inr sv \<and>
     handleKillCommand [''kill'', ''h'', ''80'', ''a''] sv = Inr sv' \<and> server_at (sv_world sv') 1 = None \<and>
     client_activity demo_system 3 (demo_inputs\<lparr>in_hup := True\<rparr>) sv' = Inl NullDeref"
proof -
  obtain r cf sv ls h where run: "upload_parse = Some (r, cf)"
    "main_loop upload_system upload_rounds (boot (\<lambda>_. True) cf) = Inr sv"
    and d: "map_of (w_links (sv_world sv)) 3 = Some (Some 0, 1)" and t: "findServer ''h'' ''80'' (sv_world sv) = Some 1"
    and ls: "server_at (sv_world sv) 1 = Some ls" "ls_ip ls = ''h''" "ls_hostMap ls = [(''a'', 0)]" "ls_orphanClients ls = []"
      "ls_connectedClients ls = [3]"
    and h: "host_at (sv_world sv) 0 = Some h" "ho_addr h = ''h''" "ho_server_names h = [''a'']" "ho_clients h = [3]"
      "ho_listenServers h = [2, 1]"
    using upload_run unfolding evaluated by blast
  have "sole_host (sv_world sv) 1 0"
    using ls h by (auto simp: sole_host_def findHost_def same_key_str split: if_splits)
  from killed_host_leaves_client [OF run t _ this ls(1), of "''a''"] ls(3) d run show ?thesis
    by (fastforce simp: findHost_def demo_inputs_def)
qed

end
