(* ===== verification/Routes.thy ===== *)
theory Routes
  imports Listen
begin

text \<open>
  An abstract specification of the lists of servers, the routing table from addresses, ports
  and names to hosts, and the refinement: registering a host in Listen does to the table what
  the specification says. The contract of an operation that implements a specification is the
  locale \<open>implements\<close>.
\<close>

section \<open>The routing table\<close>

text \<open>
  What the servers promise: for an address and a port that is listened on, a map from server
  names to hosts. Registering a host on a port adds its names that are still free, after
  opening the port if nothing listened on it.
\<close>

type_synonym table = "string \<Rightarrow> string \<Rightarrow> (string \<rightharpoonup> nat) option"

definition routes :: "world \<Rightarrow> table" where
  "routes w a p =
     map_option (\<lambda>s. case server_at w s of None \<Rightarrow> Map.empty | Some ls \<Rightarrow> (\<lambda>n. findHost n ls))
       (findServer a p w)"

definition add_names :: "nat \<Rightarrow> string list \<Rightarrow> (string \<rightharpoonup> nat) \<Rightarrow> (string \<rightharpoonup> nat)" where
  "add_names i names m = (\<lambda>n. case m n of Some j \<Rightarrow> Some j | None \<Rightarrow> if n \<in> set names then Some i else None)"

definition spec_register ::
  "(string \<Rightarrow> string \<Rightarrow> int option) \<Rightarrow> nat \<Rightarrow> string \<Rightarrow> string list \<Rightarrow> string \<Rightarrow> table \<Rightarrow> int \<times> table" where
  "spec_register sock i addr names port T =
     (let put = (\<lambda>m. T(addr := (T addr)(port := Some (add_names i names m)))) in
      case T addr port of
        Some m \<Rightarrow> (0, put m)
      | None \<Rightarrow> (case sock addr port of None \<Rightarrow> (1, T) | Some fd \<Rightarrow> (0, put Map.empty)))"

text \<open>Running an operation over a list of arguments, with the results.\<close>

fun run_all :: "('x \<Rightarrow> 's \<Rightarrow> 'r \<times> 's) \<Rightarrow> 'x list \<Rightarrow> 's \<Rightarrow> 'r list \<times> 's" where
  "run_all f [] s = ([], s)"
| "run_all f (x # xs) s =
     (case f x s of (r, s1) \<Rightarrow> (case run_all f xs s1 of (rs, s2) \<Rightarrow> (r # rs, s2)))"

text \<open>The contract of an operation that implements a specification on an abstract state.\<close>

locale implements =
  fixes inv :: "'c \<Rightarrow> bool"
    and abs :: "'c \<Rightarrow> 'a"
    and impl :: "'x \<Rightarrow> 'c \<Rightarrow> 'r \<times> 'c"
    and spec :: "'x \<Rightarrow> 'a \<Rightarrow> 'r \<times> 'a"
  assumes step_inv: "inv c \<Longrightarrow> inv (snd (impl x c))"
    and step_spec: "inv c \<Longrightarrow> spec x (abs c) = (fst (impl x c), abs (snd (impl x c)))"
begin

lemma run_implements:
  "inv c \<Longrightarrow> inv (snd (run_all impl xs c)) \<and>
   run_all spec xs (abs c) = (fst (run_all impl xs c), abs (snd (run_all impl xs c)))"
proof (induction xs arbitrary: c)
  case (Cons x xs)
  obtain r c1 where step: "impl x c = (r, c1)" by (cases "impl x c")
  obtain rs c2 where rest: "run_all impl xs c1 = (rs, c2)" by (cases "run_all impl xs c1")
  from step_inv [OF Cons.prems, of x] step_spec [OF Cons.prems, of x] Cons.IH [of c1] step rest
  show ?case by simp
qed simp

end

section \<open>Registering a host\<close>

text \<open>The list of servers: distinct numbers, all given out, and ordered maps.\<close>

definition registry_ok :: "world \<Rightarrow> bool" where
  "registry_ok w \<longleftrightarrow>
     distinct (map fst (w_servers w)) \<and> (\<forall>(s, ls) \<in> set (w_servers w). s < w_next w \<and> ls_ok ls)"

definition at_addr :: "string \<Rightarrow> string \<Rightarrow> nat \<times> ListenServer \<Rightarrow> bool" where
  "at_addr a p = (\<lambda>(i, ls). ls_ip ls = a \<and> ls_port ls = p)"

lemma routes_find:
  assumes "distinct (map fst (w_servers w))"
  shows "routes w a p = map_option (\<lambda>e n. findHost n (snd e)) (List.find (at_addr a p) (w_servers w))"
proof (cases "List.find (at_addr a p) (w_servers w)")
  case (Some e)
  then have "e \<in> set (w_servers w)" by (auto simp: find_Some_iff)
  then have "server_at w (fst e) = Some (snd e)" using assms by (metis map_of_eq_Some_iff prod.collapse)
  with Some show ?thesis by (simp add: routes_def findServer_def at_addr_def)
qed (simp add: routes_def findServer_def at_addr_def)

lemma find_upd_assoc:
  assumes "\<And>ls. ls_ip (f ls) = ls_ip ls \<and> ls_port (f ls) = ls_port ls"
  shows "List.find (at_addr a p) (upd_assoc s f xs) =
    map_option (\<lambda>e. (fst e, if fst e = s then f (snd e) else snd e)) (List.find (at_addr a p) xs)"
  using assms by (induction xs) (auto simp: upd_assoc_def at_addr_def)

lemma assignHost_place: "ls_ip (assignHost i ns ls) = ls_ip ls \<and> ls_port (assignHost i ns ls) = ls_port ls"
  by (simp add: assignHost_def)

lemma registry_ok_assign:
  assumes "registry_ok w"
  shows "registry_ok (upd_host j g (upd_server s (assignHost i ns) w))"
  using assms findHost_assign by (auto simp: registry_ok_def upd_assoc_def case_prod_unfold comp_def)

text \<open>Registering on a server that is in the list.\<close>

lemma routes_assign:
  assumes "registry_ok w" and "findServer addr port w = Some s"
  shows "routes (upd_host j g (upd_server s (assignHost i ns) w)) =
    (routes w)(addr := (routes w addr)(port := map_option (add_names i ns) (routes w addr port)))"
proof (intro ext)
  fix a p n
  have d: "distinct (map fst (w_servers w))" using assms(1) by (simp add: registry_ok_def)
  obtain e where e: "List.find (at_addr addr port) (w_servers w) = Some e" "fst e = s"
    using assms(2) by (auto simp: findServer_def at_addr_def)
  then have mem: "e \<in> set (w_servers w)" and place: "at_addr addr port e" by (auto simp: find_Some_iff)
  have ok: "ls_ok (snd e)" using assms(1) mem by (auto simp: registry_ok_def)
  have same: "f = e" if "f \<in> set (w_servers w)" "fst f = s" for f
    using that mem e(2) d by (metis eq_key_imp_eq_value prod.collapse)
  show "routes (upd_host j g (upd_server s (assignHost i ns) w)) a p =
      ((routes w)(addr := (routes w addr)(port := map_option (add_names i ns) (routes w addr port)))) a p"
  proof (cases "List.find (at_addr a p) (w_servers w)")
    case None
    with d e show ?thesis
      by (auto simp: routes_find find_upd_assoc [OF assignHost_place])
  next
    case (Some f)
    then have f: "f \<in> set (w_servers w)" "at_addr a p f" by (auto simp: find_Some_iff)
    show ?thesis
    proof (cases "fst f = s")
      case True
      with same f have "f = e" by simp
      with f(2) place have "a = addr" "p = port" by (auto simp: at_addr_def)
      with d e Some ok findHost_assign [OF ok] show ?thesis
        by (auto simp: routes_find find_upd_assoc [OF assignHost_place] add_names_def \<open>f = e\<close>
            split: option.split)
    next
      case False
      with e Some have "\<not> (a = addr \<and> p = port)" by auto
      with d Some False show ?thesis
        by (auto simp: routes_find find_upd_assoc [OF assignHost_place])
    qed
  qed
qed

text \<open>Opening a port.\<close>

lemma addServer_routes:
  assumes "registry_ok w" and "findServer addr port w = None" and "addServer sock addr port w = (Some s, w')"
  shows "registry_ok w'" and "findServer addr port w' = Some s"
    and "routes w' = (routes w)(addr := (routes w addr)(port := Some Map.empty))"
proof -
  obtain fd where fd: "sock addr port = Some fd" and s: "s = w_next w"
    and w': "w' = w\<lparr>w_servers := w_servers w @ [(s, (new_ListenServer addr port)\<lparr>ls_sockFd := fd\<rparr>)],
      w_next := w_next w + 1\<rparr>"
    using assms(3) by (auto simp: addServer_def split: option.splits)
  show ok: "registry_ok w'"
    using assms(1) s by (auto simp: w' registry_ok_def ls_ok_def new_ListenServer_def)
  have none: "List.find (at_addr addr port) (w_servers w) = None"
    using assms(2) by (simp add: findServer_def at_addr_def)
  have find_app: "List.find P (xs @ [x]) = (case List.find P xs of None \<Rightarrow> if P x then Some x else None | Some y \<Rightarrow> Some y)"
    for P and xs :: "(nat \<times> ListenServer) list" and x
    by (induction xs) auto
  show "findServer addr port w' = Some s"
    using none by (simp add: findServer_def at_addr_def [symmetric] w' find_app) (simp add: at_addr_def new_ListenServer_def)
  have d: "distinct (map fst (w_servers w))" "distinct (map fst (w_servers w'))"
    using assms(1) ok by (simp_all add: registry_ok_def)
  show "routes w' = (routes w)(addr := (routes w addr)(port := Some Map.empty))"
  proof (intro ext)
    fix a p
    show "routes w' a p = ((routes w)(addr := (routes w addr)(port := Some Map.empty))) a p"
      unfolding routes_find [OF d(2)] fun_upd_apply routes_find [OF d(1)]
      using none
      by (auto simp: w' find_app at_addr_def new_ListenServer_def findHost_def fun_eq_iff split: option.splits)
  qed
qed

lemma registerHost_port_spec:
  assumes "registry_ok w"
  shows "registry_ok (snd (registerHost_port sock i h port w)) \<and>
    spec_register sock i (ho_addr h) (ho_server_names h) port (routes w) =
      (fst (registerHost_port sock i h port w), routes (snd (registerHost_port sock i h port w)))"
proof (cases "findServer (ho_addr h) port w")
  case (Some s)
  then obtain m where m: "routes w (ho_addr h) port = Some m" by (simp add: routes_def)
  with Some registry_ok_assign [OF assms] routes_assign [OF assms Some] show ?thesis
    by (simp add: registerHost_port_def spec_register_def)
next
  case None
  then have T: "routes w (ho_addr h) port = None" by (simp add: routes_def)
  obtain q w1 where add: "addServer sock (ho_addr h) port w = (q, w1)"
    by (cases "addServer sock (ho_addr h) port w")
  show ?thesis
  proof (cases q)
    case None
    with add have "sock (ho_addr h) port = None" "w1 = w" by (auto simp: addServer_def split: option.splits)
    with \<open>findServer _ _ _ = None\<close> T add None assms show ?thesis
      by (simp add: registerHost_port_def spec_register_def)
  next
    case (Some s)
    with add have "sock (ho_addr h) port \<noteq> None" by (auto simp: addServer_def split: option.splits)
    moreover note new = addServer_routes [OF assms \<open>findServer _ _ _ = None\<close> add [unfolded Some]]
    ultimately show ?thesis
      using T add Some \<open>findServer _ _ _ = None\<close> registry_ok_assign [OF new(1)] routes_assign [OF new(1,2)] new(3)
      by (auto simp: registerHost_port_def spec_register_def)
  qed
qed

interpretation register: implements registry_ok routes "registerHost_port sock i h"
    "spec_register sock i (ho_addr h) (ho_server_names h)" for sock i h
  by unfold_locales (use registerHost_port_spec in \<open>blast+\<close>)

lemma registerHost_ports_run:
  "registerHost_ports sock i h ps w =
     (case run_all (registerHost_port sock i h) ps w of (rs, w') \<Rightarrow> (if list_all ((=) 0) rs then 0 else 1, w'))"
proof (induction ps arbitrary: w)
  case (Cons p ps)
  then show ?case by (auto split: prod.splits)
qed simp

definition spec_free :: "string \<Rightarrow> string list \<Rightarrow> string list \<Rightarrow> table \<Rightarrow> bool" where
  "spec_free addr ports names T =
     list_all (\<lambda>p. case T addr p of None \<Rightarrow> True | Some m \<Rightarrow> list_all (\<lambda>n. m n = None) names) ports"

lemma checkServerNames_spec: "checkServerNames addr ports names w = spec_free addr ports names (routes w)"
  unfolding checkServerNames_def spec_free_def list_all_iff
  by (intro ball_cong refl) (simp add: routes_def split: option.split)

text \<open>
  C8. Registering a new host refines the routing table: the check of its names is the check on
  the table, and adding it runs the table's registration on each of its ports, with the same
  result.
\<close>

theorem addHost_refines_table:
  assumes "registry_ok w" and "addHost sock h w = (r, w')"
  shows "registry_ok w' \<and>
    checkServerNames (ho_addr h) (ho_ports h) (ho_server_names h) w =
      spec_free (ho_addr h) (ho_ports h) (ho_server_names h) (routes w) \<and>
    (\<exists>rs. run_all (spec_register sock (w_next w) (ho_addr h) (ho_server_names h)) (ho_ports h) (routes w) =
        (rs, routes w') \<and> r = (if list_all ((=) 0) rs then 0 else 1))"
proof -
  let ?w = "w\<lparr>w_hosts := w_hosts w @ [(w_next w, h)], w_next := w_next w + 1\<rparr>"
  have ok: "registry_ok ?w" using assms(1) by (auto simp: registry_ok_def)
  have same: "routes ?w = routes w" by (intro ext) (simp add: routes_def findServer_def)
  let ?run = "run_all (registerHost_port sock (w_next w) h) (ho_ports h) ?w"
  have "registry_ok (snd ?run) \<and>
      run_all (spec_register sock (w_next w) (ho_addr h) (ho_server_names h)) (ho_ports h) (routes ?w) =
        (fst ?run, routes (snd ?run))"
    by (rule register.run_implements [OF ok])
  then show ?thesis
    using assms(2) checkServerNames_spec
    by (auto simp: same [simplified] addHost_def registerHost_def registerHost_ports_run split: prod.splits)
qed

theorem addHost_refines_table_witness:
  "\<exists>r w'. addHost (\<lambda>a p. Some 5) (demo_host\<lparr>ho_server_names := [''b'']\<rparr>) demo_world = (r, w') \<and>
     registry_ok w'"
proof -
  have "registry_ok demo_world"
    by (simp add: registry_ok_def demo_world_def ls_ok_def map_ordered_def new_ListenServer_def)
  then show ?thesis
    using addHost_refines_table [of demo_world "\<lambda>a p. Some 5" "demo_host\<lparr>ho_server_names := [''b'']\<rparr>"]
    by (cases "addHost (\<lambda>a p. Some 5) (demo_host\<lparr>ho_server_names := [''b'']\<rparr>) demo_world") auto
qed

end
