(* ===== verification/Sender.thy ===== *)
theory Sender
  imports Prelude
begin

text \<open>
  The test client, src/sender/sender.cpp: it sends a file to the server in small pieces with a
  pause between them, prints what comes back, and takes the names of further files from its
  standard input.

  An event carries what the system calls made for it give: the clock, what \<open>read\<close> and \<open>write\<close>
  return, whether \<open>epoll_ctl\<close> succeeds, and the files there are. How many characters of a file
  the stream library has at hand (\<open>in_avail\<close>), out of those that are left, is a parameter.
\<close>

section \<open>State\<close>

definition SENDER_BUFFER_SIZE :: nat where "SENDER_BUFFER_SIZE = 100"

definition PAUSE_TIME :: int where "PAUSE_TIME = 40000"

record timeval =
  tv_sec :: int
  tv_usec :: int

record ifile =
  if_open :: bool
  if_text :: string
  if_pos :: nat
  if_eof :: bool
  if_fail :: bool
  if_bad :: bool  \<comment> \<open>for a failing device; nothing here sets it\<close>

record sender =
  sd_file :: ifile
  sd_last :: timeval  \<comment> \<open>\<open>lastTime\<close> of \<open>checkTimer\<close>\<close>
  sd_sent :: string  \<comment> \<open>what the socket has taken\<close>
  sd_out :: string  \<comment> \<open>the standard output\<close>
  sd_epollout :: bool  \<comment> \<open>whether the socket is watched for EPOLLOUT\<close>
  sd_connected :: bool

record sys_answers =
  sa_now :: timeval
  sa_avail :: "nat \<Rightarrow> int"
  sa_write :: "nat \<Rightarrow> int"
  sa_broken :: bool  \<comment> \<open>\<open>errno\<close> is ECONNRESET or EPIPE\<close>
  sa_sock :: "string option"
  sa_stdin :: "string option"
  sa_ctl :: bool
  sa_files :: "string \<Rightarrow> string option"

record sender_event =
  ev_stdin :: bool
  ev_out :: bool
  ev_in :: bool
  ev_sys :: sys_answers

definition no_file :: ifile where
  "no_file = \<lparr> if_open = False, if_text = [], if_pos = 0, if_eof = False, if_fail = False, if_bad = False \<rparr>"

definition sender_start :: sender where
  "sender_start = \<lparr> sd_file = no_file, sd_last = \<lparr> tv_sec = 0, tv_usec = 0 \<rparr>, sd_sent = [], sd_out = [],
     sd_epollout = False, sd_connected = False \<rparr>"

definition print_out :: "string \<Rightarrow> sender \<Rightarrow> sender" where
  "print_out t sd = sd\<lparr>sd_out := sd_out sd @ t\<rparr>"

text \<open>\<open>error\<close> prints its argument and gives 1.\<close>

definition error :: "string \<Rightarrow> sender \<Rightarrow> int \<times> sender" where
  "error context_text sd = (1, print_out (context_text @ [CHR 0x0A]) sd)"

section \<open>The timer\<close>

definition elapsed :: "timeval \<Rightarrow> timeval \<Rightarrow> int" where
  "elapsed now prev =
     (if tv_sec now = tv_sec prev then tv_usec now - tv_usec prev
      else if tv_sec prev < tv_sec now then
        (1000000 - tv_usec prev) + 1000000 * (tv_sec now - tv_sec prev - 1) + tv_usec now
      else 0)"

definition checkTimer :: "timeval \<Rightarrow> sender \<Rightarrow> bool \<times> sender" where
  "checkTimer now sd =
     (if PAUSE_TIME \<le> elapsed now (sd_last sd) then (True, sd\<lparr>sd_last := now\<rparr>) else (False, sd))"

section \<open>Files and the socket\<close>

text \<open>
  \<open>readsome\<close>: no more than is at hand; -1 at hand, or a file that is not open, stands for the
  end of the file.
\<close>

definition readsome :: "(nat \<Rightarrow> int) \<Rightarrow> nat \<Rightarrow> ifile \<Rightarrow> string \<times> ifile" where
  "readsome avail n f =
     (let a = avail (length (if_text f) - if_pos f) in
      if if_eof f \<or> if_fail f \<or> if_bad f then ([], f\<lparr>if_fail := True\<rparr>)
      else if \<not> if_open f \<or> a = -1 then ([], f\<lparr>if_eof := True\<rparr>)
      else
        (let t = take (min (nat a) n) (drop (if_pos f) (if_text f)) in
         (t, f\<lparr>if_pos := if_pos f + length t\<rparr>)))"

definition sendFile :: "sys_answers \<Rightarrow> sender \<Rightarrow> int \<times> sender" where
  "sendFile sys sd =
     (case readsome (sa_avail sys) SENDER_BUFFER_SIZE (sd_file sd) of (buffer, f) \<Rightarrow>
        (let sd1 = sd\<lparr>sd_file := f\<rparr>; nread = int (length buffer); nwrite = sa_write sys (length buffer) in
         if nread \<le> 0 then (-1, sd1)
         else if nwrite < 0 then
           (if sa_broken sys then (-1, sd1\<lparr>sd_file := f\<lparr>if_open := False\<rparr>\<rparr>)
            else error ''write error'' sd1)
         else
           (let sd2 = sd1\<lparr>sd_sent := sd_sent sd1 @ take (nat nwrite) buffer\<rparr> in
            if nwrite \<noteq> nread then
              (0, print_out (''warning: number of written characters is different'' @
                    ''from number of read characters'' @ [CHR 0x0A]) sd2)
            else if if_eof f then (-1, sd2)
            else if if_bad f then error ''infile error'' sd2
            else (0, sd2))))"

text \<open>What was read is printed up to its first NUL.\<close>

definition readSock :: "sys_answers \<Rightarrow> sender \<Rightarrow> int \<times> sender" where
  "readSock sys sd =
     (case sa_sock sys of
        None \<Rightarrow> error ''reading socket'' sd
      | Some t \<Rightarrow>
          if t = [] then (-1, sd)
          else (0, print_out (c_str t @ (if length t \<noteq> SENDER_BUFFER_SIZE then [CHR 0x0A] else [])) sd))"

text \<open>Opening a file that is open fails and leaves it open.\<close>

definition openFile :: "(string \<Rightarrow> string option) \<Rightarrow> string \<Rightarrow> sender \<Rightarrow> int \<times> sender" where
  "openFile files path sd =
     (let f = sd_file sd;
          f1 = (if if_open f then f\<lparr>if_fail := True\<rparr>
                else (case files (c_str path) of
                        None \<Rightarrow> f\<lparr>if_fail := True\<rparr>
                      | Some t \<Rightarrow> no_file\<lparr>if_open := True, if_text := t\<rparr>));
          sd1 = sd\<lparr>sd_file := f1\<rparr>
      in if \<not> if_open f1 \<or> if_bad f1 then (1, sd1)
         else (0, print_out (''Sending '' @ c_str path @ [CHR 0x0A]) sd1))"

definition changeEpoll :: "sys_answers \<Rightarrow> bool \<Rightarrow> sender \<Rightarrow> int \<times> sender" where
  "changeEpoll sys out sd = (if sa_ctl sys then (0, sd\<lparr>sd_epollout := out\<rparr>) else (-1, sd))"

section \<open>Events\<close>

text \<open>
  The result of \<open>read\<close> is kept in a \<open>size_t\<close>: -1 is not found to be negative, and the line is
  then written far out of its bounds.
\<close>

definition readStdin :: "sys_answers \<Rightarrow> sender \<Rightarrow> fault + int \<times> sender" where
  "readStdin sys sd =
     (case sa_stdin sys of
        None \<Rightarrow> Inl BadAccess
      | Some line \<Rightarrow>
          if line = [] then Inr (1, sd)
          else
            (case openFile (sa_files sys) (butlast line)
                    (sd\<lparr>sd_file := (sd_file sd)\<lparr>if_open := False\<rparr>\<rparr>) of (r, sd1) \<Rightarrow>
               (let sd2 = (if r \<noteq> 0
                           then print_out (''could not open file ('' @ c_str (butlast line) @ '')'' @ [CHR 0x0A]) sd1
                           else sd1) in
                case changeEpoll sys True sd2 of (e, sd3) \<Rightarrow> Inr (if e \<noteq> 0 then 1 else 0, sd3))))"

definition close_sock :: "sender \<Rightarrow> sender" where
  "close_sock sd = sd\<lparr>sd_connected := False\<rparr>"

definition handleEpollIn :: "sender_event \<Rightarrow> sender \<Rightarrow> fault + int \<times> sender" where
  "handleEpollIn ev sd =
     (if ev_stdin ev then
        and_then (readStdin (ev_sys ev) sd) (\<lambda>(r, sd1).
          Inr (if r \<noteq> 0 then (-1, close_sock sd1) else (0, sd1)))
      else
        (case readSock (ev_sys ev) sd of (r, sd1) \<Rightarrow>
           Inr (if r = -1 then
                  (-1, close_sock (print_out (''Read 0 characters. Closing connection'' @ [CHR 0x0A]) sd1))
                else if r = 1 then (1, sd1)
                else (0, sd1))))"

definition handleEpollOut :: "sender_event \<Rightarrow> sender \<Rightarrow> int \<times> sender" where
  "handleEpollOut ev sd =
     (case checkTimer (sa_now (ev_sys ev)) sd of (due, sd1) \<Rightarrow>
        if \<not> due then (0, sd1)
        else
          (case sendFile (ev_sys ev) sd1 of (r, sd2) \<Rightarrow>
             if r = -1 then
               (case changeEpoll (ev_sys ev) False sd2 of (e, sd3) \<Rightarrow> (if e \<noteq> 0 then 1 else 0, sd3))
             else if r = 1 then (1, sd2)
             else (0, sd2)))"

text \<open>
  The loop over all events there are; Some is the result it is left with. \<open>epoll_wait\<close> fails at
  the end of the list when \<open>stop\<close> says so.
\<close>

fun epoll_loop :: "int option \<Rightarrow> sender_event list \<Rightarrow> sender \<Rightarrow> fault + int option \<times> sender" where
  "epoll_loop stop [] sd = Inr (stop, sd)"
| "epoll_loop stop (ev # evs) sd =
     (case (if ev_out ev then handleEpollOut ev sd else (0, sd)) of (r, sd1) \<Rightarrow>
        if r \<noteq> 0 then Inr (Some 1, sd1)
        else if ev_in ev then
          and_then (handleEpollIn ev sd1) (\<lambda>(res, sd2).
            if 0 < res then Inr (Some 1, sd2)
            else if res < 0 then Inr (Some 0, sd2)
            else epoll_loop stop evs sd2)
        else epoll_loop stop evs sd1)"

text \<open>\<open>connectSock\<close> and the set-up of \<open>main\<close>: which of the calls succeed is given.\<close>

record sender_setup =
  su_address :: bool
  su_socket :: int
  su_connect :: bool
  su_epoll :: int
  su_reg_sock :: bool
  su_reg_stdin :: bool

definition connectSock :: "sender_setup \<Rightarrow> sender \<Rightarrow> int \<times> sender" where
  "connectSock su sd =
     (if \<not> su_address su then error ''invalid address'' sd
      else if su_socket su < 0 then error ''Failed to create socket'' sd
      else if \<not> su_connect su then error ''failed to connect'' sd
      else (0, sd\<lparr>sd_connected := True\<rparr>))"

definition sender_main ::
  "(string \<Rightarrow> string option) \<Rightarrow> sender_setup \<Rightarrow> string list \<Rightarrow> int option \<Rightarrow> sender_event list \<Rightarrow>
   fault + int option \<times> sender" where
  "sender_main files su args stop evs =
     (let fail = (\<lambda>t sd. case error t sd of (r, sd1) \<Rightarrow> Inr (Some r, sd1)) in
      case args of
        [] \<Rightarrow> fail ''invalid number of arguments'' sender_start
      | path # _ \<Rightarrow>
          (case openFile files path sender_start of (r, sd1) \<Rightarrow>
             if r \<noteq> 0 then fail ''failed to open file'' sd1
             else
               (case connectSock su sd1 of (r2, sd2) \<Rightarrow>
                  if r2 \<noteq> 0 then Inr (Some 1, sd2)
                  else if su_epoll su < 0 then fail ''failed to create epoll'' sd2
                  else if \<not> su_reg_sock su then fail ''failed to register to epollout'' sd2
                  else if \<not> su_reg_stdin su then fail ''failed to register to stdin'' (sd2\<lparr>sd_epollout := True\<rparr>)
                  else
                    and_then (epoll_loop stop evs (sd2\<lparr>sd_epollout := True\<rparr>)) (\<lambda>(res, sd3).
                      case res of
                        None \<Rightarrow> Inr (None, sd3)
                      | Some k \<Rightarrow> if k \<noteq> 0 then fail ''error in loop'' sd3 else Inr (Some 0, sd3)))))"

section \<open>The timer measures the time that has passed\<close>

definition usecs :: "timeval \<Rightarrow> int" where
  "usecs t = 1000000 * tv_sec t + tv_usec t"

lemma elapsed_exact:
  assumes "0 \<le> tv_usec now" and "tv_usec now < 1000000" and "0 \<le> tv_usec prev" and "tv_usec prev < 1000000"
  shows "PAUSE_TIME \<le> elapsed now prev \<longleftrightarrow> PAUSE_TIME \<le> usecs now - usecs prev"
  using assms by (auto simp: elapsed_def usecs_def PAUSE_TIME_def)

section \<open>A file is delivered\<close>

definition left_to_send :: "sender \<Rightarrow> string" where
  "left_to_send sd = drop (if_pos (sd_file sd)) (if_text (sd_file sd))"

definition reading :: "sender \<Rightarrow> bool" where
  "reading sd \<longleftrightarrow> if_open (sd_file sd) \<and> \<not> if_eof (sd_file sd) \<and> \<not> if_fail (sd_file sd) \<and> \<not> if_bad (sd_file sd)"

text \<open>
  The socket is ready and takes each piece whole, the standard input is quiet, and the stream
  has some of what is left of the file at hand as long as something is left.
\<close>

definition smooth :: "sender_event \<Rightarrow> bool" where
  "smooth ev \<longleftrightarrow>
     ev_out ev \<and> \<not> ev_in ev \<and> sa_ctl (ev_sys ev) \<and> (\<forall>n. sa_write (ev_sys ev) n = int n) \<and>
     (\<forall>r. if r = 0 then sa_avail (ev_sys ev) r \<le> 0
          else 1 \<le> sa_avail (ev_sys ev) r \<and> sa_avail (ev_sys ev) r \<le> int r)"

fun paced :: "timeval \<Rightarrow> sender_event list \<Rightarrow> bool" where
  "paced prev [] = True"
| "paced prev (ev # evs) \<longleftrightarrow>
     PAUSE_TIME \<le> elapsed (sa_now (ev_sys ev)) prev \<and> paced (sa_now (ev_sys ev)) evs"

lemma out_nothing_left:
  assumes "smooth ev" and "PAUSE_TIME \<le> elapsed (sa_now (ev_sys ev)) (sd_last sd)" and "left_to_send sd = []"
  shows "\<exists>sd'. handleEpollOut ev sd = (0, sd') \<and> sd_last sd' = sa_now (ev_sys ev) \<and> sd_sent sd' = sd_sent sd \<and>
    left_to_send sd' = [] \<and> \<not> sd_epollout sd'"
proof -
  have none: "take n (drop (if_pos (sd_file sd)) (if_text (sd_file sd))) = []" for n
    using assms(3) by (simp add: left_to_send_def)
  have "\<exists>f. readsome (sa_avail (ev_sys ev)) SENDER_BUFFER_SIZE (sd_file sd) = ([], f) \<and>
      if_text f = if_text (sd_file sd) \<and> if_pos f = if_pos (sd_file sd)"
    unfolding readsome_def Let_def none by simp
  then obtain f where f: "readsome (sa_avail (ev_sys ev)) SENDER_BUFFER_SIZE (sd_file sd) = ([], f)"
    "if_text f = if_text (sd_file sd)" "if_pos f = if_pos (sd_file sd)"
    by blast
  then show ?thesis
    using assms by (simp add: handleEpollOut_def checkTimer_def sendFile_def changeEpoll_def smooth_def left_to_send_def)
qed

lemma out_piece:
  assumes "smooth ev" and "PAUSE_TIME \<le> elapsed (sa_now (ev_sys ev)) (sd_last sd)"
    and "reading sd" and "left_to_send sd \<noteq> []"
  shows "\<exists>sd' n. handleEpollOut ev sd = (0, sd') \<and> sd_last sd' = sa_now (ev_sys ev) \<and> 0 < n \<and>
    sd_sent sd' = sd_sent sd @ take n (left_to_send sd) \<and> left_to_send sd' = drop n (left_to_send sd) \<and> reading sd'"
proof -
  define f where "f = sd_file sd"
  define r where "r = length (if_text f) - if_pos f"
  define n where "n = min (nat (sa_avail (ev_sys ev) r)) SENDER_BUFFER_SIZE"
  define t where "t = take n (left_to_send sd)"
  have r: "r \<noteq> 0" "length (left_to_send sd) = r" using assms(4) by (auto simp: left_to_send_def r_def f_def)
  have "if r = 0 then sa_avail (ev_sys ev) r \<le> 0
      else 1 \<le> sa_avail (ev_sys ev) r \<and> sa_avail (ev_sys ev) r \<le> int r"
    using assms(1) by (simp add: smooth_def)
  with r(1) have a: "1 \<le> sa_avail (ev_sys ev) r" "sa_avail (ev_sys ev) r \<le> int r" by auto
  then have n: "0 < n" "n \<le> r" by (auto simp: n_def SENDER_BUFFER_SIZE_def)
  then have t: "length t = n" using r(2) by (simp add: t_def)
  with n(1) have some: "t \<noteq> []" by auto
  have f: "if_open f" "\<not> if_eof f" "\<not> if_fail f" "\<not> if_bad f" using assms(3) by (simp_all add: reading_def f_def)
  have read: "readsome (sa_avail (ev_sys ev)) SENDER_BUFFER_SIZE f = (t, f\<lparr>if_pos := if_pos f + n\<rparr>)"
    using f a t by (simp add: readsome_def Let_def r_def [symmetric] n_def [symmetric] t_def left_to_send_def f_def [symmetric])
  let ?sd = "sd\<lparr>sd_last := sa_now (ev_sys ev)\<rparr>"
  have "sendFile (ev_sys ev) ?sd = (0, ?sd\<lparr>sd_file := f\<lparr>if_pos := if_pos f + n\<rparr>, sd_sent := sd_sent sd @ t\<rparr>)"
    using assms(1) f t some read by (simp add: sendFile_def Let_def smooth_def f_def [symmetric])
  then have "handleEpollOut ev sd = (0, ?sd\<lparr>sd_file := f\<lparr>if_pos := if_pos f + n\<rparr>, sd_sent := sd_sent sd @ t\<rparr>)"
    (is "_ = (0, ?sd')")
    using assms(2) by (simp add: handleEpollOut_def checkTimer_def)
  moreover have "sd_last ?sd' = sa_now (ev_sys ev)" "sd_sent ?sd' = sd_sent sd @ take n (left_to_send sd)"
    "left_to_send ?sd' = drop n (left_to_send sd)" "reading ?sd'"
    using f by (simp_all add: left_to_send_def reading_def t_def f_def add.commute)
  ultimately show ?thesis using n(1) by blast
qed

lemma loop_delivers:
  assumes "\<forall>ev \<in> set evs. smooth ev" and "paced (sd_last sd) evs" and "reading sd \<or> left_to_send sd = []"
  shows "\<exists>sd'. epoll_loop stop evs sd = Inr (stop, sd') \<and>
    sd_sent sd' @ left_to_send sd' = sd_sent sd @ left_to_send sd \<and>
    (length (left_to_send sd) < length evs \<longrightarrow> left_to_send sd' = [] \<and> \<not> sd_epollout sd')"
  using assms
proof (induction evs arbitrary: sd)
  case (Cons ev evs)
  have ev: "smooth ev" "PAUSE_TIME \<le> elapsed (sa_now (ev_sys ev)) (sd_last sd)" "ev_out ev" "\<not> ev_in ev"
    using Cons.prems by (simp_all add: smooth_def)
  show ?case
  proof (cases "left_to_send sd = []")
    case True
    from out_nothing_left [OF ev(1,2) True] obtain sd1 where sd1: "handleEpollOut ev sd = (0, sd1)"
      "sd_last sd1 = sa_now (ev_sys ev)" "sd_sent sd1 = sd_sent sd" "left_to_send sd1 = []" "\<not> sd_epollout sd1"
      by blast
    with Cons.IH [of sd1] Cons.prems True ev(3,4) show ?thesis
      by (cases evs) auto
  next
    case False
    with Cons.prems(3) have "reading sd" by simp
    from out_piece [OF ev(1,2) this False] obtain sd1 n where sd1: "handleEpollOut ev sd = (0, sd1)"
      "sd_last sd1 = sa_now (ev_sys ev)" "0 < n" "sd_sent sd1 = sd_sent sd @ take n (left_to_send sd)"
      "left_to_send sd1 = drop n (left_to_send sd)" "reading sd1" by blast
    moreover have "length (left_to_send sd1) < length (left_to_send sd)" using sd1(3,5) False by simp
    ultimately show ?thesis using Cons.IH [of sd1] Cons.prems ev(3,4) by fastforce
  qed
qed simp

text \<open>
  C33. The sender delivers its file: when the socket takes every piece whole and the events are
  at least a pause apart, then after one event more than there are characters left, exactly
  what was left has been sent, in order, and the socket is no longer watched for writing.
\<close>

theorem sender_delivers_file:
  assumes "reading sd" and "\<forall>ev \<in> set evs. smooth ev" and "paced (sd_last sd) evs"
    and "length (left_to_send sd) < length evs"
  shows "\<exists>sd'. epoll_loop stop evs sd = Inr (stop, sd') \<and> sd_sent sd' = sd_sent sd @ left_to_send sd \<and>
    \<not> sd_epollout sd'"
  using loop_delivers [of evs sd stop] assms by (metis append_Nil2)

text \<open>A partial write loses the rest of the piece: only a warning is printed.\<close>

lemma partial_write_loses:
  assumes "readsome (sa_avail sys) SENDER_BUFFER_SIZE (sd_file sd) = (t, f)"
    and "0 \<le> sa_write sys (length t)" and "sa_write sys (length t) < int (length t)"
  shows "\<exists>sd'. sendFile sys sd = (0, sd') \<and> sd_file sd' = f \<and>
    sd_sent sd' = sd_sent sd @ take (nat (sa_write sys (length t))) t"
  using assms by (auto simp: sendFile_def Let_def print_out_def)

definition hello_file :: sender where
  "hello_file = sender_start\<lparr>sd_file := no_file\<lparr>if_open := True, if_text := ''hello''\<rparr>, sd_epollout := True\<rparr>"

definition smooth_event :: "int \<Rightarrow> sender_event" where
  "smooth_event t =
     \<lparr> ev_stdin = False, ev_out = True, ev_in = False,
       ev_sys = \<lparr> sa_now = \<lparr> tv_sec = t, tv_usec = 0 \<rparr>, sa_avail = int, sa_write = int, sa_broken = False,
                  sa_sock = None, sa_stdin = None, sa_ctl = True, sa_files = (\<lambda>_. None) \<rparr> \<rparr>"

theorem sender_delivers_file_witness:
  "\<exists>sd'. epoll_loop None (map smooth_event [1, 2, 3, 4, 5, 6]) hello_file = Inr (None, sd') \<and>
     sd_sent sd' = ''hello'' \<and> \<not> sd_epollout sd'"
proof -
  have "reading hello_file" "left_to_send hello_file = ''hello''" "sd_sent hello_file = []"
    "paced (sd_last hello_file) (map smooth_event [1, 2, 3, 4, 5, 6])"
    by code_simp+
  moreover have "\<forall>ev \<in> set (map smooth_event [1, 2, 3, 4, 5, 6]). smooth ev"
    by (auto simp: smooth_def smooth_event_def)
  ultimately show ?thesis
    using sender_delivers_file [of hello_file "map smooth_event [1, 2, 3, 4, 5, 6]" None] by simp
qed

end
