(* ===== verification/Head.thy ===== *)
theory Head
  imports Request_Parser
begin

text \<open>
  The head of a request in pieces. \<open>parseHeaders\<close> is fed what the network brings; the state it
  keeps between two calls is the line it is in, and what it leaves when it needs more is nothing.
  Here the contract \<open>resumable\<close> of Feed is shown for the whole of it, request line and headers:
  the locale is interpreted on \<open>parseHeaders\<close>. A head that fits the buffer and is accepted as a
  whole is never turned down before its end.
\<close>

section \<open>The size of the head\<close>

abbreviation sized :: "int \<Rightarrow> Request \<Rightarrow> Request" where
  "sized m rq \<equiv> rq\<lparr>r_header_size := m\<rparr>"

text \<open>Only the size checks look at the size, and they come when the input is used up.\<close>

lemma getLine_sized:
  "getLine rq b = (r, rq1, t) \<Longrightarrow> getLine (sized m rq) b = (r, sized m rq1, t)"
  by (auto simp: getLine_def Let_def split: option.splits)

lemma getLine_keeps:
  "getLine rq b = (r, rq1, t) \<Longrightarrow> r_status rq1 = r_status rq \<and> r_header_size rq1 = r_header_size rq \<and>
     r_trailer_status rq1 = r_trailer_status rq \<and> length t \<le> length b + length (r_line rq)"
  by (auto simp: getLine_def Let_def split: option.splits)

lemma header_line_sized:
  "header_line rq = (0, rq1) \<Longrightarrow> header_line (sized m rq) = (0, sized m rq1) \<and>
     r_status rq1 = r_status rq \<and> r_header_size rq1 = r_header_size rq"
  by (auto simp: header_line_def fillError_def split: prod.splits if_splits)

lemma header_line_error_sized:
  "header_line rq = (e, rq1) \<Longrightarrow> \<exists>rq2. header_line (sized m rq) = (e, rq2)"
  by (auto simp: header_line_def fillError_def split: prod.splits if_splits)

lemma parseRequestLine_sized:
  "parseRequestLine (sized m rq) = (case parseRequestLine rq of Inl e \<Rightarrow> Inl e | Inr (r, rq1) \<Rightarrow> Inr (r, sized m rq1))"
  by (auto simp: parseRequestLine_def Let_def fillError_def substr_from_def and_then_def split: option.splits)

lemma header_lines_pause_sized:
  "header_lines rq a = (0, rq', rest) \<Longrightarrow>
   rest = [] \<and> r_status rq' = r_status rq \<and> r_header_size rq' = r_header_size rq \<and>
   (b \<noteq> [] \<longrightarrow> header_lines (sized m rq) (a @ b) = header_lines (sized m rq') b)"
proof (induction rq a arbitrary: rq' rest rule: header_lines.induct)
  case (1 rq a)
  show ?case
  proof (cases "a = []")
    case True
    have "checkSizes rq = (0, rq') \<and> rest = []"
      using "1.prems"(1) True by (subst (asm) header_lines.simps) (auto split: prod.splits)
    then show ?thesis using True checkSizes_nonneg by fastforce
  next
    case False
    obtain res rq1 a1 where gl: "getLine rq a = (res, rq1, a1)" by (cases "getLine rq a") auto
    show ?thesis
    proof (cases "res = 0")
      case True
      then have more: "getLine (sized m rq) (a @ b) = (0, sized m rq1, a1 @ b)"
        using gl getLine_more getLine_sized by blast
      have ne: "r_line rq1 \<noteq> []"
        using "1.prems" False gl True by (subst (asm) header_lines.simps) auto
      obtain e rq2 where hl: "header_line rq1 = (e, rq2)" by (cases "header_line rq1")
      have e: "e = 0" and rec: "header_lines rq2 a1 = (0, rq', rest)"
        using "1.prems" False gl True ne hl
        by (subst (asm) header_lines.simps; simp split: if_splits)+
      from "1.IH" [OF False gl [symmetric] refl _ ne hl [symmetric]] e rec True
      have "rest = [] \<and> r_status rq' = r_status rq2 \<and> r_header_size rq' = r_header_size rq2 \<and>
          (b \<noteq> [] \<longrightarrow> header_lines (sized m rq2) (a1 @ b) = header_lines (sized m rq') b)"
        by simp
      then show ?thesis
        using more False header_line_sized [OF hl [unfolded e]] getLine_keeps [OF gl] ne
        by (simp add: header_lines.simps [of "sized m rq" "a @ b"])
    next
      case nz: False
      then have rest: "a1 = []" and res: "getLine rq (a @ b) = getLine rq1 b"
        using getLine_resume [OF gl] by simp_all
      then have res: "getLine (sized m rq) (a @ b) = getLine (sized m rq1) b"
        using getLine_sized by (metis prod_cases3)
      have "checkSizes rq1 = (0, rq1)" "rq' = rq1" "rest = []"
        using "1.prems" False gl nz rest checkSizes_nonneg
        by (subst (asm) header_lines.simps; fastforce split: prod.splits)+
      then show ?thesis
        using res False getLine_keeps [OF gl]
        by (simp add: header_lines.simps [of "sized m rq" "a @ b"] header_lines.simps [of "sized m rq1" b])
    qed
  qed
qed

lemma header_lines_finish_sized:
  "header_lines rq a = (res, rq', rest) \<Longrightarrow> res < 0 \<Longrightarrow>
   header_lines (sized m rq) (a @ b) = (res, sized m rq', rest @ b)"
proof (induction rq a arbitrary: rq' rest rule: header_lines.induct)
  case (1 rq a)
  show ?case
  proof (cases "a = []")
    case True
    have "checkSizes rq = (res, rq') \<and> rest = []"
      using "1.prems"(1) True by (subst (asm) header_lines.simps) (auto split: prod.splits)
    then show ?thesis using True checkSizes_nonneg "1.prems"(2) by fastforce
  next
    case False
    obtain gr rq1 a1 where gl: "getLine rq a = (gr, rq1, a1)" by (cases "getLine rq a") auto
    have gr: "gr = 0"
      using "1.prems" False gl checkSizes_nonneg
      by (subst (asm) header_lines.simps) (fastforce split: prod.splits if_splits)
    then have more: "getLine (sized m rq) (a @ b) = (0, sized m rq1, a1 @ b)"
      using gl getLine_more getLine_sized by blast
    show ?thesis
    proof (cases "r_line rq1 = []")
      case True
      with "1.prems" False gl gr more show ?thesis
        by (auto simp: header_lines.simps [of rq a] header_lines.simps [of "sized m rq" "a @ b"])
    next
      case ne: False
      obtain e rq2 where hl: "header_line rq1 = (e, rq2)" by (cases "header_line rq1")
      have e: "e = 0" and rec: "header_lines rq2 a1 = (res, rq', rest)"
        using "1.prems" False gl gr ne hl header_line_nonneg [OF hl]
        by (subst (asm) header_lines.simps; simp split: if_splits)+
      from "1.IH" [OF False gl [symmetric] refl _ ne hl [symmetric]] e rec gr "1.prems"(2)
      have "header_lines (sized m rq2) (a1 @ b) = (res, sized m rq', rest @ b)" by simp
      then show ?thesis
        using more False header_line_sized [OF hl [unfolded e]] ne by (simp add: header_lines.simps [of "sized m rq" "a @ b"])
    qed
  qed
qed

section \<open>The request line in pieces\<close>

text \<open>The part of \<open>parseHeaders\<close> that reads the request line, and the two that follow it.\<close>

definition read_line :: "Request \<Rightarrow> string \<Rightarrow> fault + int \<times> Request \<times> string" where
  "read_line rq buffer =
     (case getLine rq buffer of (res, rq2, buffer1) \<Rightarrow>
        if res \<noteq> 0 then (case checkSizes rq2 of (res, rq3) \<Rightarrow> Inr (res, rq3, buffer1))
        else if BUFFER_SIZE < length (r_line rq2) then
          (case fillError 414 ''Request uri too long'' rq2 of (res, rq3) \<Rightarrow> Inr (res, rq3, buffer1))
        else
          and_then (parseRequestLine rq2) (\<lambda>(res, rq3).
            Inr (if res \<noteq> 0 then (getError rq3, rq3, buffer1)
                 else header_lines (rq3\<lparr>r_line := [], r_status := ONGOING\<rparr>) buffer1)))"

definition read_on :: "Request \<Rightarrow> string \<Rightarrow> fault + int \<times> Request \<times> string" where
  "read_on rq buffer = (if r_status rq = RLINE then read_line rq buffer else Inr (header_lines rq buffer))"

text \<open>The buffer from the first letter on, when the request is new.\<close>

definition strip :: "string \<Rightarrow> string" where "strip = dropWhile (\<lambda>c. \<not> isalpha c)"

lemma parseHeaders_read:
  "parseHeaders rq buffer =
     (let n = i32 (r_header_size rq + int (length buffer)) in
      if r_status rq = PTERM then Inr (0, rq, buffer)
      else if r_status rq \<noteq> NEW then read_on (sized n rq) buffer
      else if strip buffer = [] then (case checkSizes (sized n rq) of (res, rq2) \<Rightarrow> Inr (res, rq2, []))
      else read_on (sized (i32 (int (length (strip buffer)))) (rq\<lparr>r_status := RLINE\<rparr>)) (strip buffer))"
  by (auto simp: parseHeaders_def read_on_def read_line_def strip_def Let_def)

lemma parseRequestLine_error:
  "parseRequestLine rq = Inr (res, rq1) \<Longrightarrow> res \<noteq> 0 \<Longrightarrow> 0 < getError rq1"
  by (auto simp: parseRequestLine_def Let_def fillError_def getError_def and_then_eq_Inr res_defs
      split: option.splits if_splits)

lemma parseRequestLine_keeps: "parseRequestLine rq = Inr (0, rq1) \<Longrightarrow> r_header_size rq1 = r_header_size rq \<and> r_trailer_status rq1 = r_trailer_status rq"
  by (auto simp: parseRequestLine_def Let_def fillError_def and_then_eq_Inr res_defs split: option.splits if_splits)

text \<open>What reads a complete line: the line, and the rest handed to the header loop.\<close>

lemma read_line_complete:
  assumes "getLine rq buffer = (0, rq2, rest)" and "read_line rq buffer = Inr (res, rq', rest')" and "res \<le> 0"
  obtains rq3 where "length (r_line rq2) \<le> BUFFER_SIZE" and "parseRequestLine rq2 = Inr (0, rq3)"
    and "header_lines (rq3\<lparr>r_line := [], r_status := ONGOING\<rparr>) rest = (res, rq', rest')"
proof -
  have "length (r_line rq2) \<le> BUFFER_SIZE"
    using assms by (auto simp: read_line_def fillError_def split: if_splits)
  moreover from this assms obtain r rq3 where p: "parseRequestLine rq2 = Inr (r, rq3)"
    and q: "(res, rq', rest') = (if r \<noteq> 0 then (getError rq3, rq3, rest)
      else header_lines (rq3\<lparr>r_line := [], r_status := ONGOING\<rparr>) rest)"
    by (auto simp: read_line_def and_then_eq_Inr split: if_splits)
  moreover have "r = 0" using parseRequestLine_error [OF p] q assms(3) by (auto split: if_splits)
  ultimately show ?thesis using that by simp
qed

lemma sized_swap: "(sized m rq)\<lparr>r_line := l, r_status := s\<rparr> = sized m (rq\<lparr>r_line := l, r_status := s\<rparr>)"
  by simp

lemma read_line_more:
  assumes "getLine rq a = (0, rq2, rest)" and "length (r_line rq2) \<le> BUFFER_SIZE"
    and "parseRequestLine rq2 = Inr (0, rq3)"
  shows "read_line (sized m rq) (a @ b) =
    Inr (header_lines (sized m (rq3\<lparr>r_line := [], r_status := ONGOING\<rparr>)) (rest @ b))"
proof -
  have "getLine (sized m rq) (a @ b) = (0, sized m rq2, rest @ b)"
    using getLine_sized [OF getLine_more [OF assms(1)]] .
  moreover have "parseRequestLine (sized m rq2) = Inr (0, sized m rq3)"
    by (simp add: parseRequestLine_sized assms(3))
  ultimately show ?thesis using assms(2) by (simp add: read_line_def sized_swap)
qed

lemma read_on_pause:
  assumes "read_on rq a = Inr (0, rq', rest)" and "r_status rq \<noteq> PTERM" and "r_status rq \<noteq> NEW"
  shows "rest = [] \<and> r_status rq' \<noteq> PTERM \<and> r_status rq' \<noteq> NEW \<and> r_header_size rq' = r_header_size rq \<and>
    (b \<noteq> [] \<longrightarrow> read_on (sized m rq) (a @ b) = read_on (sized m rq') b)"
proof (cases "r_status rq = RLINE")
  case False
  then have "header_lines rq a = (0, rq', rest)" using assms(1) by (simp add: read_on_def)
  from header_lines_pause_sized [OF this, of b m] assms False show ?thesis by (auto simp: read_on_def)
next
  case True
  then have rl: "read_line rq a = Inr (0, rq', rest)" using assms(1) by (simp add: read_on_def)
  obtain r rq2 a1 where gl: "getLine rq a = (r, rq2, a1)" by (cases "getLine rq a") auto
  show ?thesis
  proof (cases "r = 0")
    case False
    then have a1: "a1 = []" and more: "getLine rq (a @ b) = getLine rq2 b"
      using getLine_resume [OF gl] by simp_all
    have "rq' = rq2" "rest = []"
      using rl gl False a1 checkSizes_nonneg by (fastforce simp: read_line_def split: prod.splits)+
    moreover have "getLine (sized m rq) (a @ b) = getLine (sized m rq2) b"
      using more getLine_sized by (metis prod_cases3)
    ultimately show ?thesis using True getLine_keeps [OF gl] by (simp add: read_on_def read_line_def)
  next
    case r: True
    obtain rq3 where p: "length (r_line rq2) \<le> BUFFER_SIZE" "parseRequestLine rq2 = Inr (0, rq3)"
      and h: "header_lines (rq3\<lparr>r_line := [], r_status := ONGOING\<rparr>) a1 = (0, rq', rest)"
      using read_line_complete [OF gl [unfolded r] rl] by auto
    from header_lines_pause_sized [OF h, of b m] read_line_more [OF gl [unfolded r] p, of m b] True
      getLine_keeps [OF gl] parseRequestLine_keeps [OF p(2)]
    show ?thesis by (auto simp: read_on_def)
  qed
qed

lemma read_on_finish:
  assumes "read_on rq a = Inr (res, rq', rest)" and "res < 0"
  shows "read_on (sized m rq) (a @ b) = Inr (res, sized m rq', rest @ b)"
proof (cases "r_status rq = RLINE")
  case False
  with assms header_lines_finish_sized [of rq a res rq' rest m b] show ?thesis by (auto simp: read_on_def)
next
  case True
  then have rl: "read_line rq a = Inr (res, rq', rest)" using assms(1) by (simp add: read_on_def)
  obtain r rq2 a1 where gl: "getLine rq a = (r, rq2, a1)" by (cases "getLine rq a") auto
  have r: "r = 0"
    using rl gl checkSizes_nonneg [of rq2] assms(2) by (fastforce simp: read_line_def split: prod.splits if_splits)
  obtain rq3 where p: "length (r_line rq2) \<le> BUFFER_SIZE" "parseRequestLine rq2 = Inr (0, rq3)"
    and h: "header_lines (rq3\<lparr>r_line := [], r_status := ONGOING\<rparr>) a1 = (res, rq', rest)"
    using read_line_complete [OF gl [unfolded r] rl] assms(2) by auto
  from header_lines_finish_sized [OF h assms(2), of m b] read_line_more [OF gl [unfolded r] p, of m b] True
  show ?thesis by (simp add: read_on_def)
qed

section \<open>The whole head in pieces\<close>

text \<open>
  The parser with the counter of bytes, which a complete head does not need any more, set to 0
  there; a fault counts as a rejection.
\<close>

definition parse_head :: "Request \<Rightarrow> string \<Rightarrow> int \<times> Request \<times> string" where
  "parse_head rq buffer =
     (case parseHeaders rq buffer of
        Inl e \<Rightarrow> (1, new_Request, [])
      | Inr (res, rq', rest) \<Rightarrow> (res, if res < 0 then sized 0 rq' else rq', rest))"

lemma i32_add_both: "i32 (i32 (n + x) + y) = i32 (n + (x + y))"
  by (simp add: i32_add_i32 add.assoc)

lemma strip_append:
  "strip (a @ b) = (if strip a = [] then strip b else strip a @ b)"
  by (auto simp: strip_def dropWhile_append dropWhile_eq_Nil_conv)

lemma parseHeaders_pause:
  assumes "parseHeaders rq a = Inr (0, rq', rest)" and "r_status rq \<noteq> PTERM"
  shows "rest = [] \<and> r_status rq' \<noteq> PTERM \<and> (b \<noteq> [] \<longrightarrow> parseHeaders rq (a @ b) = parseHeaders rq' b)"
proof (cases "r_status rq = NEW")
  case False
  let ?n = "i32 (r_header_size rq + int (length a))"
  let ?m = "i32 (r_header_size rq + int (length (a @ b)))"
  have r: "read_on (sized ?n rq) a = Inr (0, rq', rest)"
    using assms False by (simp add: parseHeaders_read Let_def)
  from read_on_pause [OF this, of b ?m] assms(2) False have p: "rest = []" "r_status rq' \<noteq> PTERM" "r_status rq' \<noteq> NEW"
    "r_header_size rq' = ?n" "b \<noteq> [] \<Longrightarrow> read_on (sized ?m rq) (a @ b) = read_on (sized ?m rq') b" by simp_all
  then have "i32 (r_header_size rq' + int (length b)) = ?m" by (simp add: i32_add_both add.assoc)
  then show ?thesis using p assms(2) False by (simp add: parseHeaders_read [of rq] parseHeaders_read [of rq'] Let_def)
next
  case new: True
  show ?thesis
  proof (cases "strip a = []")
    case True
    let ?n = "i32 (r_header_size rq + int (length a))"
    have "rq' = sized ?n rq" "rest = []"
      using assms new True checkSizes_nonneg [of "sized ?n rq"]
      by (fastforce simp: parseHeaders_read Let_def split: prod.splits)+
    then show ?thesis using new True
      by (simp add: parseHeaders_read [of rq] parseHeaders_read [of "sized _ _"] strip_append Let_def i32_add_both add.assoc)
  next
    case False
    let ?r = "rq\<lparr>r_status := RLINE\<rparr>"
    let ?n = "i32 (int (length (strip a)))"
    let ?m = "i32 (int (length (strip a @ b)))"
    have r: "read_on (sized ?n ?r) (strip a) = Inr (0, rq', rest)"
      using assms new False by (simp add: parseHeaders_read Let_def)
    from read_on_pause [OF this, of b ?m] have p: "rest = []" "r_status rq' \<noteq> PTERM" "r_status rq' \<noteq> NEW"
      "r_header_size rq' = ?n" "b \<noteq> [] \<Longrightarrow> read_on (sized ?m ?r) (strip a @ b) = read_on (sized ?m rq') b" by simp_all
    then have "i32 (r_header_size rq' + int (length b)) = ?m" using i32_add_both [of 0] by simp
    then show ?thesis using p new False
      by (simp add: parseHeaders_read [of rq] parseHeaders_read [of rq'] strip_append Let_def)
  qed
qed
lemma parseHeaders_finish:
  assumes "parseHeaders rq a = Inr (res, rq', rest)" and "res < 0"
  shows "\<exists>m. parseHeaders rq (a @ b) = Inr (res, sized m rq', rest @ b)"
proof -
  have st: "r_status rq \<noteq> PTERM" using assms by (auto simp: parseHeaders_def)
  show ?thesis
  proof (cases "r_status rq = NEW")
    case False
    then have "read_on (sized (i32 (r_header_size rq + int (length a))) rq) a = Inr (res, rq', rest)"
      using assms(1) st by (simp add: parseHeaders_read Let_def)
    from read_on_finish [OF this assms(2), of "i32 (r_header_size rq + int (length (a @ b)))" b] st False
    show ?thesis by (auto simp: parseHeaders_read [of rq] Let_def)
  next
    case new: True
    have ne: "strip a \<noteq> []"
    proof
      assume "strip a = []"
      with assms new show False
        using checkSizes_nonneg [of "sized (i32 (r_header_size rq + int (length a))) rq"]
        by (auto simp: parseHeaders_read Let_def split: prod.splits)
    qed
    then have "read_on (sized (i32 (int (length (strip a)))) (rq\<lparr>r_status := RLINE\<rparr>)) (strip a) = Inr (res, rq', rest)"
      using assms(1) new by (simp add: parseHeaders_read Let_def)
    from read_on_finish [OF this assms(2), of "i32 (int (length (strip a @ b)))" b] new ne
    show ?thesis by (auto simp: parseHeaders_read [of rq] Let_def strip_append)
  qed
qed

interpretation head_feed: resumable parse_head "\<lambda>rq. r_status rq \<noteq> PTERM"
proof
  fix s s' :: Request and a rest b and res :: int
  assume ok: "r_status s \<noteq> PTERM"
  show "r_status s' \<noteq> PTERM \<and> rest = []" if "parse_head s a = (0, s', rest)"
    using that ok parseHeaders_pause [of s a s' rest] by (auto simp: parse_head_def split: sum.splits prod.splits)
  show "parse_head s (a @ b) = parse_head s' b" if "parse_head s a = (0, s', rest)" "b \<noteq> []"
    using that ok parseHeaders_pause [of s a s' rest b] by (auto simp: parse_head_def split: sum.splits prod.splits)
  show "parse_head s (a @ b) = (res, s', rest @ b)" if "parse_head s a = (res, s', rest)" "res < 0"
    using that parseHeaders_finish [of s a res _ rest b] by (fastforce simp: parse_head_def split: sum.splits prod.splits if_splits)
qed

section \<open>A head that fits the buffer is never turned down before its end\<close>

text \<open>Everything received so far is small.\<close>

definition small :: "Request \<Rightarrow> string \<Rightarrow> bool" where
  "small rq a \<longleftrightarrow> length (r_line rq) + length a \<le> BUFFER_SIZE \<and> r_header_size rq \<le> int BUFFER_SIZE"

lemma small_checkSizes:
  "small rq [] \<Longrightarrow> r_status rq \<noteq> PTERM \<Longrightarrow> r_trailer_status rq \<noteq> ONGOING \<Longrightarrow> checkSizes rq = (0, rq)"
  by (auto simp: small_def checkSizes_def BUFFER_SIZE_def HEADER_MAX_BUFFER_def)

lemma header_lines_waits:
  "header_lines rq (a @ b) = (-1, rq', rest) \<Longrightarrow> length rest < length b \<Longrightarrow> small rq a \<Longrightarrow>
   r_status rq = ONGOING \<Longrightarrow> r_trailer_status rq \<noteq> ONGOING \<Longrightarrow> \<exists>rq1. header_lines rq a = (0, rq1, [])"
proof (induction rq a arbitrary: rq' rule: header_lines.induct)
  case (1 rq a)
  show ?case
  proof (cases "a = []")
    case True
    with "1.prems" small_checkSizes [of rq] show ?thesis by (simp add: header_lines.simps [of rq "[]"])
  next
    case False
    obtain r rq1 a1 where gl: "getLine rq a = (r, rq1, a1)" by (cases "getLine rq a") auto
    show ?thesis
    proof (cases "r = 0")
      case True
      then have more: "getLine rq (a @ b) = (0, rq1, a1 @ b)" using gl getLine_more by simp
      show ?thesis
      proof (cases "r_line rq1 = []")
        case True
        then have "rest = a1 @ b" using "1.prems"(1) more False by (simp add: header_lines.simps [of rq "a @ b"])
        with "1.prems"(2) show ?thesis by simp
      next
        case ne: False
        obtain e rq2 where hl: "header_line rq1 = (e, rq2)" by (cases "header_line rq1")
        have e: "e = 0" and rec: "header_lines rq2 (a1 @ b) = (-1, rq', rest)"
          using "1.prems"(1) False more ne hl header_line_nonneg [OF hl]
          by (simp_all add: header_lines.simps [of rq "a @ b"] split: if_splits)
        have "small rq2 a1 \<and> r_trailer_status rq2 \<noteq> ONGOING"
          using "1.prems"(3,5) gl hl [unfolded e] True
          by (auto simp: small_def getLine_def Let_def header_line_def fillError_def
              split: option.splits prod.splits if_splits)
        with "1.IH" [OF False gl [symmetric] refl _ ne hl [symmetric] _ rec "1.prems"(2)] e True
          header_line_sized [OF hl [unfolded e]] getLine_keeps [OF gl] "1.prems"(4)
        obtain rq3 where "header_lines rq2 a1 = (0, rq3, [])" by auto
        then show ?thesis using False gl True ne hl e by (simp add: header_lines.simps [of rq a])
      qed
    next
      case nz: False
      then have "a1 = []" "r_line rq1 = r_line rq @ a" "r_status rq1 = r_status rq" "r_header_size rq1 = r_header_size rq"
        "r_trailer_status rq1 = r_trailer_status rq"
        using gl by (auto simp: getLine_def Let_def split: option.splits)
      moreover from this "1.prems"(3-5) have "checkSizes rq1 = (0, rq1)"
        by (intro small_checkSizes) (simp_all add: small_def)
      ultimately show ?thesis using False gl nz by (simp add: header_lines.simps [of rq a])
    qed
  qed
qed

lemma parseHeaders_waits:
  assumes "parseHeaders new_Request (p @ q) = Inr (-1, rq', rest)" and "length rest < length q"
    and "length p \<le> BUFFER_SIZE"
  shows "\<exists>rq1. parseHeaders new_Request p = Inr (0, rq1, [])"
proof -
  have new: "r_status new_Request = NEW" "r_header_size new_Request = 0" "r_line new_Request = []"
    "r_trailer_status new_Request = PTERM" by (simp_all add: new_Request_def)
  have fits: "i32 (int k) \<le> int BUFFER_SIZE" if "k \<le> BUFFER_SIZE" for k
    using that by (simp add: i32_id in_i32_def BUFFER_SIZE_def)
  show ?thesis
  proof (cases "strip p = []")
    case True
    have "checkSizes (sized (i32 (int (length p))) new_Request) = (0, sized (i32 (int (length p))) new_Request)"
      using fits [OF assms(3)] by (intro small_checkSizes) (simp_all add: small_def new)
    then show ?thesis using True by (simp add: parseHeaders_read new Let_def)
  next
    case False
    have len: "length (strip p) \<le> BUFFER_SIZE" using assms(3) length_dropWhile_le [of _ p] unfolding strip_def by (rule order_trans [rotated])
    let ?r = "\<lambda>m. sized m (new_Request\<lparr>r_status := RLINE\<rparr>)"
    let ?n = "i32 (int (length (strip p)))" and ?m = "i32 (int (length (strip p @ q)))"
    have whole: "read_line (?r ?m) (strip p @ q) = Inr (-1, rq', rest)"
      using assms(1) False by (simp add: parseHeaders_read new Let_def strip_append read_on_def)
    have part: "parseHeaders new_Request p = read_line (?r ?n) (strip p)"
      using False by (simp add: parseHeaders_read new Let_def read_on_def)
    obtain r rq2 a1 where gl: "getLine (?r ?n) (strip p) = (r, rq2, a1)" by (cases "getLine (?r ?n) (strip p)") auto
    show ?thesis
    proof (cases "r = 0")
      case nz: False
      then have "a1 = []" "r_status rq2 = RLINE" "r_trailer_status rq2 = PTERM"
        using gl new by (auto simp: getLine_def Let_def split: option.splits)
      moreover from this have "checkSizes rq2 = (0, rq2)" by (simp add: checkSizes_def)
      ultimately show ?thesis using gl nz by (simp add: part read_line_def)
    next
      case True
      have more: "getLine (?r ?m) (strip p @ q) = (0, sized ?m rq2, a1 @ q)"
        using getLine_more [OF getLine_sized [OF gl [unfolded True], of ?m]] by simp
      obtain rq3 where w: "length (r_line (sized ?m rq2)) \<le> BUFFER_SIZE"
        "parseRequestLine (sized ?m rq2) = Inr (0, rq3)"
        "header_lines (rq3\<lparr>r_line := [], r_status := ONGOING\<rparr>) (a1 @ q) = (-1, rq', rest)"
        using read_line_complete [OF more whole] by auto
      have "parseRequestLine (sized ?n (sized ?m rq2)) = Inr (0, sized ?n rq3)"
        by (simp only: parseRequestLine_sized [of ?n "sized ?m rq2"] w(2)) simp
      moreover have "sized ?n (sized ?m rq2) = rq2" using getLine_keeps [OF gl] by simp
      ultimately have p: "parseRequestLine rq2 = Inr (0, sized ?n rq3)" by simp
      let ?h = "sized ?n (rq3\<lparr>r_line := [], r_status := ONGOING\<rparr>)"
      have "header_lines ?h (a1 @ q) = (-1, sized ?n rq', rest)"
        using header_lines_finish_sized [OF w(3), of ?n "[]"] by simp
      moreover have "length a1 \<le> length (strip p)" "r_trailer_status rq3 = PTERM"
        using getLine_keeps [OF gl] parseRequestLine_keeps [OF w(2)] new by simp_all
      then have "small ?h a1" "r_status ?h = ONGOING" "r_trailer_status ?h \<noteq> ONGOING"
        using len fits [OF len] by (simp_all add: small_def)
      ultimately obtain rq1 where "header_lines ?h a1 = (0, rq1, [])"
        using header_lines_waits assms(2) by blast
      then show ?thesis using gl True w(1) p by (simp add: part read_line_def sized_swap)
    qed
  qed
qed

lemma parse_head_waits:
  assumes "parse_head new_Request (p @ q) = (-1, rq', [])" and "q \<noteq> []" and "length p \<le> BUFFER_SIZE"
  shows "\<exists>rq1. parse_head new_Request p = (0, rq1, [])"
proof -
  obtain rq2 where "parseHeaders new_Request (p @ q) = Inr (-1, rq2, [])"
    using assms(1) by (auto simp: parse_head_def split: sum.splits prod.splits if_splits)
  from parseHeaders_waits [OF this _ assms(3)] assms(2) show ?thesis
    by (auto simp: parse_head_def)
qed

text \<open>A head that fits the buffer and is accepted alone is accepted in pieces.\<close>

lemma head_fed:
  "parse_head new_Request head = (-1, rq', []) \<Longrightarrow> length head \<le> BUFFER_SIZE \<Longrightarrow>
   p = [] \<and> s = new_Request \<or> parse_head new_Request p = (0, s, []) \<Longrightarrow> length p < length head \<Longrightarrow>
   p @ concat cs = head @ t \<Longrightarrow> [] \<notin> set cs \<Longrightarrow> feed_all parse_head s cs = (-1, rq', t)"
proof (induction cs arbitrary: p s)
  case Nil
  then show ?case by (metis append_Nil2 concat.simps(1) length_append linorder_not_less le_add1)
next
  case (Cons c cs)
  have new: "r_status new_Request \<noteq> PTERM" by (simp add: new_Request_def)
  have c: "c \<noteq> []" "[] \<notin> set cs" using Cons.prems(6) by auto
  have step: "parse_head s c = parse_head new_Request (p @ c)"
    using Cons.prems(3) head_feed.resume [OF new _ c(1), of p s "[]"] by auto
  from Cons.prems(5) have "(p @ c) @ concat cs = head @ t" by simp
  then obtain us where "p @ c = head @ us \<and> us @ concat cs = t \<or> (p @ c) @ us = head \<and> concat cs = us @ t"
    unfolding append_eq_append_conv2 by blast
  then consider v where "p @ c = head @ v" "t = v @ concat cs" | v where "head = (p @ c) @ v" "v \<noteq> []" "concat cs = v @ t"
    by (cases "us = []") auto
  then show ?case
  proof cases
    case 1
    from head_feed.finish [OF new Cons.prems(1), of v] 1 step show ?thesis by simp
  next
    case 2
    then have small: "length (p @ c) < length head" by simp
    then have "length (p @ c) \<le> BUFFER_SIZE" using Cons.prems(2) by simp
    from parse_head_waits [OF Cons.prems(1) [unfolded 2(1)] 2(2) this]
    obtain s1 where s1: "parse_head new_Request (p @ c) = (0, s1, [])" by blast
    have "feed_all parse_head s1 cs = (-1, rq', t)"
      using 2 Cons.prems(1,2) s1 small c(2) by (intro Cons.IH [of "p @ c"]) simp_all
    with step s1 show ?thesis by simp
  qed
qed

text \<open>
  C19. However the network cuts the head of a request into pieces, the request line included:
  if no piece is rejected, the outcome (finished or waiting for more), the parsed request and
  the unread bytes are those of parsing all of it at once; and a head of at most 4000 bytes
  that is accepted when it comes alone is accepted in any pieces, with the same request, and
  what follows it is left unread. Larger heads may be rejected at some cuts and not at others.
\<close>

theorem head_any_cut:
  assumes "[] \<notin> set (c # cs)" and "r_status rq \<noteq> PTERM"
  shows "(feed_all parse_head rq (c # cs) = (res, rq', rest) \<and> res \<le> 0 \<longrightarrow>
      parse_head rq (concat (c # cs)) = (res, rq', rest)) \<and>
    (rq = new_Request \<and> concat (c # cs) = head @ t \<and> length head \<le> BUFFER_SIZE \<and>
      parse_head rq head = (-1, rq1, []) \<longrightarrow> feed_all parse_head rq (c # cs) = (-1, rq1, t))"
proof (intro conjI impI; elim conjE)
  assume "feed_all parse_head rq (c # cs) = (res, rq', rest)" "res \<le> 0"
  then show "parse_head rq (concat (c # cs)) = (res, rq', rest)"
    using head_feed.feed_all_concat [OF assms(2) _ _ assms(1)] by simp
next
  assume h: "rq = new_Request" "concat (c # cs) = head @ t" "length head \<le> BUFFER_SIZE"
    and p: "parse_head rq head = (-1, rq1, [])"
  have "fst (parse_head new_Request []) = 0" by code_simp
  then have "head \<noteq> []" using p h(1) by auto
  then show "feed_all parse_head rq (c # cs) = (-1, rq1, t)"
    using head_fed [of head rq1 "[]" rq "c # cs" t] p h assms(1) by simp
qed

definition demo_head :: string where
  "demo_head = ''  GET /a HTTP/1.1'' @ CRLF @ ''Host: h'' @ CRLF @ CRLF"

definition demo_cuts :: "string list" where
  "demo_cuts = [''T /a HTTP/1.1'' @ [CHR 0x0D], [CHR 0x0A] @ ''Ho'', ''st: h'' @ CRLF @ CRLF @ ''x'']"

definition demo_parsed :: Request where
  "demo_parsed = new_Request\<lparr>r_headers := [(''Host'', ''h'')], r_uri := ''/a'', r_status := PTERM, r_final_status := HOST,
      r_method := Some GET\<rparr>"

theorem head_any_cut_witness:
  "parse_head new_Request (concat (''  GE'' # demo_cuts)) = (-1, demo_parsed, ''x'') \<and>
   feed_all parse_head new_Request (''  GE'' # demo_cuts) = (-1, demo_parsed, ''x'')"
proof -
  have "feed_all parse_head new_Request (''  GE'' # demo_cuts) = (-1, demo_parsed, ''x'')" by code_simp
  moreover have "parse_head new_Request demo_head = (-1, demo_parsed, [])" by code_simp
  moreover have "length demo_head \<le> BUFFER_SIZE" by code_simp
  moreover have "concat (''  GE'' # demo_cuts) = demo_head @ ''x''" by (simp add: demo_head_def demo_cuts_def CRLF_def)
  moreover have "r_status new_Request \<noteq> PTERM" by (simp add: new_Request_def)
  moreover have "[] \<notin> set (''  GE'' # demo_cuts)" by (simp add: demo_cuts_def)
  ultimately show ?thesis
    using head_any_cut [of "''  GE''" demo_cuts new_Request "-1" demo_parsed "''x''" demo_head "''x''" demo_parsed] by auto
qed

end
