(* ===== verification/Exchange.thy ===== *)
theory Exchange
  imports Control Head
begin

text \<open>
  A client and its answers, end to end. An ordinary request for a file (\<open>get_request\<close>) goes
  through the parser, the binding to its host, the checks, the choice of the response and the
  queue, event by event. The lemmas follow \<open>handleClientEvent\<close> from one state of a
  connection to the next (\<open>awaiting\<close>, \<open>answering_get\<close>, \<open>between_requests\<close>); the result is that a
  burst of requests is answered in order, whatever way its first head is cut and whatever pieces
  the answers leave in. \<open>Service\<close> puts the server around it.
\<close>

section \<open>An ordinary request\<close>

text \<open>The extension of a file name, with its dot.\<close>

definition file_extension :: "string \<Rightarrow> string" where
  "file_extension name = (case rfind_sub ''.'' name of None \<Rightarrow> [] | Some i \<Rightarrow> drop i name)"

lemma prunePath_extension:
  "u_filename (prunePath u) \<noteq> [] \<Longrightarrow> u_extension (prunePath u) = file_extension (u_filename (prunePath u))"
  by (auto simp: prunePath_def Let_def file_extension_def cong del: option.case_cong_weak split: if_splits)

lemma file_extension_subset: "set (file_extension name) \<subseteq> set name"
  by (auto simp: file_extension_def split: option.splits dest: in_set_dropD)

lemma parseURI_file:
  assumes "v \<noteq> []" "list_all clean_segment v" "\<forall>c \<in> set q. c \<notin> set '':@''"
    and "r_uri rq = request_uri v q"
  obtains u where "parseURI rq = (0, set_uri_parts u rq)" "u_path u = join_path v"
    "u_extension u = file_extension (last v)" "u_pathInfo u = []" "u_extension u \<noteq> ''/''"
proof -
  let ?u = "(puri rq)\<lparr>u_pathInfo := [], u_path := join_path v, u_query := q\<rparr>"
  let ?p = "prunePath ?u"
  have "checkPath ?u = (0, ?u)" by (rule checkPath_plain [OF assms(1) clean_plain [OF assms(2)]]) simp
  then have run: "parseURI rq = (0, set_uri_parts (prunePercent ?p) rq)"
    using request_uri_pruned [OF assms(1) clean_plain [OF assms(2)] assms(3)] by (simp add: parseURI_def Let_def assms(4))
  have last: "clean_segment (last v)" using assms(1,2) by (simp add: list_all_iff)
  have p: "u_path ?p = join_path v" "u_filename ?p = last v" "u_pathInfo ?p = []"
    using prunePath_clean [OF assms(1,2), of ?u] by simp_all
  then have ext: "u_extension ?p = file_extension (last v)"
    using prunePath_extension [of ?u] last by (simp add: clean_segment_def plain_segment_def)
  have "CHR ''%'' \<notin> set (join_path v)"
    using set_join_path [OF assms(1)] assms(2) by (auto simp: list_all_iff clean_segment_def)
  moreover have "CHR ''%'' \<notin> set (last v)" using last unfolding clean_segment_def by fastforce
  then have "CHR ''%'' \<notin> set (file_extension (last v))" using file_extension_subset [of "last v"] by blast
  moreover have "file_extension (last v) \<noteq> ''/''"
    using file_extension_subset [of "last v"] clean_no_slash [OF last] by auto
  ultimately have "u_path (prunePercent ?p) = join_path v" "u_extension (prunePercent ?p) = file_extension (last v)"
    "u_pathInfo (prunePercent ?p) = []" "u_extension (prunePercent ?p) \<noteq> ''/''"
    using p ext by (simp_all add: prunePercent_def translatePercent_plain)
  with run show ?thesis by (rule that)
qed

record get_request =
  gr_path :: "string list"
  gr_query :: string
  gr_headers :: header_map

definition get_uri :: "get_request \<Rightarrow> string" where
  "get_uri r = request_uri (gr_path r) (gr_query r)"

definition get_text :: "get_request \<Rightarrow> string" where
  "get_text r =
     request_line GET (get_uri r) @ CRLF @ concat (map format_header (gr_headers r)) @ CRLF"

text \<open>
  A request for a file: ordinary segments, any query without colon and at-sign, a \<open>Host\<close>
  header, and none of the headers that make the server treat a request specially.
\<close>

definition special_headers :: "string list" where
  "special_headers = [''accept-ranges'', ''content-encoding'', ''transfer-encoding'', ''content-length'',
     ''content-type'', ''expect'']"

definition plain_get :: "string \<Rightarrow> get_request \<Rightarrow> bool" where
  "plain_get name r \<longleftrightarrow>
     gr_path r \<noteq> [] \<and> list_all clean_segment (gr_path r) \<and> (\<forall>c \<in> set (gr_query r). c \<notin> set '':@'') \<and>
     uri_ok (get_uri r) \<and> map_ordered i_less (gr_headers r) \<and> list_all header_ok (gr_headers r) \<and>
     list_all (\<lambda>k. map_find i_less k (gr_headers r) = None) special_headers \<and>
     map_find i_less ''host'' (gr_headers r) = Some name"

text \<open>The host serves the file: rules, file system and content.\<close>

definition serves_file :: "system \<Rightarrow> Host \<Rightarrow> get_request \<Rightarrow> string \<Rightarrow> bool" where
  "serves_file sys h r content \<longleftrightarrow>
     matchCGIConfig h (join_path (gr_path r)) = None \<and>
     (case matchLocation h (join_path (gr_path r)) of
        None \<Rightarrow> False
      | Some l \<Rightarrow>
          (let path = l_root l @ join_path (gr_path r) in
           l_redir l = 0 \<and> method_allowed (l_methods l) GET \<and> stat_kind sys path = Some Regular \<and>
           sys_access sys (c_str path) R_OK \<and> file_bytes sys path = Some content \<and>
           length content < 2 ^ 64))"

definition parsed_get :: "get_request \<Rightarrow> int \<Rightarrow> Request" where
  "parsed_get r n =
     new_Request\<lparr>r_headers := gr_headers r, r_uri := get_uri r, r_status := PTERM, r_header_size := n,
       r_final_status := HOST, r_method := Some GET\<rparr>"

lemma parseHeaders_get:
  "plain_get name r \<Longrightarrow> \<exists>n. parseHeaders new_Request (get_text r @ rest) = Inr (-1, parsed_get r n, rest)"
  using parseHeaders_printed [of "gr_headers r" "get_uri r" GET rest]
  by (simp add: plain_get_def get_text_def parsed_get_def)

lemma plain_get_headers:
  assumes "plain_get name r" and "r_headers rq = gr_headers r"
  shows "getHeader rq ''accept-ranges'' = []" "\<not> checkHeader rq ''content-encoding''"
    "\<not> checkHeader rq ''transfer-encoding''" "getHeader rq ''transfer-encoding'' = []"
    "\<not> checkHeader rq ''content-length''" "\<not> checkHeader rq ''content-type''"
    "getHeader rq ''expect'' = []" "checkHeader rq ''host''" "getHeader rq ''host'' = name"
  using assms by (simp_all add: plain_get_def special_headers_def getHeader_def checkHeader_def map_at_def)

section \<open>The checks accept it\<close>

text \<open>The request once the rules of its host are known.\<close>

definition resolved_get :: "get_request \<Rightarrow> int \<Rightarrow> URI \<Rightarrow> Location \<Rightarrow> Request" where
  "resolved_get r n u l =
     (parsed_get r n)\<lparr>r_type := REQ_TYPE_STATIC, r_hints := new_ResHints\<lparr>h_parsedUri := u,
        h_locationRules := Some l, h_path := l_root l @ join_path (gr_path r)\<rparr>\<rparr>"

lemma matchRequest_get:
  assumes "matchLocation h (join_path (gr_path r)) = Some l" and "matchCGIConfig h (join_path (gr_path r)) = None"
    and "u_path u = join_path (gr_path r)" and "u_extension u \<noteq> ''/''"
  shows "matchRequest h (set_uri_parts u (parsed_get r n)) =
    Inr (0, set_type REQ_TYPE_STATIC (upd_hints (\<lambda>h. h\<lparr>h_parsedUri := u, h_locationRules := Some l\<rparr>) (parsed_get r n)))"
  using assms by (simp add: matchRequest_def setter_defs parsed_get_def new_Request_def new_ResHints_def)

lemma checkRequest_get:
  assumes "serves_file sys h r content" and "matchLocation h (join_path (gr_path r)) = Some l"
    and "u_path u = join_path (gr_path r)" and "u_extension u \<noteq> ''/''"
  shows "checkRequest sys h (set_uri_parts u (parsed_get r n)) = Inr (0, resolved_get r n u l)"
proof -
  let ?path = "l_root l @ join_path (gr_path r)"
  have f: "matchCGIConfig h (join_path (gr_path r)) = None" "l_redir l = 0" "method_allowed (l_methods l) GET"
    "stat_kind sys ?path = Some Regular" "sys_access sys (c_str ?path) R_OK"
    using assms(1,2) by (simp_all add: serves_file_def Let_def)
  let ?rq = "set_type REQ_TYPE_STATIC (upd_hints (\<lambda>h. h\<lparr>h_parsedUri := u, h_locationRules := Some l\<rparr>) (parsed_get r n))"
  have rq: "locationRules ?rq = Some l" "r_type ?rq = REQ_TYPE_STATIC" "r_method ?rq = Some GET"
    "puri ?rq = u"
    by (simp_all add: set_type_def parsed_get_def)
  have "checkRedirection ?rq = Inr (0, ?rq)" using rq f(2) by (simp add: checkRedirection_def)
  moreover have "checkLocationRules ?rq = Inr (0, ?rq)"
    using rq f(3) by (simp add: checkLocationRules_def method_bit_def)
  moreover have "checkRessourcePath sys ?path REQ_TYPE_STATIC R_OK = 0"
    using f(4,5) by (simp add: checkRessourcePath_ok)
  then have "checkRessourceExistence sys ?rq = Inr (0, resolved_get r n u l)"
    using rq assms(3)
    by (simp add: checkRessourceExistence_def Let_def)
      (simp add: resolved_get_def set_type_def parsed_get_def new_Request_def new_ResHints_def)
  ultimately show ?thesis
    unfolding checkRequest_def matchRequest_get [OF assms(2) f(1) assms(3,4)]
    by (simp add: step_if_def rq)
qed

section \<open>Reading it\<close>

text \<open>
  The host the client is bound to when it asks for \<open>name\<close>: the world after the call, and the
  host, one of whose names it is, so that asking again changes nothing.
\<close>

definition binds :: "nat \<Rightarrow> string \<Rightarrow> world \<Rightarrow> world \<Rightarrow> Host \<Rightarrow> bool" where
  "binds d name w w' h \<longleftrightarrow> setHost d name w = Inr w' \<and>
     (\<exists>i s. map_of (w_links w') d = Some (Some i, s) \<and> host_at w' i = Some h \<and> checkServerName h name)"

lemma binds_again: "binds d name w w' h \<Longrightarrow> binds d name w' w' h"
  by (auto simp: binds_def setHost_def)

lemma binds_host:
  "binds d name w w' h \<Longrightarrow> cl_id (s_client s) = d \<Longrightarrow> s_world s = w' \<Longrightarrow> getHost s = Inr (Some h)"
  by (auto simp: binds_def getHost_def)

text \<open>The session once the headers are accepted.\<close>

definition accepted_get :: "world \<Rightarrow> Request \<Rightarrow> session \<Rightarrow> session" where
  "accepted_get w rq s =
     upd_client (\<lambda>c. c\<lparr>cl_request := Some rq, cl_bodyFileName := [], cl_bodyStream := None,
        cl_headerStatus := HEADER_STATUS_DONE\<rparr>) (s\<lparr>s_world := w\<rparr>)"

lemma headers_of_get:
  assumes "plain_get name r" and "serves_file sys h r content"
    and "binds (cl_id (s_client s)) name (s_world s) w h"
    and "getRequest s = parsed_get r n"
  obtains u l where "handleRequestHeaders sys s = Inr (0, accepted_get w (resolved_get r n u l) s)"
    and "matchLocation h (join_path (gr_path r)) = Some l" and "u_extension u = file_extension (last (gr_path r))"
proof -
  obtain l where l: "matchLocation h (join_path (gr_path r)) = Some l"
    using assms(2) by (auto simp: serves_file_def split: option.splits)
  have "gr_path r \<noteq> []" "list_all clean_segment (gr_path r)" "\<forall>c \<in> set (gr_query r). c \<notin> set '':@''"
    "r_uri (parsed_get r n) = request_uri (gr_path r) (gr_query r)"
    using assms(1) by (simp_all add: plain_get_def parsed_get_def get_uri_def)
  from parseURI_file [OF this] obtain u where u: "parseURI (parsed_get r n) = (0, set_uri_parts u (parsed_get r n))"
    "u_path u = join_path (gr_path r)" "u_extension u = file_extension (last (gr_path r))" "u_extension u \<noteq> ''/''"
    by metis
  let ?s1 = "s\<lparr>s_world := w\<rparr>"
  let ?rq = "set_uri_parts u (parsed_get r n)"
  let ?s2 = "?s1\<lparr>s_client := (s_client s)\<lparr>cl_request := Some ?rq\<rparr>\<rparr>"
  have rh: "r_headers (parsed_get r n) = gr_headers r" "r_headers ?rq = gr_headers r"
    "r_headers (resolved_get r n u l) = gr_headers r" by (simp_all add: parsed_get_def resolved_get_def)
  note hd1 = plain_get_headers [OF assms(1) rh(1)] and hd2 = plain_get_headers [OF assms(1) rh(2)]
    and hd3 = plain_get_headers [OF assms(1) rh(3)]
  have a: "assignHost s = Inr (0, ?s1)"
    using assms(3) by (simp add: assignHost_def assms(4) hd1 binds_def)
  have req: "getRequest ?s1 = parsed_get r n" using assms(4) by (simp add: getRequest_def)
  have host: "getHost ?s1 = Inr (Some h)" by (rule binds_host [OF assms(3)]) simp_all
  have rq2: "getRequest (?s1\<lparr>s_client := (s_client s)\<lparr>cl_request := Some x\<rparr>\<rparr>) = x"
    "getRequest (?s1\<lparr>s_client := (s_client s)\<lparr>cl_request := Some x, cl_bodyFileName := b, cl_bodyStream := st\<rparr>\<rparr>) = x" for x b st
    by (simp_all add: getRequest_def)
  have len: "checkBodyLength ?s2 = Inr (0, ?s2)"
    by (simp add: checkBodyLength_def Let_def host rq2 hd2)
  have chk: "check_host_request sys ?s2 = Inr (0, ?s1\<lparr>s_client := (s_client s)\<lparr>cl_request := Some (resolved_get r n u l)\<rparr>\<rparr>)"
    using checkRequest_get [OF assms(2) l u(2,4), of n]
    by (simp add: check_host_request_def host rq2 on_request_def)
  have redir: "h_cgiRedir (r_hints (parsed_get r n)) = CGI_RES_NONE" "h_cgiRedir (r_hints (resolved_get r n u l)) = CGI_RES_NONE"
    "r_type (resolved_get r n u l) = REQ_TYPE_STATIC" "r_method (resolved_get r n u l) = Some GET"
    by (simp_all add: parsed_get_def resolved_get_def new_Request_def new_ResHints_def)
  have bf: "upd_hints (h_bodyFileName_update (\<lambda>_. [])) (resolved_get r n u l) = resolved_get r n u l"
    by (simp add: resolved_get_def new_ResHints_def)
  let ?s3 = "?s1\<lparr>s_client := (s_client s)\<lparr>cl_request := Some (resolved_get r n u l)\<rparr>\<rparr>"
  have "checkContinue ?s3 = (0, ?s3)" by (simp add: checkContinue_def rq2 hd3)
  moreover have "defineBodyParsing sys ?s3 = Inr (0, upd_client (\<lambda>c. c\<lparr>cl_request := Some (resolved_get r n u l),
      cl_bodyFileName := [], cl_bodyStream := None\<rparr>) ?s1)"
    by (simp add: defineBodyParsing_def rq2 redir setBodyFile_def forward_content_type_def Let_def bf hd3)
  ultimately have fin: "finish_headers sys ?s3 = Inr (0, accepted_get w (resolved_get r n u l) s)"
    by (simp add: finish_headers_def rq2 redir accepted_get_def setHeaderStatus_def RES_CONTINUE_def)
  have "handleRequestHeaders sys s = Inr (0, accepted_get w (resolved_get r n u l) s)"
    unfolding handleRequestHeaders_def a
    by (simp add: pass_def on_request_def rq2 req u(1) checkForbiddenHeaders_def hd2 redir(1) len chk fin)
  then show ?thesis using l u(3) by (rule that)
qed

section \<open>Answering it\<close>

text \<open>
  A client that waits for the head of a request, and one that has none of it yet; what it has
  sent and was not read is in its buffer.
\<close>

definition awaiting :: "session \<Rightarrow> bool" where
  "awaiting s \<longleftrightarrow>
     (let c = s_client s in
      s_alive s \<and> cl_response c = None \<and> cl_headerStatus c = HEADER_STATUS_ONGOING \<and> cl_bodyStatus c = BODY_STATUS_NONE \<and>
      cl_mode c = CLIENT_MODE_READ \<and> cl_bodyStream c = None \<and> cl_outBuffers c = [] \<and> cl_cgiProcess c = None)"

definition between_requests :: "session \<Rightarrow> bool" where
  "between_requests s \<longleftrightarrow> awaiting s \<and> getRequest s = new_Request"

text \<open>The answer that is due: status line, headers with the length and the type of the file, the file.\<close>

definition file_answer :: "get_request \<Rightarrow> string \<Rightarrow> string \<Rightarrow> bool" where
  "file_answer r content out \<longleftrightarrow>
     (\<exists>hs. out = ''HTTP/1.1 200 OK'' @ CRLF @ concat (map format_header hs) @ CRLF @ content \<and>
        map_ordered i_less hs \<and>
        map_find i_less ''content-length'' hs = Some (itostr (int (length content))) \<and>
        map_find i_less ''content-type'' hs = mimeType (file_extension (last (gr_path r))) \<and>
        map_find i_less ''connection'' hs = Some (map_at i_less ''keep-alive'' ''connection'' (gr_headers r)))"

lemma content_keys:
  "ikey ''Content-Length'' = ikey ''content-length''" "ikey ''Content-Type'' = ikey ''content-type''"
  "ikey ''content-type'' \<noteq> ikey ''content-length''" "ikey ''content-length'' \<noteq> ikey ''content-type''"
  "ikey ''connection'' \<noteq> ikey ''content-type''" "ikey ''content-type'' \<noteq> ikey ''connection''"
  "ikey ''content-length'' \<noteq> ikey ''connection''"
  "ikey ''Date'' \<noteq> ikey ''content-type''" "ikey ''Date'' \<noteq> ikey ''connection''"
  "ikey ''Accept-Encoding'' \<noteq> ikey ''content-type''" "ikey ''Accept-Encoding'' \<noteq> ikey ''connection''"
  "ikey ''Accept-Ranges'' \<noteq> ikey ''content-type''" "ikey ''Accept-Ranges'' \<noteq> ikey ''connection''"
  by code_simp+

text \<open>The client that writes the answer: everything is ready for the next request after it.\<close>

definition answering_get :: "get_request \<Rightarrow> session \<Rightarrow> bool" where
  "answering_get r s \<longleftrightarrow>
     (let c = s_client s in
      s_alive s \<and>
      (\<exists>resp rq. cl_response c = Some resp \<and> cl_request c = Some rq \<and> rs_status resp = RES_OK \<and>
         getHeader rq ''expect'' = [] \<and>
         map_find i_less ''connection'' (h_headers (r_hints rq)) =
           Some (map_at i_less ''keep-alive'' ''connection'' (gr_headers r))) \<and>
      cl_bodyStatus c = BODY_STATUS_NONE \<and> cl_mode c = CLIENT_MODE_WRITE \<and> cl_bodyStream c = None \<and>
      cl_cgiProcess c = None)"

lemma fillResponse_get:
  assumes "plain_get name r"
  shows "fillResponse pages host (set_status RES_OK (resolved_get r n u l)) =
    upd_hints (\<lambda>h. h\<lparr>h_status := RES_OK, h_type := REQ_TYPE_STATIC, h_extension := u_extension u, h_method := Some GET,
      h_headers := [(''connection'', map_at i_less ''keep-alive'' ''connection'' (gr_headers r))]\<rparr>) (resolved_get r n u l)"
  by (cases "map_find i_less ''connection'' (gr_headers r)")
    (simp_all add: fillResponse_def fillErrorPage_def fillAdditionnalHeaders_def fillVerboseError_def res_defs
      set_hint_header_def add_hint_header_def resolved_get_def parsed_get_def new_ResHints_def new_Request_def
      checkHeader_def getHeader_def map_at_def)

lemma join_path_ne: "v \<noteq> [] \<Longrightarrow> list_all clean_segment v \<Longrightarrow> join_path v \<noteq> []"
  by (cases v) (auto simp: join_path_def clean_segment_def plain_segment_def)

lemma genResponse_get:
  assumes "serves_file sys h r content" and "matchLocation h (join_path (gr_path r)) = Some l"
    and "h_status hints = RES_OK" and "h_type hints = REQ_TYPE_STATIC" and "h_index hints = 0"
    and "h_path hints = l_root l @ join_path (gr_path r)" and "h_extension hints = file_extension (last (gr_path r))"
    and "h_cookies hints = []" and "h_method hints = Some GET" and "h_headers hints = [(''connection'', conn)]"
    and "plain_get name r"
  shows "\<exists>h'. genResponse sys hints = Inr (FileResponse RES_OK (h_verboseError hints) content, h') \<and>
    h_method h' = Some GET \<and> h_cookies h' = [] \<and> map_ordered i_less (h_headers h') \<and>
    map_find i_less ''content-length'' (h_headers h') = Some (itostr (int (length content))) \<and>
    map_find i_less ''content-type'' (h_headers h') = mimeType (file_extension (last (gr_path r))) \<and>
    map_find i_less ''connection'' (h_headers h') = Some conn"
proof -
  let ?h = "addUniversalHeaders sys hints"
  let ?h1 = "checkType (add_hint_header ''Content-Length'' (itostr (int (length content))) (?h\<lparr>h_index := 0\<rparr>))"
  have path: "h_path hints \<noteq> []" using assms(6,11) join_path_ne [of "gr_path r"] by (simp add: plain_get_def)
  have f: "stat_kind sys (h_path hints) = Some Regular" "file_bytes sys (h_path hints) = Some content" "length content < 2 ^ 64"
    using assms(1,2,6) by (simp_all add: serves_file_def Let_def)
  have u: "u64 (int (length content)) = int (length content)"
    using f(3) by (simp add: u64_nonneg)
  have ord0: "map_ordered i_less (h_headers hints)" using assms(10) by (simp add: map_ordered_def)
  then have ord: "map_ordered i_less (h_headers ?h)" by simp
  have one: "map_find i_less k [(''connection'', conn)] = (if ikey k = ikey ''connection'' then Some conn else None)" for k
    by (auto simp flip: same_key_i_less simp: same_key_def)
  have "genResponse sys hints = Inr (FileResponse RES_OK (h_verboseError hints) content, ?h1)"
    using assms(3-5) path f(1,2) u
    by (simp add: genResponse_def addHintHeaders_id [OF ord] inspectFile_def Let_def RES_OK_def)
  moreover have "map_ordered i_less (h_headers ?h1)" using ord by (simp add: checkType_def split: option.split)
  moreover have "h_cookies ?h1 = []" "h_method ?h1 = Some GET"
    using assms(8,9) by (simp_all add: checkType_def addUniversalHeaders_def add_hint_header_def split: option.split)
  moreover have "h_extension (?h\<lparr>h_index := 0\<rparr>) = h_extension hints" "h_status (?h\<lparr>h_index := 0\<rparr>) = RES_OK"
    using assms(3) by (simp_all add: addUniversalHeaders_def add_hint_header_def)
  then have found: "map_find i_less k (h_headers ?h1) =
      (if ikey ''Content-Type'' = ikey k \<and> mimeType (file_extension (last (gr_path r))) \<noteq> None
       then mimeType (file_extension (last (gr_path r)))
       else if ikey ''Content-Length'' = ikey k then Some (itostr (int (length content)))
       else map_find i_less k (h_headers ?h))" for k
    using ord assms(7)
    by (auto simp: checkType_def find_add RES_OK_def add_hint_header_def [of "''Content-Length''"] find_header_set split: option.split)
  have "map_find i_less ''content-type'' (h_headers ?h) = None" "map_find i_less ''connection'' (h_headers ?h) = Some conn"
    using ord0 by (simp_all add: addUniversalHeaders_def find_add assms(10) one content_keys del: map_find.simps)
  ultimately show ?thesis by (intro exI [of _ ?h1]) (simp add: found content_keys)
qed

lemma response_line_OK: "format_response_headers RES_OK h =
    ''HTTP/1.1 200 OK'' @ CRLF @ concat (map format_header (h_headers h)) @
    concat (map (\<lambda>c. ''Set-Cookie: '' @ c @ CRLF) (h_cookies h)) @ CRLF"
proof -
  have "itostr RES_OK = ''200''" "ResponseLine RES_OK = ''OK''" by code_simp+
  then show ?thesis by (simp add: format_response_headers_def)
qed

lemma res_ne: "RES_OK \<noteq> 0" by (simp add: RES_OK_def)

text \<open>Generating the response for the accepted request.\<close>

lemma generate_get:
  assumes "plain_get name r" and "serves_file sys h r content"
    and "matchLocation h (join_path (gr_path r)) = Some l" and "u_extension u = file_extension (last (gr_path r))"
    and "getRequest s = resolved_get r n u l" and "getHost s = Inr (Some h)"
    and "cl_response (s_client s) = None"
  obtains rq resp ps where "generateResponse sys RES_OK s = Inr (0, setMode CLIENT_MODE_WRITE
      (upd_client (\<lambda>c. c\<lparr>cl_request := Some rq, cl_response := Some resp,
         cl_outBuffers := cl_outBuffers c @ ps\<rparr>) s))"
    and "rs_status resp = RES_OK" and "getHeader rq ''expect'' = []"
    and "map_find i_less ''connection'' (h_headers (r_hints rq)) =
      Some (map_at i_less ''keep-alive'' ''connection'' (gr_headers r))"
    and "ps \<noteq> []" and "file_answer r content (concat ps)"
proof -
  let ?rq = "fillResponse (s_error_pages s) (Some h) (set_status RES_OK (resolved_get r n u l))"
  note rq = fillResponse_get [OF assms(1), of "s_error_pages s" "Some h" n u l]
  let ?conn = "map_at i_less ''keep-alive'' ''connection'' (gr_headers r)"
  have "\<exists>h'. genResponse sys (r_hints ?rq) = Inr (FileResponse RES_OK (h_verboseError (r_hints ?rq)) content, h') \<and>
    h_method h' = Some GET \<and> h_cookies h' = [] \<and> map_ordered i_less (h_headers h') \<and>
    map_find i_less ''content-length'' (h_headers h') = Some (itostr (int (length content))) \<and>
    map_find i_less ''content-type'' (h_headers h') = mimeType (file_extension (last (gr_path r))) \<and>
    map_find i_less ''connection'' (h_headers h') = Some ?conn"
    by (rule genResponse_get [OF assms(2,3) _ _ _ _ _ _ _ _ assms(1)])
      (simp_all add: rq assms(4), simp_all add: resolved_get_def new_ResHints_def)
  then obtain h' where g: "genResponse sys (r_hints ?rq) = Inr (FileResponse RES_OK (h_verboseError (r_hints ?rq)) content, h')"
    and m: "h_method h' = Some GET" and h': "h_cookies h' = []" "map_ordered i_less (h_headers h')"
      "map_find i_less ''content-length'' (h_headers h') = Some (itostr (int (length content)))"
      "map_find i_less ''content-type'' (h_headers h') = mimeType (file_extension (last (gr_path r)))"
      "map_find i_less ''connection'' (h_headers h') = Some ?conn"
    by blast
  let ?resp = "FileResponse RES_OK (h_verboseError (r_hints ?rq)) content"
  let ?ps = "portions (format_response_headers RES_OK h') @ portions content"
  let ?s0 = "set_request (resolved_get r n u l) s"
  have at: "attempt sys RES_OK ?s0 = Inr (True, setMode CLIENT_MODE_WRITE
      (upd_client (\<lambda>c. c\<lparr>cl_request := Some (?rq\<lparr>r_hints := h'\<rparr>), cl_response := Some ?resp,
         cl_outBuffers := cl_outBuffers c @ ?ps\<rparr>) ?s0))"
    using g m assms(6) by (simp add: attempt_def Let_def res_ne write_headers_def setMode_def)
  have "generateResponse sys RES_OK s = Inr (0, setMode CLIENT_MODE_WRITE
      (upd_client (\<lambda>c. c\<lparr>cl_request := Some (?rq\<lparr>r_hints := h'\<rparr>), cl_response := Some ?resp,
         cl_outBuffers := cl_outBuffers c @ ?ps\<rparr>) s))"
    using at assms(7) by (simp add: generateResponse_def assms(5) setMode_def)
  moreover have "getHeader (?rq\<lparr>r_hints := h'\<rparr>) ''expect'' = []"
    using plain_get_headers(7) [OF assms(1), of "?rq\<lparr>r_hints := h'\<rparr>"] rq
    by (simp add: resolved_get_def parsed_get_def)
  moreover have "?ps \<noteq> []" by (simp add: response_line_OK portions.simps [of "_ # _"])
  moreover have "file_answer r content (concat ?ps)"
    using h' by (auto simp: file_answer_def response_line_OK)
  ultimately show ?thesis using that h'(5) by simp
qed

text \<open>From the bytes to the queued answer; the rest of what was read stays in the buffer.\<close>

definition intake :: "system \<Rightarrow> inputs \<Rightarrow> bool \<Rightarrow> session \<Rightarrow> fault + int \<times> session" where
  "intake sys inp incoming s =
     and_then (handleClientIn sys inp incoming s) (\<lambda>(res, s1).
       if 0 < res then handleClientResponse sys inp res s1 else Inr (res, s1))"

lemma serve_input:
  assumes "awaiting s" and "plain_get name r" and "serves_file sys h r content"
    and "binds (cl_id (s_client s)) name (s_world s) w h"
    and "parseHeaders (getRequest s) (cl_buffer (s_client s) @ bytes) = Inr (-1, parsed_get r n, rest)"
  obtains s2 where "\<And>inp incoming. (if incoming then in_read inp else Some []) = Some bytes \<Longrightarrow>
      intake sys inp incoming s = Inr (0, s2)"
    and "answering_get r s2" and "cl_outBuffers (s_client s2) \<noteq> []"
    and "file_answer r content (concat (cl_outBuffers (s_client s2)))" and "cl_buffer (s_client s2) = rest"
    and "s_world s2 = w" and "s_log s2 = s_log s" and "s_error_pages s2 = s_error_pages s"
    and "cl_id (s_client s2) = cl_id (s_client s)" and "cl_fd (s_client s2) = cl_fd (s_client s)"
proof -
  let ?c = "s_client s"
  have alive: "s_alive s" using assms(1) by (simp add: awaiting_def Let_def)
  have c: "cl_response ?c = None" "cl_headerStatus ?c = HEADER_STATUS_ONGOING"
    "cl_bodyStatus ?c = BODY_STATUS_NONE" "cl_bodyStream ?c = None" "cl_outBuffers ?c = []" "cl_cgiProcess ?c = None"
    using assms(1) by (simp_all add: awaiting_def Let_def)
  let ?s1 = "s\<lparr>s_client := ?c\<lparr>cl_request := Some (parsed_get r n), cl_buffer := rest,
      cl_headerStatus := HEADER_STATUS_READY\<rparr>\<rparr>"
  have parsed: "parseRequest bytes s = Inr (-1, ?s1)"
    by (simp add: parseRequest_def c assms(5) setHeaderStatus_def)
  let ?s2 = "setBodyStatus BODY_STATUS_NONE ?s1"
  have s2: "?s2 = ?s1" by (simp add: setBodyStatus_def c(3))
  have b: "binds (cl_id (s_client ?s1)) name (s_world ?s1) w h" "getRequest ?s1 = parsed_get r n"
    using assms(4) by (simp_all add: getRequest_def)
  from headers_of_get [OF assms(2,3) this] obtain u l where
    hd: "handleRequestHeaders sys ?s1 = Inr (0, accepted_get w (resolved_get r n u l) ?s1)"
    and l: "matchLocation h (join_path (gr_path r)) = Some l" "u_extension u = file_extension (last (gr_path r))"
    using assms(3) by metis
  let ?s3 = "accepted_get w (resolved_get r n u l) ?s1"
  have s3: "getRequest ?s3 = resolved_get r n u l" "cl_bodyStatus (s_client ?s3) = BODY_STATUS_NONE"
    "cl_response (s_client ?s3) = None" "s_world ?s3 = w" "cl_id (s_client ?s3) = cl_id ?c"
    by (simp_all add: accepted_get_def getRequest_def c)
  have kind: "r_type (resolved_get r n u l) = REQ_TYPE_STATIC" "r_method (resolved_get r n u l) = Some GET"
    by (simp_all add: resolved_get_def parsed_get_def)
  have "after_parse sys (-1) ?s1 = Inr (RES_OK, ?s3)"
    by (simp add: after_parse_def s2 hd s3 handleRequestBodyDone_def kind)
  then have input: "handleClientIn sys inp incoming s = Inr (RES_OK, ?s3)"
    if "(if incoming then in_read inp else Some []) = Some bytes" for inp incoming
    using that parsed by (simp add: handleClientIn_def)
  have "getHost ?s3 = Inr (Some h)" using binds_host [OF assms(4)] s3 by simp
  from generate_get [OF assms(2,3) l s3(1) this s3(3)] obtain rq resp ps where
    g: "generateResponse sys RES_OK ?s3 = Inr (0, setMode CLIENT_MODE_WRITE
      (upd_client (\<lambda>c. c\<lparr>cl_request := Some rq, cl_response := Some resp,
         cl_outBuffers := cl_outBuffers c @ ps\<rparr>) ?s3))" (is "_ = Inr (0, ?s4)")
    and resp: "rs_status resp = RES_OK" "getHeader rq ''expect'' = []"
      "map_find i_less ''connection'' (h_headers (r_hints rq)) =
        Some (map_at i_less ''keep-alive'' ''connection'' (gr_headers r))"
    and ps: "ps \<noteq> []" "file_answer r content (concat ps)"
    by metis
  have "handleClientResponse sys inp RES_OK ?s3 = Inr (0, ?s4)" for inp
    using g by (simp add: handleClientResponse_def s3(1) kind)
  then have "intake sys inp incoming s = Inr (0, ?s4)"
    if "(if incoming then in_read inp else Some []) = Some bytes" for inp incoming
    unfolding intake_def input [OF that] by (simp add: RES_OK_def)
  moreover have "answering_get r ?s4"
    using resp alive by (simp add: answering_get_def setMode_def accepted_get_def c)
  ultimately show ?thesis
    using ps by (intro that [of ?s4]) (simp_all add: setMode_def accepted_get_def c)
qed

section \<open>Sending it and going on\<close>

text \<open>The connection is kept unless the request asked to close it.\<close>

definition keeps_alive :: "get_request \<Rightarrow> bool" where
  "keeps_alive r \<longleftrightarrow> map_at i_less ''keep-alive'' ''connection'' (gr_headers r) \<noteq> ''close''"

text \<open>What the events change: the log, and nothing of the connection.\<close>

definition proceeds :: "session \<Rightarrow> string list \<Rightarrow> session \<Rightarrow> bool" where
  "proceeds s pieces s' \<longleftrightarrow>
     s_log s' = s_log s @ map (Send (cl_fd (s_client s))) pieces \<and> s_error_pages s' = s_error_pages s \<and>
     cl_id (s_client s') = cl_id (s_client s) \<and> cl_fd (s_client s') = cl_fd (s_client s)"

lemma proceeds_trans: "proceeds s ps s1 \<Longrightarrow> proceeds s1 qs s2 \<Longrightarrow> proceeds s (ps @ qs) s2"
  by (simp add: proceeds_def)

text \<open>The events of a client that stays open, with the state each leaves.\<close>

fun steps :: "system \<Rightarrow> inputs list \<Rightarrow> session \<Rightarrow> session \<Rightarrow> bool" where
  "steps sys [] s s' = (s' = s \<and> s_alive s)"
| "steps sys (i # is) s s' =
     (s_alive s \<and> (\<exists>s1. client_event sys i s = Inr s1 \<and> s_error_pages s1 = s_error_pages s \<and> steps sys is s1 s'))"

lemma steps_append: "steps sys (is @ js) s s2 \<longleftrightarrow> (\<exists>s1. steps sys is s s1 \<and> steps sys js s1 s2)"
proof (induction "is" arbitrary: s)
  case Nil
  have "steps sys js s s2 \<Longrightarrow> s_alive s" by (cases js) auto
  then show ?case by auto
qed auto

lemma steps_run: "steps sys is s s' \<Longrightarrow> run_events sys is s = Inr s' \<and> s_alive s'"
  by (induction "is" arbitrary: s) auto

lemma answering_more:
  assumes "answering_get r s" and "takes inp piece" and "cl_outBuffers (s_client s) = piece # next # rest"
  shows "client_event sys inp s = Inr (syscall (Send (cl_fd (s_client s)) piece)
    (upd_client (\<lambda>c. c\<lparr>cl_outBuffers := next # rest\<rparr>) s))"
proof -
  obtain resp where "cl_response (s_client s) = Some resp"
    using assms(1) by (auto simp: answering_get_def Let_def)
  with assms show ?thesis
    by (simp add: answering_get_def Let_def takes_def client_event_def handleClientEvent_def
        handleClientOut_def after_write_def on_sent_def)
qed

lemma answering_last:
  assumes "answering_get r s" and "keeps_alive r" and "cl_outBuffers (s_client s) = [piece]"
  obtains s1 where "\<And>inp. takes inp piece \<Longrightarrow> client_event sys inp s =
      and_then (intake sys inp False s1) (\<lambda>(res, s2). if res < 0 then terminate s2 else Inr s2)"
    and "between_requests s1" and "cl_buffer (s_client s1) = cl_buffer (s_client s)" and "s_world s1 = s_world s"
    and "proceeds s [piece] s1"
proof -
  obtain resp rq where a: "cl_response (s_client s) = Some resp" "cl_request (s_client s) = Some rq"
      "rs_status resp = RES_OK" "getHeader rq ''expect'' = []"
      "map_find i_less ''connection'' (h_headers (r_hints rq)) =
         Some (map_at i_less ''keep-alive'' ''connection'' (gr_headers r))"
    and c: "cl_bodyStatus (s_client s) = BODY_STATUS_NONE" "cl_mode (s_client s) = CLIENT_MODE_WRITE"
      "cl_bodyStream (s_client s) = None" "cl_cgiProcess (s_client s) = None" "s_alive s"
    using assms(1) by (auto simp: answering_get_def Let_def)
  let ?rq = "upd_hints (\<lambda>h. h\<lparr>h_headers := map_insert i_less ''connection'' [] (h_headers h)\<rparr>) rq"
  let ?s0 = "syscall (Send (cl_fd (s_client s)) piece)
      (upd_client (\<lambda>c. c\<lparr>cl_outBuffers := [], cl_request := Some ?rq\<rparr>) s)"
  have out: "handleClientOut inp s = Inr (SITUATION_KEEP_ALIVE, ?s0)" if "takes inp piece" for inp
    using assms(2,3) that a by (simp add: takes_def handleClientOut_def after_write_def map_at_def keeps_alive_def
        getRequest_def syscall_def)
  let ?s1 = "setMode CLIENT_MODE_READ (upd_client (\<lambda>c. c\<lparr>cl_request := None, cl_response := None,
      cl_bodyFileName := [], cl_bodyStatus := BODY_STATUS_NONE, cl_headerStatus := HEADER_STATUS_ONGOING\<rparr>) ?s0)"
  have "clear ?s0 = Inr (upd_client (\<lambda>c. c\<lparr>cl_request := None, cl_response := None,
      cl_bodyFileName := [], cl_bodyStatus := BODY_STATUS_NONE, cl_headerStatus := HEADER_STATUS_ONGOING\<rparr>) ?s0)"
    by (simp add: clear_def deleteBodyStream_def deleteCGIProcess_def c)
  then have "client_event sys inp s = and_then (intake sys inp False ?s1) (\<lambda>(res, s2). if res < 0 then terminate s2 else Inr s2)"
    if "takes inp piece" for inp
    using that a c out [OF that]
    by (simp add: takes_def client_event_def handleClientEvent_def on_sent_def intake_def Let_def)
  moreover have "between_requests ?s1"
    by (simp add: between_requests_def awaiting_def setMode_def getRequest_def c)
  ultimately show ?thesis by (rule that) (simp_all add: setMode_def proceeds_def)
qed

text \<open>With nothing more to read the client waits.\<close>

lemma intake_nothing:
  assumes "between_requests s" and "cl_buffer (s_client s) = []"
  shows "\<exists>s1. (\<forall>inp. intake sys inp False s = Inr (0, s1)) \<and> between_requests s1 \<and> cl_buffer (s_client s1) = [] \<and>
    s_world s1 = s_world s \<and> proceeds s [] s1"
proof -
  let ?s1 = "s\<lparr>s_client := (s_client s)\<lparr>cl_request := Some new_Request, cl_buffer := []\<rparr>\<rparr>"
  have "parseHeaders new_Request [] = Inr (0, new_Request, [])" by code_simp
  then have "intake sys inp False s = Inr (0, ?s1)" for inp
    using assms by (simp add: between_requests_def awaiting_def Let_def intake_def handleClientIn_def parseRequest_def after_parse_def)
  moreover have "between_requests ?s1" using assms(1) by (simp add: between_requests_def awaiting_def Let_def getRequest_def)
  ultimately show ?thesis by (auto simp: proceeds_def)
qed

text \<open>A request with the content it asks for.\<close>

definition served :: "system \<Rightarrow> string \<Rightarrow> Host \<Rightarrow> get_request \<times> string \<Rightarrow> bool" where
  "served sys name h x \<longleftrightarrow> plain_get name (fst x) \<and> serves_file sys h (fst x) (snd x) \<and> keeps_alive (fst x)"

definition answered :: "get_request \<times> string \<Rightarrow> string list \<Rightarrow> bool" where
  "answered x pieces \<longleftrightarrow> file_answer (fst x) (snd x) (concat pieces)"

definition burst :: "(get_request \<times> string) list \<Rightarrow> string" where
  "burst xs = concat (map (\<lambda>x. get_text (fst x)) xs)"

lemma intake_burst:
  assumes "awaiting s" and "binds (cl_id (s_client s)) name (s_world s) w h"
    and "parseHeaders (getRequest s) (cl_buffer (s_client s) @ bytes) = parseHeaders new_Request (burst (x # xs))"
    and "served sys name h x"
  obtains s2 where "\<And>inp incoming. (if incoming then in_read inp else Some []) = Some bytes \<Longrightarrow>
      intake sys inp incoming s = Inr (0, s2)"
    and "answering_get (fst x) s2" and "cl_outBuffers (s_client s2) \<noteq> []" and "answered x (cl_outBuffers (s_client s2))"
    and "cl_buffer (s_client s2) = burst xs" and "s_world s2 = w" and "proceeds s [] s2"
proof -
  have x: "plain_get name (fst x)" "serves_file sys h (fst x) (snd x)" using assms(4) by (simp_all add: served_def)
  from parseHeaders_get [OF x(1), of "burst xs"] assms(3) obtain n where
    "parseHeaders (getRequest s) (cl_buffer (s_client s) @ bytes) = Inr (-1, parsed_get (fst x) n, burst xs)"
    by (auto simp: burst_def)
  from serve_input [OF assms(1) x assms(2) this] show ?thesis
    using that unfolding answered_def proceeds_def list.map append_Nil2 by blast
qed

lemma sends_pieces:
  assumes "answering_get r s" and "cl_outBuffers (s_client s) = ps @ [p]"
  shows "\<exists>s1. (\<forall>inps. list_all2 takes inps ps \<longrightarrow> steps sys inps s s1) \<and> answering_get r s1 \<and>
    cl_outBuffers (s_client s1) = [p] \<and> cl_buffer (s_client s1) = cl_buffer (s_client s) \<and>
    s_world s1 = s_world s \<and> proceeds s ps s1"
  using assms
proof (induction ps arbitrary: s)
  case Nil
  then show ?case by (auto simp: proceeds_def answering_get_def Let_def)
next
  case (Cons q qs)
  obtain next_piece more where out: "qs @ [p] = next_piece # more" by (cases "qs @ [p]") auto
  let ?s = "syscall (Send (cl_fd (s_client s)) q) (upd_client (\<lambda>c. c\<lparr>cl_outBuffers := qs @ [p]\<rparr>) s)"
  have step: "client_event sys i s = Inr ?s" if "takes i q" for i
    using answering_more [OF Cons.prems(1) that, of next_piece more sys] Cons.prems(2) by (simp add: out)
  have "answering_get r ?s" using Cons.prems(1) by (simp add: answering_get_def Let_def)
  from Cons.IH [OF this] obtain s1 where run: "\<forall>inps. list_all2 takes inps qs \<longrightarrow> steps sys inps ?s s1"
    and s1: "answering_get r s1" "cl_outBuffers (s_client s1) = [p]" "cl_buffer (s_client s1) = cl_buffer (s_client s)"
      "s_world s1 = s_world s" "proceeds ?s qs s1"
    by auto
  have "s_alive s" using Cons.prems(1) by (simp add: answering_get_def Let_def)
  then have "steps sys inps s s1" if "list_all2 takes inps (q # qs)" for inps
    using that step run by (fastforce simp: list_all2_Cons2)
  moreover have "proceeds s (q # qs) s1" using s1(5) by (simp add: proceeds_def)
  ultimately show ?case using s1 by blast
qed

text \<open>After the last piece the client is between two requests, and what is left in its buffer is read.\<close>

lemma sends_answer:
  assumes "answering_get r s" and "keeps_alive r" and "cl_outBuffers (s_client s) = ps" and "ps \<noteq> []"
  obtains s1 where "\<And>inps s2. list_all2 takes inps ps \<Longrightarrow> (\<And>inp. intake sys inp False s1 = Inr (0, s2)) \<Longrightarrow>
      s_alive s2 \<Longrightarrow> proceeds s1 [] s2 \<Longrightarrow> steps sys inps s s2"
    and "between_requests s1" and "cl_buffer (s_client s1) = cl_buffer (s_client s)" and "s_world s1 = s_world s"
    and "proceeds s ps s1"
proof -
  obtain qs p where ps: "ps = qs @ [p]" using assms(4) by (metis rev_exhaust)
  from sends_pieces [OF assms(1), of qs p sys] assms(3) obtain s0 where
    run: "\<And>inps. list_all2 takes inps qs \<Longrightarrow> steps sys inps s s0"
    and s0: "answering_get r s0" "cl_outBuffers (s_client s0) = [p]" "cl_buffer (s_client s0) = cl_buffer (s_client s)"
      "s_world s0 = s_world s" "proceeds s qs s0"
    unfolding ps by blast
  obtain s1 where
    ev: "\<And>inp. takes inp p \<Longrightarrow> client_event sys inp s0 =
      and_then (intake sys inp False s1) (\<lambda>(res, s2). if res < 0 then terminate s2 else Inr s2)"
    and s1: "between_requests s1" "cl_buffer (s_client s1) = cl_buffer (s_client s0)" "s_world s1 = s_world s0"
      "proceeds s0 [p] s1"
    using answering_last [OF s0(1) assms(2) s0(2), of sys] by blast
  have "steps sys inps s s2"
    if inps: "list_all2 takes inps ps" and s2: "\<And>inp. intake sys inp False s1 = Inr (0, s2)" "s_alive s2" "proceeds s1 [] s2"
    for inps s2
  proof -
    from inps obtain js i where j: "inps = js @ [i]" "list_all2 takes js qs" "takes i p"
      unfolding ps by (auto simp: list_all2_append2 list_all2_Cons2)
    have "client_event sys i s0 = Inr s2" using ev [OF j(3)] s2(1) by simp
    moreover have "s_error_pages s2 = s_error_pages s0" using s1(4) s2(3) by (simp add: proceeds_def)
    moreover have "s_alive s0" using s0(1) by (simp add: answering_get_def Let_def)
    ultimately show ?thesis using run [OF j(2)] s2(2) by (auto simp: j(1) steps_append)
  qed
  moreover have "proceeds s ps s1" using proceeds_trans [OF s0(5) s1(4)] by (simp add: ps)
  ultimately show ?thesis using s1 s0 by (intro that) simp_all
qed

text \<open>
  The answers are sent in order, each followed by the answer to what is next in the buffer; which
  pieces they are sent in does not depend on the events.
\<close>

lemma answers_in_order:
  assumes "answering_get r s" and "keeps_alive r" and "cl_outBuffers (s_client s) = ps" and "ps \<noteq> []"
    and "cl_buffer (s_client s) = burst xs" and "binds (cl_id (s_client s)) name w0 (s_world s) h"
    and "list_all (served sys name h) xs"
  shows "\<exists>outs. list_all2 answered xs outs \<and>
    (\<forall>inps. list_all2 takes inps (ps @ concat outs) \<longrightarrow>
       (\<exists>s'. steps sys inps s s' \<and> between_requests s' \<and> cl_buffer (s_client s') = [] \<and>
          s_world s' = s_world s \<and> proceeds s (ps @ concat outs) s'))"
  using assms
proof (induction xs arbitrary: r s ps w0)
  case Nil
  obtain s1 where
    run: "\<And>inps s2. list_all2 takes inps ps \<Longrightarrow> (\<And>inp. intake sys inp False s1 = Inr (0, s2)) \<Longrightarrow>
      s_alive s2 \<Longrightarrow> proceeds s1 [] s2 \<Longrightarrow> steps sys inps s s2"
    and s1: "between_requests s1" "cl_buffer (s_client s1) = cl_buffer (s_client s)" "s_world s1 = s_world s"
      "proceeds s ps s1"
    using sends_answer [OF Nil.prems(1-4), of sys] by blast
  have "cl_buffer (s_client s1) = []" using s1(2) Nil.prems(5) by (simp add: burst_def)
  from intake_nothing [OF s1(1) this, of sys] obtain s2 where s2: "\<forall>inp. intake sys inp False s1 = Inr (0, s2)"
    "between_requests s2" "cl_buffer (s_client s2) = []" "s_world s2 = s_world s1" "proceeds s1 [] s2"
    by blast
  have "s_alive s2" using s2(2) by (simp add: between_requests_def awaiting_def Let_def)
  then have "steps sys inps s s2" if "list_all2 takes inps ps" for inps
    using run [OF that] s2(1,5) by blast
  then show ?case using s2 s1 proceeds_trans [OF s1(4) s2(5)] by (intro exI [of _ "[]"]) auto
next
  case (Cons x xs)
  obtain s1 where
    run: "\<And>inps s2. list_all2 takes inps ps \<Longrightarrow> (\<And>inp. intake sys inp False s1 = Inr (0, s2)) \<Longrightarrow>
      s_alive s2 \<Longrightarrow> proceeds s1 [] s2 \<Longrightarrow> steps sys inps s s2"
    and s1: "between_requests s1" "cl_buffer (s_client s1) = cl_buffer (s_client s)" "s_world s1 = s_world s"
      "proceeds s ps s1"
    using sends_answer [OF Cons.prems(1-4), of sys] by blast
  have b: "binds (cl_id (s_client s1)) name (s_world s1) (s_world s) h"
    using binds_again [OF Cons.prems(6)] s1(3,4) by (simp add: proceeds_def)
  have x: "served sys name h x" "list_all (served sys name h) xs" using Cons.prems(7) by simp_all
  obtain s2 where s2: "\<And>inp. intake sys inp False s1 = Inr (0, s2)" "answering_get (fst x) s2"
    "cl_outBuffers (s_client s2) \<noteq> []" "answered x (cl_outBuffers (s_client s2))"
    "cl_buffer (s_client s2) = burst xs" "s_world s2 = s_world s" "proceeds s1 [] s2"
    using intake_burst [OF _ b, of "[]" x xs sys] s1(1,2) Cons.prems(5) x(1)
    unfolding between_requests_def by (metis append_Nil2)
  have b2: "binds (cl_id (s_client s2)) name (s_world s1) (s_world s2) h"
    using b s2(6,7) by (simp add: proceeds_def)
  from Cons.IH [OF s2(2) _ refl s2(3,5) b2 x(2)] x(1) obtain outs where outs: "list_all2 answered xs outs"
    and go: "\<And>inps. list_all2 takes inps (cl_outBuffers (s_client s2) @ concat outs) \<Longrightarrow>
       \<exists>s'. steps sys inps s2 s' \<and> between_requests s' \<and> cl_buffer (s_client s') = [] \<and>
          s_world s' = s_world s2 \<and> proceeds s2 (cl_outBuffers (s_client s2) @ concat outs) s'"
    by (auto simp: served_def)
  let ?outs = "cl_outBuffers (s_client s2) # outs"
  have "\<exists>s'. steps sys inps s s' \<and> between_requests s' \<and> cl_buffer (s_client s') = [] \<and>
      s_world s' = s_world s \<and> proceeds s (ps @ concat ?outs) s'"
    if inps: "list_all2 takes inps (ps @ concat ?outs)" for inps
  proof -
    from inps obtain ks js where i: "inps = ks @ js" "list_all2 takes ks ps"
      "list_all2 takes js (cl_outBuffers (s_client s2) @ concat outs)"
      by (auto simp: list_all2_append2)
    have "s_alive s2" using s2(2) by (simp add: answering_get_def Let_def)
    then have "steps sys ks s s2" using run [OF i(2) s2(1) _ s2(7)] by blast
    moreover from go [OF i(3)] obtain s' where "steps sys js s2 s'" "between_requests s'"
      "cl_buffer (s_client s') = []" "s_world s' = s_world s" "proceeds s2 (concat ?outs) s'"
      using s2(6) by auto
    ultimately show ?thesis
      using proceeds_trans [OF proceeds_trans [OF s1(4) s2(7)]] by (auto simp: i(1) steps_append)
  qed
  then show ?case using outs s2(4) by (intro exI [of _ ?outs]) simp
qed

section \<open>However it arrives\<close>

definition brings :: "inputs \<Rightarrow> string \<Rightarrow> bool" where
  "brings inp bytes \<longleftrightarrow> \<not> in_hup inp \<and> in_in inp \<and> in_read inp = Some bytes"

lemma reading_event:
  assumes "awaiting s" and "brings inp bytes" and "intake sys inp True s = Inr (0, s2)"
  shows "client_event sys inp s = Inr s2"
proof -
  obtain res s1 where h: "handleClientIn sys inp True s = Inr (res, s1)"
    and k: "(if 0 < res then handleClientResponse sys inp res s1 else Inr (res, s1)) = Inr (0, s2)"
    using assms(3) by (auto simp: intake_def and_then_eq_Inr)
  have "handleClientEvent sys inp s = Inr (0, s2)"
    using assms(1,2) h k
    by (auto simp: handleClientEvent_def brings_def awaiting_def Let_def split: if_splits)
  then show ?thesis by (simp add: client_event_def)
qed

text \<open>A piece of a head that is not complete changes only the request in progress.\<close>

lemma reading_more:
  assumes "awaiting s" and "cl_buffer (s_client s) = []" and "brings inp bytes"
    and "parseHeaders (getRequest s) bytes = Inr (0, rq, [])"
  shows "client_event sys inp s = Inr (upd_client (\<lambda>c. c\<lparr>cl_request := Some rq, cl_buffer := []\<rparr>) s)"
proof (rule reading_event [OF assms(1,3)])
  show "intake sys inp True s = Inr (0, upd_client (\<lambda>c. c\<lparr>cl_request := Some rq, cl_buffer := []\<rparr>) s)"
    using assms by (simp add: intake_def handleClientIn_def brings_def parseRequest_def awaiting_def Let_def
        after_parse_def)
qed

lemma reading_pieces:
  assumes "awaiting s" and "cl_buffer (s_client s) = []" and "plain_get name r"
    and "get_text r = read @ concat cs @ q" and "q \<noteq> []" and "[] \<notin> set cs" and "length (read @ concat cs) \<le> BUFFER_SIZE"
    and "\<forall>t. t \<noteq> [] \<longrightarrow> parseHeaders (getRequest s) t = parseHeaders new_Request (read @ t)"
  shows "\<exists>s1. (\<forall>inps. list_all2 brings inps cs \<longrightarrow> steps sys inps s s1) \<and> awaiting s1 \<and>
    cl_buffer (s_client s1) = [] \<and> s_world s1 = s_world s \<and> proceeds s [] s1 \<and>
    (\<forall>t. t \<noteq> [] \<longrightarrow> parseHeaders (getRequest s1) t = parseHeaders new_Request (read @ concat cs @ t))"
  using assms
proof (induction cs arbitrary: s read)
  case Nil
  then show ?case by (auto simp: proceeds_def awaiting_def Let_def)
next
  case (Cons c cs)
  obtain n where "parseHeaders new_Request ((read @ c) @ concat cs @ q) = Inr (-1, parsed_get r n, [])"
    using parseHeaders_get [OF Cons.prems(3), of "[]"] Cons.prems(4) by auto
  from parseHeaders_waits [OF this] obtain rq where rq: "parseHeaders new_Request (read @ c) = Inr (0, rq, [])"
    using Cons.prems(5,7) by auto
  have c: "parseHeaders (getRequest s) c = Inr (0, rq, [])" using Cons.prems(6,8) rq by auto
  let ?s = "upd_client (\<lambda>c. c\<lparr>cl_request := Some rq, cl_buffer := []\<rparr>) s"
  have step: "client_event sys i s = Inr ?s" if "brings i c" for i
    by (rule reading_more [OF Cons.prems(1,2) that c])
  have "r_status new_Request \<noteq> PTERM" by (simp add: new_Request_def)
  from parseHeaders_pause [OF rq this]
  have on: "\<forall>t. t \<noteq> [] \<longrightarrow> parseHeaders (getRequest ?s) t = parseHeaders new_Request ((read @ c) @ t)"
    by (auto simp: getRequest_def)
  have "awaiting ?s" using Cons.prems(1) by (simp add: awaiting_def Let_def)
  from Cons.IH [OF this _ Cons.prems(3) _ Cons.prems(5) _ _ on] Cons.prems(4,6,7) obtain s1 where
    run: "\<forall>inps. list_all2 brings inps cs \<longrightarrow> steps sys inps ?s s1"
    and s1: "awaiting s1" "cl_buffer (s_client s1) = []" "s_world s1 = s_world s" "proceeds ?s [] s1"
      "\<forall>t. t \<noteq> [] \<longrightarrow> parseHeaders (getRequest s1) t = parseHeaders new_Request (read @ concat (c # cs) @ t)"
    by auto
  have "s_alive s" using Cons.prems(1) by (simp add: awaiting_def Let_def)
  then have "steps sys inps s s1" if "list_all2 brings inps (c # cs)" for inps
    using that step run by (fastforce simp: list_all2_Cons2)
  moreover have "proceeds s [] s1" using s1(4) by (simp add: proceeds_def)
  ultimately show ?case using s1 by blast
qed

lemma burst_steps:
  assumes "between_requests s" and "cl_buffer (s_client s) = []"
    and "binds (cl_id (s_client s)) name (s_world s) w h" and "list_all (served sys name h) (x # xs)"
    and "concat (cs @ [c]) = burst (x # xs)" and "[] \<notin> set (cs @ [c])"
    and "length (concat cs) < length (get_text (fst x))" and "length (concat cs) \<le> BUFFER_SIZE"
  shows "\<exists>outs. list_all2 answered (x # xs) outs \<and>
    (\<forall>reads writes. list_all2 brings reads (cs @ [c]) \<longrightarrow> list_all2 takes writes (concat outs) \<longrightarrow>
       (\<exists>s'. steps sys (reads @ writes) s s' \<and> between_requests s' \<and> cl_buffer (s_client s') = [] \<and>
          s_world s' = w \<and> proceeds s (concat outs) s'))"
proof -
  have s: "awaiting s" "getRequest s = new_Request" using assms(1) by (simp_all add: between_requests_def)
  have x: "served sys name h x" "list_all (served sys name h) xs" and plain: "plain_get name (fst x)"
    using assms(4) by (simp_all add: served_def)
  have "concat cs = take (length (concat cs)) (get_text (fst x))"
    using arg_cong [OF assms(5), of "take (length (concat cs))"] assms(7) by (simp add: burst_def)
  then have q: "get_text (fst x) = concat cs @ drop (length (concat cs)) (get_text (fst x))"
      "drop (length (concat cs)) (get_text (fst x)) \<noteq> []"
    using assms(7) by (metis append_take_drop_id, simp)
  from reading_pieces [OF s(1) assms(2) plain, of "[]" cs _ sys, simplified, OF q(1,2)] assms(6,8) s(2) obtain s1 where
    run: "\<And>inps. list_all2 brings inps cs \<Longrightarrow> steps sys inps s s1"
    and s1: "awaiting s1" "cl_buffer (s_client s1) = []" "s_world s1 = s_world s" "proceeds s [] s1"
      "\<forall>t. t \<noteq> [] \<longrightarrow> parseHeaders (getRequest s1) t = parseHeaders new_Request (concat cs @ t)"
    by auto
  have b: "binds (cl_id (s_client s1)) name (s_world s1) w h" using assms(3) s1(3,4) by (simp add: proceeds_def)
  have "parseHeaders (getRequest s1) (cl_buffer (s_client s1) @ c) = parseHeaders new_Request (burst (x # xs))"
    using s1(2,5) assms(5,6) by auto
  from intake_burst [OF s1(1) b this x(1)] obtain s2 where
    s2: "\<And>inp incoming. (if incoming then in_read inp else Some []) = Some c \<Longrightarrow> intake sys inp incoming s1 = Inr (0, s2)"
      "answering_get (fst x) s2" "cl_outBuffers (s_client s2) \<noteq> []" "answered x (cl_outBuffers (s_client s2))"
      "cl_buffer (s_client s2) = burst xs" "s_world s2 = w" "proceeds s1 [] s2"
    by blast
  have b2: "binds (cl_id (s_client s2)) name (s_world s1) (s_world s2) h"
    using b s2(6,7) by (simp add: proceeds_def)
  have "keeps_alive (fst x)" using x(1) by (simp add: served_def)
  from answers_in_order [OF s2(2) this refl s2(3,5) b2 x(2)] obtain outs where outs: "list_all2 answered xs outs"
    and go: "\<And>inps. list_all2 takes inps (cl_outBuffers (s_client s2) @ concat outs) \<Longrightarrow>
       \<exists>s'. steps sys inps s2 s' \<and> between_requests s' \<and> cl_buffer (s_client s') = [] \<and>
          s_world s' = s_world s2 \<and> proceeds s2 (cl_outBuffers (s_client s2) @ concat outs) s'"
    by blast
  let ?outs = "cl_outBuffers (s_client s2) # outs"
  have "\<exists>s'. steps sys (reads @ writes) s s' \<and> between_requests s' \<and> cl_buffer (s_client s') = [] \<and>
      s_world s' = w \<and> proceeds s (concat ?outs) s'"
    if ev: "list_all2 brings reads (cs @ [c])" "list_all2 takes writes (concat ?outs)" for reads writes
  proof -
    from ev(1) obtain ks i where r: "reads = ks @ [i]" "list_all2 brings ks cs" "brings i c"
      by (auto simp: list_all2_append2 list_all2_Cons2)
    have "client_event sys i s1 = Inr s2"
      by (rule reading_event [OF s1(1) r(3) s2(1)]) (use r(3) in \<open>simp add: brings_def\<close>)
    moreover have "s_alive s2" "s_alive s1" "s_error_pages s2 = s_error_pages s1"
      using s2(2,7) s1(1) by (simp_all add: answering_get_def awaiting_def Let_def proceeds_def)
    ultimately have "steps sys reads s s2" using run [OF r(2)] by (auto simp: r(1) steps_append)
    moreover from go ev(2) obtain s' where "steps sys writes s2 s'" "between_requests s'"
      "cl_buffer (s_client s') = []" "s_world s' = w" "proceeds s2 (concat ?outs) s'"
      using s2(6) by auto
    ultimately show ?thesis
      using proceeds_trans [OF proceeds_trans [OF s1(4) s2(7)]] by (auto simp: steps_append)
  qed
  then show ?thesis using outs s2(4) by (intro exI [of _ ?outs]) simp
qed

text \<open>
  C20. A client of a persistent connection sends requests for files its host serves, in one burst
  whose first head the network may cut anywhere. Every request is answered, in order, with the
  status, the length and the type of its file and then the file, whatever pieces the answers
  are sent in, and nothing else is done for the client; then it is ready for the next burst.
\<close>

theorem burst_answered_in_order:
  assumes "between_requests s" and "cl_buffer (s_client s) = []"
    and "binds (cl_id (s_client s)) name (s_world s) w h" and "list_all (served sys name h) (x # xs)"
    and "concat (cs @ [c]) = burst (x # xs)" and "[] \<notin> set (cs @ [c])"
    and "length (concat cs) < length (get_text (fst x))" and "length (concat cs) \<le> BUFFER_SIZE"
  shows "\<exists>outs. list_all2 answered (x # xs) outs \<and>
    (\<forall>reads writes. list_all2 brings reads (cs @ [c]) \<longrightarrow> list_all2 takes writes (concat outs) \<longrightarrow>
       (\<exists>s'. run_events sys (reads @ writes) s = Inr s' \<and> s_alive s' \<and> between_requests s' \<and>
          cl_buffer (s_client s') = [] \<and> s_world s' = w \<and>
          s_log s' = s_log s @ map (Send (cl_fd (s_client s))) (concat outs)))"
proof -
  obtain outs where outs: "list_all2 answered (x # xs) outs"
    and run: "\<And>reads writes. list_all2 brings reads (cs @ [c]) \<Longrightarrow> list_all2 takes writes (concat outs) \<Longrightarrow>
       \<exists>s'. steps sys (reads @ writes) s s' \<and> between_requests s' \<and> cl_buffer (s_client s') = [] \<and>
          s_world s' = w \<and> proceeds s (concat outs) s'"
    using burst_steps [OF assms] by blast
  have "\<exists>s'. run_events sys (reads @ writes) s = Inr s' \<and> s_alive s' \<and> between_requests s' \<and>
      cl_buffer (s_client s') = [] \<and> s_world s' = w \<and>
      s_log s' = s_log s @ map (Send (cl_fd (s_client s))) (concat outs)"
    if "list_all2 brings reads (cs @ [c])" "list_all2 takes writes (concat outs)" for reads writes
    using run [OF that] steps_run unfolding proceeds_def by blast
  with outs show ?thesis by blast
qed

definition small_get :: get_request where
  "small_get = \<lparr> gr_path = [''a''], gr_query = ''q'', gr_headers = [(''host'', ''h'')] \<rparr>"

definition reads_some :: "string \<Rightarrow> inputs" where
  "reads_some bytes = demo_inputs\<lparr>in_in := True, in_read := Some bytes\<rparr>"

definition writes_all :: "string \<Rightarrow> inputs" where
  "writes_all piece = demo_inputs\<lparr>in_write := int (length piece)\<rparr>"

text \<open>Only the rules of a host matter.\<close>

lemma serves_file_lists:
  "serves_file sys (h\<lparr>ho_clients := cs, ho_listenServers := ls\<rparr>) r content = serves_file sys h r content"
  by (simp add: serves_file_def matchLocation_def matchCGIConfig_def)

lemma small_get_served:
  assumes "matchCGIConfig h ''a'' = None" and "matchLocation h ''a'' = Some l" and "l_redir l = 0"
    and "method_allowed (l_methods l) GET" and "l_root l = ''www/''"
  shows "served demo_system ''h'' h (small_get, ''content'')"
proof -
  have "plain_get ''h'' small_get" "keeps_alive small_get" by code_simp+
  then show ?thesis
    using assms by (simp add: served_def serves_file_def small_get_def join_path_def demo_system_def stat_kind_def
        file_bytes_def c_str_def NUL_def)
qed

lemma small_served: "served demo_system ''h'' demo_host (small_get, ''content'')"
  by (rule small_get_served [where l = demo_location]; code_simp)

lemma scripted: "list_all2 brings (map reads_some cs) cs" "list_all2 takes (map writes_all ps) ps"
  by (induction cs; induction ps; simp add: brings_def reads_some_def takes_def writes_all_def demo_inputs_def)+

theorem burst_answered_in_order_witness:
  "\<exists>outs s'. list_all2 answered [(small_get, ''content''), (small_get, ''content'')] outs \<and>
     run_events demo_system (map reads_some [take 3 (get_text small_get), drop 3 (get_text small_get) @ get_text small_get] @
       map writes_all (concat outs)) demo_session = Inr s' \<and>
     s_log s' = map (Send 5) (concat outs)"
proof -
  let ?t = "get_text small_get"
  have s: "between_requests demo_session" "cl_buffer (s_client demo_session) = []" "cl_fd (s_client demo_session) = 5"
    "cl_id (s_client demo_session) = 7" "s_log demo_session = []"
    by (simp_all add: between_requests_def awaiting_def getRequest_def demo_session_def new_session_def new_Client_def)
  have b: "binds 7 ''h'' (s_world demo_session) busy_world (demo_host\<lparr>ho_clients := [7], ho_listenServers := [0]\<rparr>)"
    by (simp add: binds_def setHost_def demo_session_def new_session_def busy_world_def demo_world_def demo_host_def
        upd_assoc_def checkServerName_def addClient_def new_Host_def)
  have f: "list_all (served demo_system ''h'' (demo_host\<lparr>ho_clients := [7], ho_listenServers := [0]\<rparr>))
      [(small_get, ''content''), (small_get, ''content'')]"
    using small_served by (simp add: served_def serves_file_lists)
  have cut: "concat ([take 3 ?t] @ [drop 3 ?t @ ?t]) = burst [(small_get, ''content''), (small_get, ''content'')]"
    by (simp add: burst_def)
  have small: "[] \<notin> set ([take 3 ?t] @ [drop 3 ?t @ ?t])" "length (concat [take 3 ?t]) < length (get_text (fst (small_get, ''content'')))"
    "length (concat [take 3 ?t]) \<le> BUFFER_SIZE"
    by code_simp+
  have b: "binds (cl_id (s_client demo_session)) ''h'' (s_world demo_session) busy_world
      (demo_host\<lparr>ho_clients := [7], ho_listenServers := [0]\<rparr>)"
    using b by (simp only: s(4))
  from burst_answered_in_order [OF s(1,2) b f cut small] obtain outs where
    outs: "list_all2 answered [(small_get, ''content''), (small_get, ''content'')] outs"
    and run: "\<And>reads writes. list_all2 brings reads ([take 3 ?t] @ [drop 3 ?t @ ?t]) \<Longrightarrow> list_all2 takes writes (concat outs) \<Longrightarrow>
       \<exists>s'. run_events demo_system (reads @ writes) demo_session = Inr s' \<and>
          s_log s' = s_log demo_session @ map (Send (cl_fd (s_client demo_session))) (concat outs)"
    by blast
  have "list_all2 brings (map reads_some [take 3 ?t, drop 3 ?t @ ?t]) ([take 3 ?t] @ [drop 3 ?t @ ?t])"
    using scripted(1) [of "[take 3 ?t, drop 3 ?t @ ?t]"] by simp
  from run [OF this scripted(2)] outs show ?thesis unfolding s(3,5) by auto
qed

end
