(* ===== verification/Service.thy ===== *)
theory Service
  imports Console Exchange
begin

text \<open>
  The server from the side of a client. A run of one connection (\<open>Exchange\<close>) is a run of the
  server on events of that connection (\<open>steps_server\<close>), and a client that has just been accepted
  is bound to the host its server has under the name it asks for (\<open>newcomer_binds\<close>). With the
  invariants of \<open>Program\<close> this gives what a user of the server sees: in any state a run of the
  configured server reaches, a client that connects is served.
\<close>

section \<open>From sessions to the server\<close>

lemma steps_server:
  assumes "steps sys inps (session_of sv c) s'" and "client_at sv d = Some c"
  shows "\<exists>sv'. handle_events sys (map (Activity d) inps) sv = Inr (0, sv') \<and> sv_world sv' = s_world s' \<and>
    sv_log sv' = s_log s' \<and> client_at sv' d = Some (s_client s')"
  using assms
proof (induction inps arbitrary: sv c)
  case Nil
  then show ?case by (auto simp: session_of_def)
next
  case (Cons i inps)
  then obtain s1 where s1: "client_event sys i (session_of sv c) = Inr s1" "s_error_pages s1 = sv_pages sv"
      and go: "steps sys inps s1 s'"
    by (auto simp: session_of_def)
  have alive: "s_alive s1" using go by (cases inps) auto
  let ?sv = "put_session d s1 sv"
  have c: "client_at ?sv d = Some (s_client s1)"
    using Cons.prems(2) alive by (simp add: put_session_def)
  have "session_of ?sv (s_client s1) = s1" using s1(2) alive by (simp add: session_of_def put_session_def)
  then have "steps sys inps (session_of ?sv (s_client s1)) s'" using go by simp
  from Cons.IH [OF this c] show ?case
    using Cons.prems(2) s1(1) by (simp add: client_activity_def with_client_def)
qed

text \<open>Only the rules of a host matter for what it serves.\<close>

lemma serves_file_rules:
  assumes "rules h' = rules h"
  shows "serves_file sys h' r content = serves_file sys h r content"
proof -
  have "serves_file sys (rules x) r content = serves_file sys x r content" for x
    by (simp add: rules_def serves_file_lists)
  with assms show ?thesis by metis
qed

text \<open>A client that has just come is bound to the host its server has under the name.\<close>

lemma newcomer_binds:
  assumes "pointers_ok w" and "map_of (w_links w) d = Some (None, t)" and "server_at w t = Some ls"
    and "findHost name ls = Some i"
  shows "\<exists>w' h h'. host_at w i = Some h \<and> rules h' = rules h \<and> binds d name w w' h'"
proof -
  from hosts_liveD(2) [OF pointers_okD(1) [OF assms(1)] assms(3,4)] obtain h where
    h: "host_at w i = Some h" "name \<in> set (ho_server_names h)" by blast
  let ?w1 = "upd_server t (\<lambda>ls. ls\<lparr>ls_orphanClients := removeAll d (ls_orphanClients ls)\<rparr>) (upd_host i (addClient d) w)"
  let ?w = "?w1\<lparr>w_links := upd_assoc d (\<lambda>_. (Some i, t)) (w_links ?w1)\<rparr>"
  have "bindClient t d name w = Inr (i, ?w1)" using assms(3,4) h(1) by (simp add: bindClient_def)
  then have "setHost d name w = Inr ?w" using assms(2) by (simp add: setHost_def)
  moreover have "map_of (w_links ?w) d = Some (Some i, t)" "host_at ?w i = Some (addClient d h)"
    using assms(2) h(1) by simp_all
  moreover have "checkServerName (addClient d h) name" using h(2) by (simp add: checkServerName_def addClient_def)
  ultimately have "binds d name w ?w (addClient d h)" unfolding binds_def by blast
  then show ?thesis using h(1) rules_frames(1) by blast
qed

section \<open>A connection from its beginning\<close>

lemma arrival_result:
  assumes "server_ok w0 sv" and "server_at (sv_world sv) t = Some ls"
    and "int (length (ls_connectedClients ls)) < ls_maxClientNbr ls" and "0 \<le> ar_fd a"
  shows "\<exists>sv1 ls1. handleListenEvent t a sv = Inr (if ar_registered a then 0 else 1, sv1) \<and> server_ok w0 sv1 \<and>
    client_at sv1 (w_next (sv_world sv)) = Some (newClient (w_next (sv_world sv)) (ar_fd a) (ar_addr a) (ar_port a)) \<and>
    map_of (w_links (sv_world sv1)) (w_next (sv_world sv)) = Some (None, t) \<and> sv_log sv1 = sv_log sv \<and>
    sv_pages sv1 = sv_pages sv \<and> server_at (sv_world sv1) t = Some ls1 \<and> ls_hostMap ls1 = ls_hostMap ls"
proof -
  let ?d = "w_next (sv_world sv)"
  have fresh: "map_of (w_links (sv_world sv)) ?d = None"
    using assms(1) world_okD(3) [of "sv_world sv" ?d]
    by (metis server_ok_def less_irrefl option.distinct(1) option.exhaust)
  then have free: "client_at sv ?d = None" using assms(1) unfolding server_ok_def by metis
  let ?w = "upd_server t (\<lambda>ls. ls\<lparr>ls_connectedClients := ls_connectedClients ls @ [?d],
      ls_orphanClients := ls_orphanClients ls @ [?d]\<rparr>)
    ((sv_world sv)\<lparr>w_links := w_links (sv_world sv) @ [(?d, None, t)], w_next := ?d + 1\<rparr>)"
  let ?sv = "sv\<lparr>sv_world := ?w, sv_clients := sv_clients sv @ [(?d, newClient ?d (ar_fd a) (ar_addr a) (ar_port a))]\<rparr>"
  have run: "handleListenEvent t a sv = Inr (if ar_registered a then 0 else 1, ?sv)"
    using assms(2-4) by (simp add: handleListenEvent_def acceptConnection_def Let_def)
  have "server_ok w0 ?sv" using handleListenEvent_ok [OF assms(1), of t a] run by simp
  then show ?thesis
    using run free fresh assms(2) by (intro exI [of _ ?sv]) (simp add: map_add_def)
qed

text \<open>Accepted, it is bound to a host with the rules the configuration gave it.\<close>

lemma arrival_bound:
  assumes "server_ok w0 sv" and "server_at (sv_world sv) t = Some ls"
    and "int (length (ls_connectedClients ls)) < ls_maxClientNbr ls" and "0 \<le> ar_fd a"
    and "findHost name ls = Some i" and "host_at w0 i = Some h"
  shows "\<exists>r sv1 w' h'. handleListenEvent t a sv = Inr (r, sv1) \<and> sv_log sv1 = sv_log sv \<and>
    client_at sv1 (w_next (sv_world sv)) = Some (newClient (w_next (sv_world sv)) (ar_fd a) (ar_addr a) (ar_port a)) \<and>
    binds (w_next (sv_world sv)) name (sv_world sv1) w' h' \<and> rules h' = rules h"
proof -
  let ?d = "w_next (sv_world sv)"
  obtain r sv1 ls1 where sv1: "handleListenEvent t a sv = Inr (r, sv1)" "server_ok w0 sv1"
    "client_at sv1 ?d = Some (newClient ?d (ar_fd a) (ar_addr a) (ar_port a))"
    "map_of (w_links (sv_world sv1)) ?d = Some (None, t)" "sv_log sv1 = sv_log sv"
    and ls1: "server_at (sv_world sv1) t = Some ls1" "ls_hostMap ls1 = ls_hostMap ls"
    using arrival_result [OF assms(1-4)] by blast
  have p: "pointers_ok (sv_world sv1)" and k: "keeps_rules w0 (sv_world sv1)"
    using sv1(2) by (simp_all add: server_ok_def)
  have "findHost name ls1 = Some i" using assms(5) ls1(2) by (simp add: findHost_def)
  from newcomer_binds [OF p sv1(4) ls1(1) this] obtain w' g h' where
    g: "host_at (sv_world sv1) i = Some g" "rules h' = rules g" and b: "binds ?d name (sv_world sv1) w' h'" by blast
  have "rules h' = rules h" using k g assms(6) unfolding keeps_rules_def by fastforce
  with sv1 b show ?thesis by blast
qed

text \<open>
  C2. A client that connects to a running server is served. In any state a run of the
  configured server reaches, let a server of its list have a place left and know the name the
  client will ask for. Then the client is accepted, and a burst of requests for files that
  the rules the configuration file gave this host serve is answered as a whole, whatever way
  the first head is cut: the answers, in order, are all that is sent and logged, no pointer
  that is gone is touched, and the connection is kept.
\<close>

theorem running_server_serves:
  assumes "parseConfigFile sys sock path empty_conf = Some (res, cf)"
    and "main_loop sys rds (boot listens cf) = Inr sv"
    and "server_at (sv_world sv) t = Some ls" and "int (length (ls_connectedClients ls)) < ls_maxClientNbr ls"
    and "0 \<le> ar_fd a" and "findHost name ls = Some i" and "host_at (cf_world cf) i = Some h"
    and "list_all (served now name h) (x # xs)" and "concat (cs @ [c]) = burst (x # xs)" and "[] \<notin> set (cs @ [c])"
    and "length (concat cs) < length (get_text (fst x))" and "length (concat cs) \<le> BUFFER_SIZE"
  shows "\<exists>outs. list_all2 answered (x # xs) outs \<and>
    (\<forall>reads writes. list_all2 brings reads (cs @ [c]) \<longrightarrow> list_all2 takes writes (concat outs) \<longrightarrow>
       (\<exists>sv' cl. handle_events now (Arrival t a # map (Activity (w_next (sv_world sv))) (reads @ writes)) sv = Inr (0, sv') \<and>
          client_at sv' (w_next (sv_world sv)) = Some cl \<and> between_requests (session_of sv' cl) \<and>
          sv_log sv' = sv_log sv @ map (Send (ar_fd a)) (concat outs)))"
proof -
  let ?d = "w_next (sv_world sv)"
  let ?c = "newClient ?d (ar_fd a) (ar_addr a) (ar_port a)"
  have ok: "server_ok (cf_world cf) sv" using run_ok [OF assms(1,2)] by simp
  obtain r sv1 w' h' where sv1: "handleListenEvent t a sv = Inr (r, sv1)" "sv_log sv1 = sv_log sv" "client_at sv1 ?d = Some ?c"
    and b: "binds ?d name (sv_world sv1) w' h'" and "rules h' = rules h"
    using arrival_bound [OF ok assms(3-7)] by blast
  from serves_file_rules [OF \<open>rules h' = rules h\<close>] have srv: "list_all (served now name h') (x # xs)"
    using assms(8) by (simp add: served_def list_all_iff)
  let ?s = "session_of sv1 ?c"
  have s: "between_requests ?s" "cl_buffer (s_client ?s) = []"
    by (simp_all add: between_requests_def awaiting_def getRequest_def session_of_def newClient_def new_Client_def)
  have b': "binds (cl_id (s_client ?s)) name (s_world ?s) w' h'"
    using b by (simp add: session_of_def newClient_def new_Client_def)
  have log: "s_log ?s = sv_log sv" "cl_fd (s_client ?s) = ar_fd a"
    by (simp_all add: session_of_def sv1(2) newClient_def new_Client_def)
  from burst_steps [OF s b' srv assms(9-12)] obtain outs where outs: "list_all2 answered (x # xs) outs"
    and run: "\<And>reads writes. list_all2 brings reads (cs @ [c]) \<Longrightarrow> list_all2 takes writes (concat outs) \<Longrightarrow>
       \<exists>s'. steps now (reads @ writes) ?s s' \<and> between_requests s' \<and> cl_buffer (s_client s') = [] \<and>
          s_world s' = w' \<and> proceeds ?s (concat outs) s'"
    by blast
  have "\<exists>sv' cl. handle_events now (Arrival t a # map (Activity ?d) (reads @ writes)) sv = Inr (0, sv') \<and>
      client_at sv' ?d = Some cl \<and> between_requests (session_of sv' cl) \<and>
      sv_log sv' = sv_log sv @ map (Send (ar_fd a)) (concat outs)"
    if ev: "list_all2 brings reads (cs @ [c])" "list_all2 takes writes (concat outs)" for reads writes
  proof -
    from run [OF ev] obtain s' where s': "steps now (reads @ writes) ?s s'" "between_requests s'" "proceeds ?s (concat outs) s'"
      by blast
    from steps_server [OF s'(1) sv1(3)] obtain sv' where sv': "handle_events now (map (Activity ?d) (reads @ writes)) sv1 = Inr (0, sv')"
      "sv_log sv' = s_log s'" "client_at sv' ?d = Some (s_client s')" by blast
    have "between_requests (session_of sv' (s_client s'))"
      using s'(2) by (simp add: between_requests_def awaiting_def getRequest_def session_of_def Let_def)
    then show ?thesis using sv1(1) sv' s'(3) log by (auto simp: proceeds_def)
  qed
  with outs show ?thesis by blast
qed

text \<open>The configured server, with one client already there, and a second that sends two requests.\<close>

definition file_config :: string where
  "file_config = ''default_error_pages e;server {listen 80;host h;server_name h;location * {root www;methods GET;};};''"

abbreviation file_parse :: "((config_exn + int) \<times> conf) option" where
  "file_parse \<equiv> parseConfigFile (one_file file_config) one_sock (Some ''conf'') empty_conf"

definition second_client :: arrival where
  "second_client = \<lparr> ar_fd = 6, ar_addr = ''1.2.3.4'', ar_port = 4001, ar_registered = True \<rparr>"

lemma file_server_runs:
  "\<exists>cf sv ls h. file_parse = Some (Inr 0, cf) \<and>
     main_loop (one_file file_config) [small_arrival] (boot (\<lambda>_. True) cf) = Inr sv \<and>
     w_next (sv_world sv) = 3 \<and> sv_log sv = [] \<and>
     server_at (sv_world sv) 1 = Some ls \<and> int (length (ls_connectedClients ls)) < ls_maxClientNbr ls \<and>
     findHost ''h'' ls = Some 0 \<and> host_at (cf_world cf) 0 = Some h \<and> served demo_system ''h'' h (small_get, ''content'')"
proof -
  have "case file_parse of None \<Rightarrow> False | Some (r, cf) \<Rightarrow> r = Inr 0 \<and>
      (case main_loop (one_file file_config) [small_arrival] (boot (\<lambda>_. True) cf) of
         Inl e \<Rightarrow> False
       | Inr sv \<Rightarrow> w_next (sv_world sv) = 3 \<and> List.null (sv_log sv) \<and>
           (case server_at (sv_world sv) 1 of
              None \<Rightarrow> False
            | Some ls \<Rightarrow> int (length (ls_connectedClients ls)) < ls_maxClientNbr ls \<and> findHost ''h'' ls = Some 0) \<and>
           (case host_at (cf_world cf) 0 of
              None \<Rightarrow> False
            | Some h \<Rightarrow> matchCGIConfig h ''a'' = None \<and>
                (case matchLocation h ''a'' of
                   None \<Rightarrow> False
                 | Some l \<Rightarrow> l_redir l = 0 \<and> method_allowed (l_methods l) GET \<and> l_root l = ''www/'')))"
    by code_simp
  then obtain cf sv ls h l where run: "file_parse = Some (Inr 0, cf)"
    "main_loop (one_file file_config) [small_arrival] (boot (\<lambda>_. True) cf) = Inr sv"
    "w_next (sv_world sv) = 3" "sv_log sv = []" "server_at (sv_world sv) 1 = Some ls"
    "int (length (ls_connectedClients ls)) < ls_maxClientNbr ls" "findHost ''h'' ls = Some 0"
    "host_at (cf_world cf) 0 = Some h"
    and h: "matchCGIConfig h ''a'' = None" "matchLocation h ''a'' = Some l" "l_redir l = 0"
      "method_allowed (l_methods l) GET" "l_root l = ''www/''"
    unfolding evaluated by (auto simp: List.null_iff)
  from run small_get_served [OF h] show ?thesis by blast
qed

theorem running_server_serves_witness:
  "\<exists>cf sv sv' outs. file_parse = Some (Inr 0, cf) \<and>
     main_loop (one_file file_config) [small_arrival] (boot (\<lambda>_. True) cf) = Inr sv \<and>
     list_all2 answered [(small_get, ''content''), (small_get, ''content'')] outs \<and>
     handle_events demo_system
       (Arrival 1 second_client # map (Activity 3)
          (map reads_some [take 3 (get_text small_get), drop 3 (get_text small_get) @ get_text small_get] @
           map writes_all (concat outs))) sv = Inr (0, sv') \<and>
     sv_log sv' = map (Send 6) (concat outs)"
proof -
  let ?t = "get_text small_get" and ?x = "(small_get, ''content'')"
  obtain cf sv ls h where run: "file_parse = Some (Inr 0, cf)"
    "main_loop (one_file file_config) [small_arrival] (boot (\<lambda>_. True) cf) = Inr sv"
    and now: "w_next (sv_world sv) = 3" "sv_log sv = []"
    and ls: "server_at (sv_world sv) 1 = Some ls" "int (length (ls_connectedClients ls)) < ls_maxClientNbr ls"
    and h: "findHost ''h'' ls = Some 0" "host_at (cf_world cf) 0 = Some h" and x: "served demo_system ''h'' h ?x"
    using file_server_runs by blast
  have fd: "0 \<le> ar_fd second_client" "ar_fd second_client = 6" by (simp_all add: second_client_def)
  have f: "list_all (served demo_system ''h'' h) [?x, ?x]" using x by simp
  have cut: "concat ([take 3 ?t] @ [drop 3 ?t @ ?t]) = burst [?x, ?x]" by (simp add: burst_def)
  have small: "[] \<notin> set ([take 3 ?t] @ [drop 3 ?t @ ?t])" "length (concat [take 3 ?t]) < length (get_text (fst ?x))"
    "length (concat [take 3 ?t]) \<le> BUFFER_SIZE"
    by code_simp+
  from running_server_serves [OF run ls fd(1) h f cut small] obtain outs where outs: "list_all2 answered [?x, ?x] outs"
    and go: "\<And>reads writes. list_all2 brings reads ([take 3 ?t] @ [drop 3 ?t @ ?t]) \<Longrightarrow> list_all2 takes writes (concat outs) \<Longrightarrow>
       \<exists>sv'. handle_events demo_system (Arrival 1 second_client # map (Activity 3) (reads @ writes)) sv = Inr (0, sv') \<and>
          sv_log sv' = map (Send 6) (concat outs)"
    unfolding now fd(2) append_Nil by blast
  have "list_all2 brings (map reads_some [take 3 ?t, drop 3 ?t @ ?t]) ([take 3 ?t] @ [drop 3 ?t @ ?t])"
    using scripted(1) [of "[take 3 ?t, drop 3 ?t @ ?t]"] by simp
  from go [OF this scripted(2)] run outs show ?thesis by blast
qed

end
