(* ===== verification/Spec2Isabelle.thy ===== *)
theory Spec2Isabelle
  imports Console Config_Endless Removal Routes Sender Service
begin

text \<open>
  A verification library for an HTTP/1.1 server written in C++98 (sources under src/srcs and
  src/includes).

  \<^bold>\<open>The program.\<close> One thread waits on epoll. A configuration file gives hosts (address, ports,
  server names, location blocks, CGI blocks); listening servers, one per address and port,
  map server names to hosts and accept clients. What a client sends is collected in a buffer
  and parsed as it comes, whatever way the network cuts it: request line, headers, then a
  body of known length or in chunks, stored in a file. Once the headers are complete the
  client is bound to the host its \<open>Host\<close> header names, and the request is checked against the
  rules of that host. The answer is a file, a generated page, a redirection or the output of
  a script that runs in a process of its own. It is queued in pieces, and one piece is
  written per event; then the connection is closed or reused.

  \<^bold>\<open>Theories\<close>, in the order of the calls:

  \<^item> Prelude: faults, \<open>and_then\<close>, pointers, \<open>int\<close> and \<open>size_t\<close> wrap-around, the operations of
    \<open>std::string\<close>. Std_Map: \<open>std::map\<close> as an ordered association list, with the locale
    \<open>strict_weak\<close> for its ordering, interpreted on the string, integer and caseless header
    orderings (\<open>i_less\<close> of Request.hpp).
  \<^item> Format and Wildcard: format.cpp (\<open>getInt\<close>, \<open>IntToString\<close>, \<open>isUriMatch\<close>).
  \<^item> Types: the data of Request.hpp and Host.hpp (\<open>URI\<close>, \<open>ResHints\<close>, \<open>Request\<close>, \<open>Location\<close>,
    \<open>CGIConfig\<close>) with their constructors and accessors.
  \<^item> Uri, Request_Parser, Body: Request.cpp. Feed holds the locales \<open>resumable\<close> and
    \<open>resumable_total\<close>, the contract of a parser that is fed piece by piece; the header loop
    and the body of known length are interpretations of them, and so is the whole head, request
    line and headers (Head).
  \<^item> System: the operating system as a parameter. Its record gives \<open>stat\<close>, \<open>access\<close>, the
    content of files, the listing of directories, whether a file can be created, and the
    clock. It also holds \<open>checkRessourcePath\<close>.
  \<^item> Host_Rules: Host.cpp, from the choice of a block (locale \<open>matcher\<close>, interpreted on
    \<open>isUriMatch\<close>) to \<open>checkRequest\<close>.
  \<^item> Response: Response.cpp (\<open>genResponse\<close>, \<open>writeResponse\<close> and the page generators).
    Http_Date: its \<open>getTime\<close>, over \<open>gmtime\<close> and \<open>strftime\<close> as the standard library documents
    them.
  \<^item> Cgi: CGIProcess.cpp (the parser of a script's output, its environment, starting it,
    waiting for it).
  \<^item> Listen: ListenServer.cpp and the lists of Host.cpp and Client.cpp. Objects are numbers
    and pointers to listed objects are looked up, so that a dangling pointer is a fault;
    \<open>client_step\<close> is the step relation of clients coming, being bound and going.
  \<^item> Client: Client.cpp, one client's state with the world around it and the log of the
    system calls made for it (\<open>session\<close>).
  \<^item> Control: IControl.cpp, what an event does to a client, and \<open>Client::checkTO\<close>.

  \<^item> Streams: \<open>std::istream\<close> on a text (position, the end-of-file and fail bits, \<open>peek\<close>, \<open>get\<close>,
    \<open>getline\<close>, \<open>tellg\<close>, \<open>seekg\<close>). Config_Lexer and Config: IParseConfig.cpp, the words, quotes,
    comments and blocks, then the directives, the blocks of hosts, locations and scripts, and
    the file. Config_Blocks, Config_File, Config_Words and Config_Endless hold what is shown of
    them.
  \<^item> Unique_Iterator: UniqueValuesMapIterator.tpp and the two loops of ListenServer.cpp that
    use it to print.
  \<^item> Routes: the specification of the registry of hosts, a table from address, port and name to
    host, and the refinement (locale \<open>implements\<close>, interpreted on \<open>registerHost_port\<close>).
  \<^item> Server: all clients together. \<open>handleEpoll\<close> and \<open>handleListenEvent\<close> on a batch of events,
    the console commands, \<open>removeServer\<close> with what it does to clients, \<open>Client::checkTO\<close> over
    the list of clients, the loop of \<open>main\<close> and \<open>cleanExit\<close>. Printing gives the texts the
    console commands log: the output operators of the classes and Debug.cpp.
  \<^item> Pointers: the invariant that every pointer a list or a table of Listen holds leads to a
    host or a server that still exists, and which operations keep it.
  \<^item> Request_Maps, Configured, Session, Server_Run: invariants. The header maps stay ordered;
    a request on a configured host that is turned down can be answered; every operation of a
    connection keeps what the lists know of it (locale \<open>connection\<close>, interpreted in
    Server_Run); every operation of the server keeps the lists, the clients and the rules of
    the hosts consistent.
  \<^item> Logger: ILogger.cpp, the registered streams with their levels, the log files, the
    printf of its own that \<open>log\<close> is, and \<open>initLogs\<close> of main.cpp; \<open>logger_step\<close> is the step
    relation of what the program does with it.
  \<^item> Program: \<open>main\<close>, from the configuration file to the exit, and what holds in every state a
    run reaches. Console: what such a server prints when it is asked for its state. Removal:
    what removing a host from one of its servers leaves.
  \<^item> Exchange: one connection from the first byte of a request to the last of its answer, event
    by event (\<open>awaiting\<close>, \<open>answering_get\<close>, \<open>between_requests\<close> are the states it goes through,
    \<open>steps\<close> its runs). Service: the same for a client that comes to the running server.
  \<^item> Sender: the test client of src/sender, a program of its own that sends a file in pieces
    and prints what comes back.

  \<^bold>\<open>Conventions.\<close> An operation that may throw, dereference a null or dangling pointer or leave
  the bounds of an object has a result of type \<open>fault + 'a\<close>; \<open>OutOfRange\<close>, \<open>LogicError\<close> and
  \<open>OtherException\<close> are exceptions, the others undefined behaviour. Strings are lists of
  bytes, \<open>c_str\<close> cuts at the first NUL. A value of type \<open>int\<close> is an integer brought back to
  32 bits by \<open>i32\<close> wherever the code computes with values the client controls. Reference
  parameters are returned. Loops are structural recursion or come with a measure, no fuel is
  used; the loops over configuration blocks, which may move back in the file, are partial
  functions whose value is None when they do not end. \<open>main_loop\<close> runs a given list of rounds:
  what \<open>epoll_wait\<close> gives, what the sockets and the console do, and how long clients have been
  silent are parameters of a round.

  \<^bold>\<open>What is shown\<close>, by theory: matching of wildcard expressions against a reference
  definition, exact for expressions that end in a star (Wildcard); confinement of paths,
  decoding as the inverse of encoding, and the order in which the two are applied, so that
  encoded dots leave the root (Uri); independence of the parsers from the way the input is
  cut, the round trip of printed headers, exact storage of bodies of known length and in
  chunks (Request_Parser, Body); what an accepted request
  satisfies, the absence of null dereferences in the checks, the choice of a block
  (Host_Rules); framing of responses, the cases in which none can be generated (Response);
  on which days the date of a response is right (Http_Date); that a well-formed output of a
  script is understood, and its environment (Cgi); which host
  a name leads to, the consistency of the lists, unregistering (Listen); what closing and
  resetting a client do (Client); that headers are accepted only if the rules permit the
  request, that a response is always generated, that an error answer is
  sent and closes the connection, that the pieces of a last answer are delivered in order, which files are opened and removed, and the state in
  which a client is never answered (Control); that lists of words written in quotes are read
  back, and that a block is what a one-pass reference definition finds (Config_Words); that
  location and script blocks are always parsed to an end, that the hosts a configuration file
  leaves are complete, and which files are never finished (Config_Blocks, Config_File,
  Config_Endless); that
  registering hosts refines a routing table (Routes); that each host is printed once
  (Unique_Iterator); that a message is written, as one text, to exactly the streams of its
  level, that the log files and the streams stay in step, what the logs of the program take
  (Logger); that any run of the configured server keeps its state well formed and
  can answer every refused request; that no table of such a server leads to a host that is
  gone, so that binding a client never fails, although a client can be left without its
  server (Pointers, Program, Removal); that the console can always list the servers and what a listing
  holds (Console); that reading the head of a request does not depend on how it is cut (Head);
  that a burst of requests for files is answered completely and in order, by the bytes of the
  files, and that this holds for every client the running server accepts (Exchange, Service);
  that the test client sends its file and nothing else (Sender).

  \<^bold>\<open>Where the model is stricter or coarser than the code.\<close> \<open>Control.getHost\<close> faults on a client
  whose host is gone, also where the code only copies the pointer. \<open>inspectFile\<close> of Response
  takes the size \<open>stat\<close> gives for the number of bytes that can be read, which holds for a
  regular file that does not change meanwhile. A response is generated in one step, so that a
  file does not change between its header block and its body.

  \<^bold>\<open>Not modelled.\<close> The messages the program logs other than those of the console commands, the
  line numbers of configuration errors among them (the logger itself is modelled); the registration of
  descriptors with epoll beyond its result; sockets and addresses (a function gives the
  descriptor for an address and port); the child process after \<open>fork\<close> beyond the calls it
  makes; the clock, which is a parameter; signals.
\<close>

end
